(* ===== verification/Prelude.thy ===== *)
theory Prelude
  imports Main "HOL-Library.Char_ord" "HOL-Library.List_Lexorder" "HOL-Library.AList"
    "HOL-Library.Sublist"
begin

text \<open>
  What every component shares: Python text operations on \<open>string\<close>, insertion-ordered
  dictionaries as association lists, JSON values, the exceptions the code raises and catches as
  values of \<open>fault\<close>, computations over a state that may raise (the state survives a raise, as it
  does in Python), and two generic interfaces as locales: a preorder on states that every step of
  a computation follows, and the fold that keeps the newest item per key.
\<close>

section \<open>Collections of rules\<close>

named_theorems steps \<open>introduction rules: a computation moves the state along a preorder\<close>
named_theorems comp_simps \<open>unfolding of the computation combinators\<close>


section \<open>Text\<close>

text \<open>Python's \<open>str\<close> as a list of characters; instants are ISO-8601 texts, ordered as texts.\<close>

type_synonym stamp = string

definition removeprefix :: "string \<Rightarrow> string \<Rightarrow> string" where
  "removeprefix p s = (if prefix p s then drop (length p) s else s)"

definition removesuffix :: "string \<Rightarrow> string \<Rightarrow> string" where
  "removesuffix p s = (if p \<noteq> [] \<and> suffix p s then take (length s - length p) s else s)"

text \<open>\<open>s.partition(c)\<close> for a one-character separator: before, whether it was found, after.\<close>

fun partition_at :: "char \<Rightarrow> string \<Rightarrow> string \<times> bool \<times> string" where
  "partition_at c [] = ([], False, [])"
| "partition_at c (x # xs) =
     (if x = c then ([], True, xs)
      else (case partition_at c xs of (a, f, b) \<Rightarrow> (x # a, f, b)))"

text \<open>\<open>sub in s\<close>.\<close>

fun occurs :: "string \<Rightarrow> string \<Rightarrow> bool" where
  "occurs p [] = (p = [])"
| "occurs p (c # cs) = (prefix p (c # cs) \<or> occurs p cs)"

text \<open>\<open>s.split(c)\<close> for a one-character separator.\<close>

fun split_on :: "char \<Rightarrow> string \<Rightarrow> string list" where
  "split_on c [] = [[]]"
| "split_on c (x # xs) =
     (if x = c then [] # split_on c xs
      else (case split_on c xs of [] \<Rightarrow> [[x]] | w # ws \<Rightarrow> (x # w) # ws))"

definition is_space :: "char \<Rightarrow> bool" where
  "is_space c \<longleftrightarrow> (let n = of_char c :: nat in n = 32 \<or> (9 \<le> n \<and> n \<le> 13) \<or> (28 \<le> n \<and> n \<le> 31) \<or> n = 133 \<or> n = 160)"

definition lstrip :: "string \<Rightarrow> string" where
  "lstrip s = dropWhile is_space s"

definition strip :: "string \<Rightarrow> string" where
  "strip s = rev (dropWhile is_space (rev (dropWhile is_space s)))"

definition is_digit :: "char \<Rightarrow> bool" where
  "is_digit c \<longleftrightarrow> (let n = of_char c :: nat in 48 \<le> n \<and> n \<le> 57)"

definition lower_char :: "char \<Rightarrow> char" where
  "lower_char c = (let n = of_char c :: nat in if 65 \<le> n \<and> n \<le> 90 then char_of (n + 32) else c)"

definition upper_char :: "char \<Rightarrow> char" where
  "upper_char c = (let n = of_char c :: nat in if 97 \<le> n \<and> n \<le> 122 then char_of (n - 32) else c)"

definition lower :: "string \<Rightarrow> string" where
  "lower s = map lower_char s"

definition upper :: "string \<Rightarrow> string" where
  "upper s = map upper_char s"

text \<open>Decimal text of a number, as \<open>str\<close> and \<open>f"{n}"\<close> print an integer.\<close>

fun nat_text :: "nat \<Rightarrow> string" where
  "nat_text n = (if n < 10 then [char_of (48 + n)] else nat_text (n div 10) @ [char_of (48 + n mod 10)])"

declare nat_text.simps [simp del]

definition int_text :: "int \<Rightarrow> string" where
  "int_text i = (if i < 0 then CHR ''-'' # nat_text (nat (- i)) else nat_text (nat i))"

text \<open>The value of a run of ASCII digits.\<close>

definition digits_value :: "string \<Rightarrow> nat" where
  "digits_value s = foldl (\<lambda>n c. 10 * n + (of_char c - 48)) 0 s"

text \<open>
  \<open>int(s)\<close> on text: surrounding blanks, an optional sign and decimal digits; \<open>None\<close> where it
  raises \<open>ValueError\<close>. Underscores between digits, which \<open>int\<close> also takes, are read too.
\<close>

fun digits_only :: "string \<Rightarrow> string option" where
  "digits_only [] = None"
| "digits_only [c] = (if is_digit c then Some [c] else None)"
| "digits_only (c # d # ds) =
     (if \<not> is_digit c then None
      else if d = CHR ''_'' then map_option ((#) c) (digits_only ds)
      else map_option ((#) c) (digits_only (d # ds)))"

definition parse_int :: "string \<Rightarrow> int option" where
  "parse_int s =
     (case strip s of
        [] \<Rightarrow> None
      | c # cs \<Rightarrow>
          if c = CHR ''-'' then map_option (\<lambda>d. - int (digits_value d)) (digits_only cs)
          else if c = CHR ''+'' then map_option (\<lambda>d. int (digits_value d)) (digits_only cs)
          else map_option (\<lambda>d. int (digits_value d)) (digits_only (c # cs)))"

text \<open>\<open>sep.join(parts)\<close>.\<close>

fun join_with :: "string \<Rightarrow> string list \<Rightarrow> string" where
  "join_with sep [] = []"
| "join_with sep [x] = x"
| "join_with sep (x # y # ys) = x @ sep @ join_with sep (y # ys)"

lemma of_char_digit: "d < 10 \<Longrightarrow> of_char (char_of (48 + d) :: char) = (48 + d :: nat)"
  by (simp add: of_char_of)

lemma is_digit_char_of: "d < 10 \<Longrightarrow> is_digit (char_of (48 + d :: nat))"
  by (simp add: is_digit_def of_char_digit Let_def)

lemma nat_text_not_Nil [simp]: "nat_text n \<noteq> []"
  by (subst nat_text.simps) simp

lemma nat_text_digits: "c \<in> set (nat_text n) \<Longrightarrow> is_digit c"
proof (induction n rule: nat_text.induct)
  case (1 n)
  show ?case
  proof (cases "n < 10")
    case True
    with "1.prems" show ?thesis by (simp add: nat_text.simps [of n] is_digit_char_of)
  next
    case False
    with 1 show ?thesis by (auto simp: nat_text.simps [of n] is_digit_char_of)
  qed
qed

lemma digits_value_snoc: "digits_value (s @ [c]) = 10 * digits_value s + (of_char c - 48)"
  by (simp add: digits_value_def)

lemma digits_value_nat_text [simp]: "digits_value (nat_text n) = n"
proof (induction n rule: nat_text.induct)
  case (1 n)
  show ?case
  proof (cases "n < 10")
    case True
    then show ?thesis by (simp add: nat_text.simps [of n] digits_value_def of_char_digit)
  next
    case False
    then show ?thesis
      by (simp add: nat_text.simps [of n] digits_value_snoc "1.IH" of_char_digit)
  qed
qed

lemma digit_underscore: "is_digit c \<Longrightarrow> c \<noteq> CHR ''_''"
  by (auto simp: is_digit_def)

lemma digits_only_digits: "s \<noteq> [] \<Longrightarrow> (\<And>c. c \<in> set s \<Longrightarrow> is_digit c) \<Longrightarrow> digits_only s = Some s"
  by (induction s rule: digits_only.induct) (auto dest: digit_underscore)

lemma digit_not_space: "is_digit c \<Longrightarrow> \<not> is_space c"
  by (auto simp: is_digit_def is_space_def Let_def)

lemma dropWhile_none: "(\<And>c. c \<in> set s \<Longrightarrow> \<not> P c) \<Longrightarrow> dropWhile P s = s"
  by (cases s) auto

lemma strip_digits:
  assumes "\<And>c. c \<in> set s \<Longrightarrow> is_digit c"
  shows "strip s = s"
proof -
  have "dropWhile is_space t = t" if "set t = set s" for t
    using that assms by (intro dropWhile_none) (auto dest: digit_not_space)
  then show ?thesis by (simp add: strip_def)
qed

lemma parse_int_digits:
  assumes "s \<noteq> []" and digits: "\<And>c. c \<in> set s \<Longrightarrow> is_digit c"
  shows "parse_int s = Some (int (digits_value s))"
proof -
  obtain c cs where s: "s = c # cs" using assms(1) by (cases s) auto
  then have "is_digit c" using digits by simp
  then have "c \<noteq> CHR ''-''" and "c \<noteq> CHR ''+''" by (auto simp: is_digit_def)
  moreover have "strip s = s" using digits by (rule strip_digits)
  ultimately show ?thesis
    using s digits_only_digits [OF assms] by (simp add: parse_int_def)
qed

lemma split_on_absent: "c \<notin> set s \<Longrightarrow> split_on c s = [s]"
  by (induction s) auto

lemma split_on_append: "c \<notin> set s \<Longrightarrow> split_on c (s @ c # t) = s # split_on c t"
  by (induction s) auto

lemma removeprefix_append [simp]: "removeprefix p (p @ s) = s"
  by (simp add: removeprefix_def)

lemma removeprefix_absent [simp]: "\<not> prefix p s \<Longrightarrow> removeprefix p s = s"
  by (simp add: removeprefix_def)

lemma partition_at_append [simp]:
  "c \<notin> set a \<Longrightarrow> partition_at c (a @ c # b) = (a, True, b)"
  by (induction a) auto

lemma partition_at_absent [simp]:
  "c \<notin> set a \<Longrightarrow> partition_at c a = (a, False, [])"
  by (induction a) auto


section \<open>Dictionaries and first-seen order\<close>

text \<open>
  A \<open>dict\<close> whose insertion order the code relies on is an association list: \<open>map_of\<close> reads it,
  \<open>AList.update\<close> stores in place or at the end. \<open>dict.fromkeys\<close> keeps first occurrences.
\<close>

type_synonym ('k, 'v) dict = "('k \<times> 'v) list"

definition fromkeys :: "'a list \<Rightarrow> 'a list" where
  "fromkeys xs = rev (remdups (rev xs))"

lemma set_fromkeys [simp]: "set (fromkeys xs) = set xs"
  by (simp add: fromkeys_def)

lemma distinct_fromkeys [simp]: "distinct (fromkeys xs)"
  by (simp add: fromkeys_def)

lemma fromkeys_Nil [simp]: "fromkeys [] = []"
  by (simp add: fromkeys_def)

lemma fromkeys_distinct [simp]: "distinct xs \<Longrightarrow> fromkeys xs = xs"
  by (simp add: fromkeys_def distinct_remdups_id)

lemma fromkeys_snoc: "fromkeys (xs @ [x]) = (if x \<in> set xs then fromkeys xs else fromkeys xs @ [x])"
  by (simp add: fromkeys_def)

text \<open>The first value of \<open>m\<close> among \<open>keys\<close> that is present, \<open>a or b or c\<close> over lookups.\<close>

fun first_some :: "'a option list \<Rightarrow> 'a option" where
  "first_some [] = None"
| "first_some (None # xs) = first_some xs"
| "first_some (Some x # xs) = Some x"


section \<open>JSON values\<close>

text \<open>
  A payload value as \<open>json.loads\<close> gives it. A float is carried as the text \<open>repr\<close> prints it as:
  nothing modelled here computes with one.
\<close>

datatype json =
    JNull | JBool bool | JInt int | JFloat string | JStr string
  | JList "json list" | JObj "(string \<times> json) list"

type_synonym payload = "(string, json) dict"

text \<open>Truth of a value as Python's \<open>if\<close>, \<open>or\<close> and \<open>and\<close> read it.\<close>

definition float_zero :: "string \<Rightarrow> bool" where
  "float_zero t \<longleftrightarrow> t \<in> {''0.0'', ''-0.0''}"

fun truthy :: "json \<Rightarrow> bool" where
  "truthy JNull = False"
| "truthy (JBool b) = b"
| "truthy (JInt i) = (i \<noteq> 0)"
| "truthy (JFloat t) = (\<not> float_zero t)"
| "truthy (JStr s) = (s \<noteq> [])"
| "truthy (JList xs) = (xs \<noteq> [])"
| "truthy (JObj kvs) = (kvs \<noteq> [])"

definition truthy_opt :: "json option \<Rightarrow> bool" where
  "truthy_opt v = (case v of None \<Rightarrow> False | Some j \<Rightarrow> truthy j)"

text \<open>\<open>repr\<close> of a Latin-1 text and \<open>str\<close> of a value.\<close>

definition hex_digit :: "nat \<Rightarrow> char" where
  "hex_digit n = (if n < 10 then char_of (48 + n) else char_of (87 + n))"

definition repr_char :: "char \<Rightarrow> char \<Rightarrow> string" where
  "repr_char q c =
     (let n = of_char c :: nat in
      if n = 92 then [char_of (92::nat), char_of (92::nat)]
      else if c = q then [char_of (92::nat), c]
      else if n = 10 then [char_of (92::nat), CHR ''n'']
      else if n = 13 then [char_of (92::nat), CHR ''r'']
      else if n = 9 then [char_of (92::nat), CHR ''t'']
      else if n < 32 \<or> (127 \<le> n \<and> n \<le> 160) \<or> n = 173
        then [char_of (92::nat), CHR ''x'', hex_digit (n div 16), hex_digit (n mod 16)]
      else [c])"

definition repr_text :: "string \<Rightarrow> string" where
  "repr_text s =
     (let a = char_of (39::nat); b = char_of (34::nat);
          q = (if a \<in> set s \<and> b \<notin> set s then b else a)
      in q # concat (map (repr_char q) s) @ [q])"

fun repr :: "json \<Rightarrow> string" where
  "repr JNull = ''None''"
| "repr (JBool b) = (if b then ''True'' else ''False'')"
| "repr (JInt i) = int_text i"
| "repr (JFloat t) = t"
| "repr (JStr s) = repr_text s"
| "repr (JList xs) = ''['' @ join_with '', '' (map repr xs) @ '']''"
| "repr (JObj kvs) =
     CHR 0x7B # join_with '', '' (map (\<lambda>kv. repr_text (fst kv) @ '': '' @ repr (snd kv)) kvs) @ [CHR 0x7D]"

definition py_str :: "json \<Rightarrow> string" where
  "py_str v = (case v of JStr s \<Rightarrow> s | _ \<Rightarrow> repr v)"

text \<open>\<open>str(data.get(key, ""))\<close>, the lenient read of a text field.\<close>

definition text_field :: "payload \<Rightarrow> string \<Rightarrow> string" where
  "text_field d k = (case map_of d k of None \<Rightarrow> [] | Some v \<Rightarrow> py_str v)"

text \<open>Two dictionaries are equal when they hold the same keys with the same values.\<close>

definition dict_eq :: "('k, 'v) dict \<Rightarrow> ('k, 'v) dict \<Rightarrow> bool" where
  "dict_eq d e \<longleftrightarrow> list_all (\<lambda>k. map_of d k = map_of e k) (map fst d @ map fst e)"

lemma py_str_JStr [simp]: "py_str (JStr s) = s"
  by (simp add: py_str_def)

lemma dict_eq_iff: "dict_eq d e \<longleftrightarrow> map_of d = map_of e"
proof
  assume eq: "dict_eq d e"
  show "map_of d = map_of e"
  proof
    fix k
    show "map_of d k = map_of e k"
    proof (cases "k \<in> fst ` set d \<union> fst ` set e")
      case True
      with eq show ?thesis by (auto simp: dict_eq_def list_all_iff)
    next
      case False
      then have "map_of d k = None" and "map_of e k = None"
        by (auto simp: map_of_eq_None_iff)
      then show ?thesis by simp
    qed
  qed
next
  assume "map_of d = map_of e"
  then show "dict_eq d e" by (simp add: dict_eq_def list_all_iff)
qed

lemma dict_eq_refl [simp]: "dict_eq d d"
  by (simp add: dict_eq_iff)


section \<open>Exceptions\<close>

text \<open>
  The exceptions the modelled code raises or catches, with their messages. \<open>Unverifiable\<close>,
  \<open>ExposedFile\<close> and \<open>CorruptFile\<close> are \<open>MissionError\<close>s; \<open>FileNotFound\<close> is an \<open>OSError\<close>; a JSON or a validation fault is a
  \<open>ValueError\<close>; a \<open>KeyError\<close> is a \<open>LookupError\<close>.
\<close>

datatype fault =
    MissionError string | Unverifiable string | OSError string | FileNotFound string
  | ValueError string | LookupError string | HostUnreachable string
  | ProcessExecutionError string | SQLiteError string | SystemExit string | LockTimeout
  | ExposedFile string | CorruptFile string

fun fault_text :: "fault \<Rightarrow> string" where
  "fault_text (MissionError m) = m"
| "fault_text (Unverifiable m) = m"
| "fault_text (OSError m) = m"
| "fault_text (FileNotFound m) = m"
| "fault_text (ValueError m) = m"
| "fault_text (LookupError m) = m"
| "fault_text (HostUnreachable m) = m"
| "fault_text (ProcessExecutionError m) = m"
| "fault_text (SQLiteError m) = m"
| "fault_text (SystemExit m) = m"
| "fault_text LockTimeout = []"
| "fault_text (ExposedFile m) = m"
| "fault_text (CorruptFile m) = m"

fun is_mission :: "fault \<Rightarrow> bool" where
  "is_mission (MissionError _) = True"
| "is_mission (Unverifiable _) = True"
| "is_mission (ExposedFile _) = True"
| "is_mission (CorruptFile _) = True"
| "is_mission _ = False"

fun is_os :: "fault \<Rightarrow> bool" where
  "is_os (OSError _) = True"
| "is_os (FileNotFound _) = True"
| "is_os _ = False"

fun is_value :: "fault \<Rightarrow> bool" where
  "is_value (ValueError _) = True"
| "is_value _ = False"

fun is_lookup :: "fault \<Rightarrow> bool" where
  "is_lookup (LookupError _) = True"
| "is_lookup _ = False"

fun is_unreachable :: "fault \<Rightarrow> bool" where
  "is_unreachable (HostUnreachable _) = True"
| "is_unreachable _ = False"

fun is_unverifiable :: "fault \<Rightarrow> bool" where
  "is_unverifiable (Unverifiable _) = True"
| "is_unverifiable _ = False"

fun is_process :: "fault \<Rightarrow> bool" where
  "is_process (ProcessExecutionError _) = True"
| "is_process _ = False"

fun is_sqlite :: "fault \<Rightarrow> bool" where
  "is_sqlite (SQLiteError _) = True"
| "is_sqlite _ = False"

fun is_exit :: "fault \<Rightarrow> bool" where
  "is_exit (SystemExit _) = True"
| "is_exit _ = False"

text \<open>The two tuples of exceptions most handlers name.\<close>

definition settling_fault :: "fault \<Rightarrow> bool" where
  "settling_fault e \<longleftrightarrow> is_mission e \<or> is_os e \<or> is_value e"

definition refusal_fault :: "fault \<Rightarrow> bool" where
  "refusal_fault e \<longleftrightarrow> is_mission e \<or> is_unreachable e \<or> is_os e \<or> is_lookup e \<or> is_exit e"


section \<open>Computations over a state\<close>

text \<open>
  A method that reads and writes the state and may raise: the state it left behind is kept
  whether it returned or raised. \<open>trying caught m h\<close> is \<open>try: m except caught: h\<close>, \<open>each f xs\<close>
  a list comprehension whose element calls \<open>f\<close>, in order.
\<close>

type_synonym ('s, 'a) comp = "'s \<Rightarrow> (fault + 'a) \<times> 's"

definition ret :: "'a \<Rightarrow> ('s, 'a) comp" where
  "ret x = (\<lambda>s. (Inr x, s))"

definition raising :: "fault \<Rightarrow> ('s, 'a) comp" where
  "raising e = (\<lambda>s. (Inl e, s))"

definition andThen :: "('s, 'a) comp \<Rightarrow> ('a \<Rightarrow> ('s, 'b) comp) \<Rightarrow> ('s, 'b) comp" where
  "andThen m f = (\<lambda>s. case m s of (Inl e, t) \<Rightarrow> (Inl e, t) | (Inr x, t) \<Rightarrow> f x t)"

definition reading :: "('s \<Rightarrow> 'a) \<Rightarrow> ('s, 'a) comp" where
  "reading f = (\<lambda>s. (Inr (f s), s))"

definition changing :: "('s \<Rightarrow> 's) \<Rightarrow> ('s, unit) comp" where
  "changing f = (\<lambda>s. (Inr (), f s))"

definition returning :: "fault + 'a \<Rightarrow> ('s, 'a) comp" where
  "returning r = (\<lambda>s. (r, s))"

definition trying ::
  "(fault \<Rightarrow> bool) \<Rightarrow> ('s, 'a) comp \<Rightarrow> (fault \<Rightarrow> ('s, 'a) comp) \<Rightarrow> ('s, 'a) comp" where
  "trying caught m h =
     (\<lambda>s. case m s of (Inl e, t) \<Rightarrow> if caught e then h e t else (Inl e, t) | (Inr x, t) \<Rightarrow> (Inr x, t))"

text \<open>\<open>try: m except caught: h else: k\<close>: \<open>k\<close> runs outside the handler.\<close>

definition trying_else ::
  "(fault \<Rightarrow> bool) \<Rightarrow> ('s, 'a) comp \<Rightarrow> (fault \<Rightarrow> ('s, 'b) comp) \<Rightarrow> ('a \<Rightarrow> ('s, 'b) comp) \<Rightarrow> ('s, 'b) comp" where
  "trying_else caught m h k =
     (\<lambda>s. case m s of (Inl e, t) \<Rightarrow> if caught e then h e t else (Inl e, t) | (Inr x, t) \<Rightarrow> k x t)"

text \<open>\<open>try: m finally: c\<close> for a clean-up that does not raise.\<close>

definition finally_do :: "('s, 'a) comp \<Rightarrow> ('s \<Rightarrow> 's) \<Rightarrow> ('s, 'a) comp" where
  "finally_do m c = (\<lambda>s. case m s of (r, t) \<Rightarrow> (r, c t))"

fun each :: "('a \<Rightarrow> ('s, 'b) comp) \<Rightarrow> 'a list \<Rightarrow> ('s, 'b list) comp" where
  "each f [] = ret []"
| "each f (x # xs) = andThen (f x) (\<lambda>y. andThen (each f xs) (\<lambda>ys. ret (y # ys)))"

lemmas comp_defs = ret_def raising_def andThen_def reading_def changing_def returning_def
  trying_def trying_else_def finally_do_def

lemma ret_apply [simp, comp_simps]: "ret x s = (Inr x, s)"
  by (simp add: ret_def)

lemma raising_apply [simp, comp_simps]: "raising e s = (Inl e, s)"
  by (simp add: raising_def)

lemma reading_apply [simp, comp_simps]: "reading f s = (Inr (f s), s)"
  by (simp add: reading_def)

lemma changing_apply [simp, comp_simps]: "changing f s = (Inr (), f s)"
  by (simp add: changing_def)

lemma returning_apply [simp, comp_simps]: "returning r s = (r, s)"
  by (simp add: returning_def)

lemma andThen_apply [comp_simps]:
  "andThen m f s = (case m s of (Inl e, t) \<Rightarrow> (Inl e, t) | (Inr x, t) \<Rightarrow> f x t)"
  by (simp add: andThen_def)

lemma andThen_ret [simp]: "andThen (ret x) f = f x"
  by (rule ext) (simp add: andThen_apply)

lemma andThen_raising [simp]: "andThen (raising e) f = raising e"
  by (rule ext) (simp add: andThen_apply)

lemma andThen_assoc: "andThen (andThen m f) g = andThen m (\<lambda>x. andThen (f x) g)"
  by (rule ext) (simp add: andThen_apply split: prod.split sum.split)

lemma andThen_InrE:
  assumes "andThen m f s = (Inr y, u)"
  obtains x t where "m s = (Inr x, t)" and "f x t = (Inr y, u)"
  using assms by (auto simp: andThen_apply split: prod.splits sum.splits)

lemma trying_apply [comp_simps]:
  "trying caught m h s =
     (case m s of (Inl e, t) \<Rightarrow> if caught e then h e t else (Inl e, t) | (Inr x, t) \<Rightarrow> (Inr x, t))"
  by (simp add: trying_def)

lemma trying_else_apply [comp_simps]:
  "trying_else caught m h k s =
     (case m s of (Inl e, t) \<Rightarrow> if caught e then h e t else (Inl e, t) | (Inr x, t) \<Rightarrow> k x t)"
  by (simp add: trying_else_def)

lemma finally_do_apply [comp_simps]: "finally_do m c s = (fst (m s), c (snd (m s)))"
  by (simp add: finally_do_def split: prod.split)


subsection \<open>Computations that follow a preorder\<close>

text \<open>
  \<open>along R m\<close>: whatever \<open>m\<close> does, and whether it returns or raises, the state it leaves is
  \<open>R\<close>-after the state it started from. For a reflexive and transitive \<open>R\<close> this composes, so a
  whole pass follows \<open>R\<close> as soon as its primitive steps do.
\<close>

definition along :: "('s \<Rightarrow> 's \<Rightarrow> bool) \<Rightarrow> ('s, 'a) comp \<Rightarrow> bool" where
  "along R m \<longleftrightarrow> (\<forall>s. R s (snd (m s)))"

lemma alongI: "(\<And>s. R s (snd (m s))) \<Longrightarrow> along R m"
  by (simp add: along_def)

lemma alongD: "along R m \<Longrightarrow> m s = (r, t) \<Longrightarrow> R s t"
  unfolding along_def by (metis snd_conv)

locale step_preorder =
  fixes R :: "'s \<Rightarrow> 's \<Rightarrow> bool"
  assumes R_refl: "R s s"
    and R_trans: "R s t \<Longrightarrow> R t u \<Longrightarrow> R s u"
begin

lemma along_pure [steps]:
  "along R (ret x)" "along R (raising e)" "along R (reading f)" "along R (returning r)"
  by (simp_all add: along_def R_refl)

lemma along_changing: "(\<And>s. R s (f s)) \<Longrightarrow> along R (changing f)"
  by (simp add: along_def)

lemma along_andThen [steps]:
  assumes "along R m" and "\<And>x. along R (f x)"
  shows "along R (andThen m f)"
proof (rule alongI)
  fix s
  obtain r t where m: "m s = (r, t)" by fastforce
  from assms(1) m have st: "R s t" by (rule alongD)
  show "R s (snd (andThen m f s))"
  proof (cases r)
    case (Inl e)
    with m st show ?thesis by (simp add: andThen_apply)
  next
    case (Inr x)
    from assms(2) have "R t (snd (f x t))" by (simp add: along_def)
    with Inr m R_trans [OF st] show ?thesis by (simp add: andThen_apply)
  qed
qed

lemma along_trying [steps]:
  assumes "along R m" and "\<And>e. along R (h e)"
  shows "along R (trying caught m h)"
proof (rule alongI)
  fix s
  obtain r t where m: "m s = (r, t)" by fastforce
  from assms(1) m have st: "R s t" by (rule alongD)
  show "R s (snd (trying caught m h s))"
  proof (cases r)
    case (Inl e)
    from assms(2) have "R t (snd (h e t))" by (simp add: along_def)
    with Inl m R_trans [OF st] st show ?thesis by (simp add: trying_apply)
  next
    case (Inr x)
    with m st show ?thesis by (simp add: trying_apply)
  qed
qed

lemma along_trying_else [steps]:
  assumes "along R m" and "\<And>e. along R (h e)" and "\<And>x. along R (k x)"
  shows "along R (trying_else caught m h k)"
proof (rule alongI)
  fix s
  obtain r t where m: "m s = (r, t)" by fastforce
  from assms(1) m have st: "R s t" by (rule alongD)
  show "R s (snd (trying_else caught m h k s))"
  proof (cases r)
    case (Inl e)
    from assms(2) have "R t (snd (h e t))" by (simp add: along_def)
    with Inl m R_trans [OF st] st show ?thesis by (simp add: trying_else_apply)
  next
    case (Inr x)
    from assms(3) have "R t (snd (k x t))" by (simp add: along_def)
    with Inr m R_trans [OF st] show ?thesis by (simp add: trying_else_apply)
  qed
qed

lemma along_finally_do [steps]:
  assumes "along R m" and "\<And>s. R s (c s)"
  shows "along R (finally_do m c)"
proof (rule alongI)
  fix s
  from assms(1) have "R s (snd (m s))" by (simp add: along_def)
  with assms(2) R_trans show "R s (snd (finally_do m c s))" by (auto simp: finally_do_apply)
qed

lemma along_each [steps]: "(\<And>x. along R (f x)) \<Longrightarrow> along R (each f xs)"
  by (induction xs) (auto intro!: along_pure along_andThen)

lemma along_if [steps]: "along R m \<Longrightarrow> along R n \<Longrightarrow> along R (if b then m else n)"
  by simp

lemma along_option [steps]:
  "along R m \<Longrightarrow> (\<And>x. along R (f x)) \<Longrightarrow> along R (case v of None \<Rightarrow> m | Some x \<Rightarrow> f x)"
  by (cases v) simp_all

lemma along_list [steps]:
  "along R m \<Longrightarrow> (\<And>x xs. along R (f x xs)) \<Longrightarrow> along R (case v of [] \<Rightarrow> m | x # xs \<Rightarrow> f x xs)"
  by (cases v) simp_all

lemma along_sum [steps]:
  "(\<And>x. along R (f x)) \<Longrightarrow> (\<And>x. along R (g x)) \<Longrightarrow> along R (case v of Inl x \<Rightarrow> f x | Inr x \<Rightarrow> g x)"
  by (cases v) simp_all

lemma along_prod [steps]: "(\<And>x y. along R (f x y)) \<Longrightarrow> along R (case p of (x, y) \<Rightarrow> f x y)"
  by (cases p) simp

end


section \<open>Keeping the newest item per key\<close>

text \<open>
  One step of the loop \<open>held = newest.get(k); if held is None or better(e, held): newest[k] = e\<close>.
\<close>

definition keep_better :: "('e \<Rightarrow> 'e \<Rightarrow> bool) \<Rightarrow> 'k \<times> 'e \<Rightarrow> ('k, 'e) dict \<Rightarrow> ('k, 'e) dict" where
  "keep_better better ke d =
     (case map_of d (fst ke) of
        None \<Rightarrow> AList.update (fst ke) (snd ke) d
      | Some held \<Rightarrow> if better (snd ke) held then AList.update (fst ke) (snd ke) d else d)"

text \<open>
  The interface of such a loop: the test it makes agrees with a linear order of stamps up to ties.
  What the loop is left with is then, for every key, an item of the largest stamp.
\<close>

locale newest_per_key =
  fixes better :: "'e \<Rightarrow> 'e \<Rightarrow> bool" and rank :: "'e \<Rightarrow> 's::linorder"
  assumes better_ge: "better e held \<Longrightarrow> rank held \<le> rank e"
    and not_better_le: "\<not> better e held \<Longrightarrow> rank e \<le> rank held"
begin

lemma map_of_keep_better:
  "map_of (keep_better better ke d) k =
     (if k = fst ke
      then (case map_of d k of None \<Rightarrow> Some (snd ke)
            | Some held \<Rightarrow> if better (snd ke) held then Some (snd ke) else Some held)
      else map_of d k)"
  by (simp add: keep_better_def update_conv' split: option.split)

lemma keep_better_dom:
  "map_of (fold (keep_better better) kes d) k \<noteq> None \<longleftrightarrow>
     map_of d k \<noteq> None \<or> k \<in> fst ` set kes"
proof (induction kes arbitrary: d)
  case Nil
  then show ?case by simp
next
  case (Cons ke kes)
  have "map_of (keep_better better ke d) k \<noteq> None \<longleftrightarrow> map_of d k \<noteq> None \<or> k = fst ke"
    by (auto simp: map_of_keep_better split: option.split)
  with Cons show ?case by auto
qed

lemma keep_better_newest:
  "map_of (fold (keep_better better) kes d) k = Some e \<Longrightarrow>
     ((k, e) \<in> set kes \<or> map_of d k = Some e)
   \<and> (\<forall>x. (k, x) \<in> set kes \<or> map_of d k = Some x \<longrightarrow> rank x \<le> rank e)"
proof (induction kes arbitrary: d)
  case Nil
  then show ?case by auto
next
  case (Cons ke kes)
  let ?d = "keep_better better ke d"
  from Cons.prems have "map_of (fold (keep_better better) kes ?d) k = Some e" by simp
  note IH = Cons.IH [OF this]
  have held: "\<exists>y. map_of ?d k = Some y \<and> rank x \<le> rank y" if "map_of d k = Some x" for x
    using that better_ge by (auto simp: map_of_keep_better split: option.split)
  have new: "\<exists>y. map_of ?d k = Some y \<and> rank x \<le> rank y" if "ke = (k, x)" for x
    using that not_better_le by (auto simp: map_of_keep_better split: option.split)
  have src: "ke = (k, y) \<or> map_of d k = Some y" if "map_of ?d k = Some y" for y
    using that by (auto simp: map_of_keep_better split: option.splits if_splits)
  show ?case
  proof (intro conjI allI impI)
    show "(k, e) \<in> set (ke # kes) \<or> map_of d k = Some e"
      using IH src by auto
  next
    fix x
    assume "(k, x) \<in> set (ke # kes) \<or> map_of d k = Some x"
    then consider "(k, x) \<in> set kes" | "ke = (k, x)" | "map_of d k = Some x" by auto
    then show "rank x \<le> rank e"
      using IH held new by cases (auto intro: order_trans)
  qed
qed

lemma keep_better_distinct:
  "distinct (map fst d) \<Longrightarrow> distinct (map fst (fold (keep_better better) kes d))"
proof (induction kes arbitrary: d)
  case Nil
  then show ?case by simp
next
  case (Cons ke kes)
  then have "distinct (map fst (keep_better better ke d))"
    by (auto simp: keep_better_def distinct_update split: option.split)
  then show ?case by (simp add: Cons.IH)
qed

end

end
