(* ===== verification/Vocabulary.thy ===== *)
theory Vocabulary
  imports Prelude Complex_Main
begin

text \<open>
  What a dispatched job is described with (\<open>dispatch/jobs/vocabulary.py\<close>): the one-word verdict
  and its lifecycle, the resource request, a dispatch as it was asked for, and the post-mortem
  state a backend answers; beside it the walltime spelling of \<open>runtime/job.py\<close> and the queue
  envelope a submission is checked against (\<open>manifest/schema/compute/queue.py\<close>,
  \<open>context/admission.py\<close>). The lemmas show that the lifecycle has no dead end, that a settled
  word moves nowhere, and that a walltime reads back as it was written.
\<close>

section \<open>The verdict word\<close>

datatype word =
    QUEUED | RUNNING | PREPARED | SUBMITTING | FINISHED | OK | FAILED | VANISHED | UNKNOWN
  | TIMEOUT | CANCELLED | HELD | SKIPPED

definition all_words :: "word list" where
  "all_words = [QUEUED, RUNNING, PREPARED, SUBMITTING, FINISHED, OK, FAILED, VANISHED, UNKNOWN,
     TIMEOUT, CANCELLED, HELD, SKIPPED]"

text \<open>\<open>StrEnum\<close> with \<open>auto()\<close>: a word is its name in lower case, and equals that text.\<close>

fun word_text :: "word \<Rightarrow> string" where
  "word_text QUEUED = ''queued''"
| "word_text RUNNING = ''running''"
| "word_text PREPARED = ''prepared''"
| "word_text SUBMITTING = ''submitting''"
| "word_text FINISHED = ''finished''"
| "word_text OK = ''ok''"
| "word_text FAILED = ''failed''"
| "word_text VANISHED = ''vanished''"
| "word_text UNKNOWN = ''unknown''"
| "word_text TIMEOUT = ''timeout''"
| "word_text CANCELLED = ''cancelled''"
| "word_text HELD = ''held''"
| "word_text SKIPPED = ''skipped''"

text \<open>\<open>Word(text)\<close>: \<open>None\<close> where the call raises \<open>ValueError\<close>.\<close>

definition word_of :: "string \<Rightarrow> word option" where
  "word_of s = find (\<lambda>w. word_text w = s) all_words"

text \<open>\<open>_MOVES\<close>: the moves a recorded verdict may make. \<open>FINISHED\<close> is no recorded verdict.\<close>

definition word_moves :: "(word, word list) dict" where
  "word_moves =
    [(PREPARED, [SUBMITTING, FAILED, CANCELLED]),
     (SUBMITTING, [PREPARED, QUEUED, RUNNING]),
     (HELD, [QUEUED, RUNNING, FAILED, VANISHED, CANCELLED]),
     (QUEUED, [RUNNING, OK, FAILED, TIMEOUT, VANISHED, UNKNOWN, CANCELLED]),
     (RUNNING, [QUEUED, OK, FAILED, VANISHED, UNKNOWN, TIMEOUT, CANCELLED]),
     (OK, []), (FAILED, []), (VANISHED, []), (UNKNOWN, []), (TIMEOUT, []), (CANCELLED, []),
     (SKIPPED, [])]"

definition settled_words :: "word list" where
  "settled_words = map fst (filter (\<lambda>(w, moves). moves = []) word_moves)"

definition transitions :: "(word, word list) dict" where
  "transitions = map (\<lambda>(w, moves). (w, moves)) word_moves"

definition settled :: "word \<Rightarrow> bool" where
  "settled w \<longleftrightarrow> w \<in> set settled_words"

text \<open>\<open>text in Word.settled()\<close> for a verdict read back as text, and for one that may be absent.\<close>

definition settled_text :: "string \<Rightarrow> bool" where
  "settled_text s \<longleftrightarrow> s \<in> set (map word_text settled_words)"

definition settled_opt :: "string option \<Rightarrow> bool" where
  "settled_opt v = (case v of None \<Rightarrow> False | Some s \<Rightarrow> settled_text s)"

definition moves_to :: "word \<Rightarrow> word \<Rightarrow> bool" where
  "moves_to w v \<longleftrightarrow> (\<exists>vs. map_of word_moves w = Some vs \<and> v \<in> set vs)"

lemma word_text_inject [simp]: "word_text w = word_text v \<longleftrightarrow> w = v"
  by (cases w; cases v) simp_all

lemma all_words_complete: "w \<in> set all_words"
  by (cases w) (simp_all add: all_words_def)

lemma word_of_text [simp]: "word_of (word_text w) = Some w"
  by (cases w) (simp_all add: word_of_def all_words_def)

lemma word_of_Some: "word_of s = Some w \<longleftrightarrow> s = word_text w"
proof
  assume "word_of s = Some w"
  then show "s = word_text w" by (auto simp: word_of_def find_Some_iff)
qed simp

lemma settled_words_eq: "settled_words = [OK, FAILED, VANISHED, UNKNOWN, TIMEOUT, CANCELLED, SKIPPED]"
  by (simp add: settled_words_def word_moves_def)

lemma settled_simps [simp]:
  "settled OK" "settled FAILED" "settled VANISHED" "settled UNKNOWN" "settled TIMEOUT"
  "settled CANCELLED" "settled SKIPPED" "\<not> settled QUEUED" "\<not> settled RUNNING"
  "\<not> settled PREPARED" "\<not> settled SUBMITTING" "\<not> settled HELD" "\<not> settled FINISHED"
  by (simp_all add: settled_def settled_words_eq)

lemma settled_text_word [simp]: "settled_text (word_text w) \<longleftrightarrow> settled w"
  by (auto simp: settled_text_def settled_def)

lemma settled_text_iff: "settled_text s \<longleftrightarrow> (\<exists>w. s = word_text w \<and> settled w)"
  by (auto simp: settled_text_def settled_def)

lemma settled_opt_simps [simp]:
  "\<not> settled_opt None" "settled_opt (Some s) \<longleftrightarrow> settled_text s"
  by (simp_all add: settled_opt_def)

lemma settled_opt_iff: "settled_opt v \<longleftrightarrow> (\<exists>w. v = Some (word_text w) \<and> settled w)"
  by (cases v) (auto simp: settled_text_iff)

lemma settled_moves_nowhere: "settled w \<Longrightarrow> \<not> moves_to w v"
  by (cases w) (simp_all add: moves_to_def word_moves_def)

lemma moves_to_simps:
  "moves_to PREPARED v \<longleftrightarrow> v \<in> {SUBMITTING, FAILED, CANCELLED}"
  "moves_to SUBMITTING v \<longleftrightarrow> v \<in> {PREPARED, QUEUED, RUNNING}"
  "moves_to HELD v \<longleftrightarrow> v \<in> {QUEUED, RUNNING, FAILED, VANISHED, CANCELLED}"
  "moves_to QUEUED v \<longleftrightarrow> v \<in> {RUNNING, OK, FAILED, TIMEOUT, VANISHED, UNKNOWN, CANCELLED}"
  "moves_to RUNNING v \<longleftrightarrow> v \<in> {QUEUED, OK, FAILED, VANISHED, UNKNOWN, TIMEOUT, CANCELLED}"
  "\<not> moves_to FINISHED v"
  by (auto simp: moves_to_def word_moves_def)


subsection \<open>A lifecycle as an interface\<close>

text \<open>
  What a client of a lifecycle relies on: a settled state allows no move. Whatever sequence of
  allowed moves a record makes, a settled state is then where the sequence ends.
\<close>

locale lifecycle =
  fixes allowed :: "'w \<Rightarrow> 'w \<Rightarrow> bool" and final :: "'w \<Rightarrow> bool"
  assumes final_stays: "final w \<Longrightarrow> \<not> allowed w v"
begin

lemma final_closed: "allowed\<^sup>*\<^sup>* w v \<Longrightarrow> final w \<Longrightarrow> v = w"
  by (erule converse_rtranclpE) (auto dest: final_stays)

lemma final_unique: "allowed\<^sup>*\<^sup>* w v \<Longrightarrow> final v \<Longrightarrow> allowed\<^sup>*\<^sup>* v u \<Longrightarrow> u = v"
  by (blast intro: final_closed)

end

interpretation verdict: lifecycle moves_to settled
  by unfold_locales (rule settled_moves_nowhere)


section \<open>Walltimes\<close>

text \<open>\<open>runtime/job.py\<close>: \<open>walltime_seconds\<close> raises on anything but three integers.\<close>

definition walltime_seconds :: "string \<Rightarrow> fault + int" where
  "walltime_seconds walltime =
     (case map parse_int (split_on (CHR '':'') walltime) of
        [Some hours, Some minutes, Some seconds] \<Rightarrow> Inr ((hours * 60 + minutes) * 60 + seconds)
      | _ \<Rightarrow> Inl (ValueError ''walltime''))"

definition two_digits :: "int \<Rightarrow> string" where
  "two_digits i = (if 0 \<le> i \<and> i < 10 then CHR ''0'' # int_text i else int_text i)"

text \<open>\<open>walltime(seconds)\<close>, the argument already truncated by \<open>int\<close>.\<close>

definition walltime :: "int \<Rightarrow> string" where
  "walltime seconds =
     (let minutes = seconds div 60; rest = seconds mod 60;
          hours = minutes div 60; minutes = minutes mod 60
      in two_digits hours @ '':'' @ two_digits minutes @ '':'' @ two_digits rest)"

lemma two_digits_text:
  assumes "0 \<le> i"
  shows "two_digits i \<noteq> []" and "c \<in> set (two_digits i) \<Longrightarrow> is_digit c"
    and "digits_value (two_digits i) = nat i"
proof -
  have zero: "is_digit CHR ''0''" by (simp add: is_digit_def)
  have lead: "digits_value (CHR ''0'' # s) = digits_value s" for s
    by (simp add: digits_value_def)
  show "two_digits i \<noteq> []" using assms by (simp add: two_digits_def int_text_def)
  show "is_digit c" if "c \<in> set (two_digits i)"
    using that assms zero by (auto simp: two_digits_def int_text_def nat_text_digits split: if_splits)
  show "digits_value (two_digits i) = nat i"
    using assms by (simp add: two_digits_def int_text_def lead)
qed

lemma parse_two_digits: "0 \<le> i \<Longrightarrow> parse_int (two_digits i) = Some i"
  using parse_int_digits [OF two_digits_text(1,2)] two_digits_text(3) by simp

lemma colon_not_two_digits: "0 \<le> i \<Longrightarrow> CHR '':'' \<notin> set (two_digits i)"
  using two_digits_text(2) [of i "CHR '':''"] by (auto simp: is_digit_def)

lemma split_walltime:
  assumes "0 \<le> a" "0 \<le> b" "0 \<le> c"
  shows "split_on (CHR '':'') (two_digits a @ '':'' @ two_digits b @ '':'' @ two_digits c) =
    [two_digits a, two_digits b, two_digits c]"
  using assms by (simp add: split_on_append split_on_absent colon_not_two_digits)


section \<open>What a job asks for\<close>

text \<open>
  Money is only compared here, never added, so a finite float is the rational it stands for.
  \<open>Resources\<close> and \<open>Request\<close> keep the source's fields in its order.
\<close>

record resources =
  res_gpus :: int
  res_gpu_name :: string
  res_nodes :: int
  res_walltime :: "string option"
  res_queue :: "string option"
  res_account :: string
  res_container :: string
  res_mem_gb :: "int option"
  res_max_usd :: rat
  res_attempt :: int
  res_spot :: bool
  res_arch :: string
  res_datacenter :: bool

definition walltime_s :: "resources \<Rightarrow> fault + int" where
  "walltime_s r =
     (case res_walltime r of
        None \<Rightarrow> Inr 0
      | Some t \<Rightarrow> if t = [] then Inr 0 else walltime_seconds t)"

record request =
  req_target :: string
  req_command :: string
  req_name :: string
  req_node :: string
  req_fetch :: "string option"
  req_needs :: "string list"
  req_env :: string
  req_container :: string
  req_queue :: string
  req_walltime :: string
  req_mem_gb :: int
  req_gpus :: int
  req_gpu_name :: string
  req_max_usd :: rat
  req_nodes :: int
  req_attempt :: int
  req_spot :: bool
  req_arch :: string
  req_datacenter :: bool

text \<open>\<open>x or None\<close> for a text and for a number.\<close>

definition text_or_none :: "string \<Rightarrow> string option" where
  "text_or_none s = (if s = [] then None else Some s)"

definition int_or_none :: "int \<Rightarrow> int option" where
  "int_or_none i = (if i = 0 then None else Some i)"

definition request_resources :: "request \<Rightarrow> resources" where
  "request_resources r =
     \<lparr>res_gpus = req_gpus r, res_gpu_name = req_gpu_name r, res_nodes = req_nodes r,
      res_walltime = text_or_none (req_walltime r), res_queue = text_or_none (req_queue r),
      res_account = [], res_container = [], res_mem_gb = int_or_none (req_mem_gb r),
      res_max_usd = req_max_usd r, res_attempt = req_attempt r, res_spot = req_spot r,
      res_arch = req_arch r, res_datacenter = req_datacenter r\<rparr>"

text \<open>The post-mortem state a backend answers about one handle.\<close>

record job_state =
  js_handle :: string
  js_label :: "string option"
  js_state :: "string option"
  js_exit_code :: "int option"
  js_verdict :: string
  js_stage :: string
  js_since :: string
  js_estimated_start :: string
  js_note :: string

definition phase :: "job_state \<Rightarrow> string" where
  "phase js =
     (if js_stage js \<noteq> [] then js_stage js
      else if settled_text (js_verdict js) then word_text FINISHED
      else (case js_state js of None \<Rightarrow> [] | Some t \<Rightarrow> t))"


section \<open>The queue envelope\<close>

record queue_policy =
  qp_max_walltime :: string
  qp_mem_ceiling_gb :: int
  qp_gpus_per_node :: int
  qp_max_jobs :: int
  qp_submittable :: bool
  qp_scheduler :: string
  qp_notes :: string

definition open_policy :: queue_policy where
  "open_policy = \<lparr>qp_max_walltime = [], qp_mem_ceiling_gb = 0, qp_gpus_per_node = 0,
     qp_max_jobs = 0, qp_submittable = True, qp_scheduler = [], qp_notes = []\<rparr>"

definition admits_walltime :: "queue_policy \<Rightarrow> string \<Rightarrow> fault + bool" where
  "admits_walltime p t =
     (if qp_max_walltime p = [] then Inr True
      else (case walltime_seconds t of
              Inl e \<Rightarrow> Inl e
            | Inr asked \<Rightarrow>
                (case walltime_seconds (qp_max_walltime p) of
                   Inl e \<Rightarrow> Inl e
                 | Inr most \<Rightarrow> Inr (asked \<le> most))))"

text \<open>\<open>HostProfile.policy\<close>: an undeclared queue admits everything.\<close>

definition host_policy :: "(string, queue_policy) dict \<Rightarrow> string \<Rightarrow> queue_policy" where
  "host_policy queues queue = (case map_of queues queue of None \<Rightarrow> open_policy | Some p \<Rightarrow> p)"

text \<open>\<open>admit\<close>: refuse a submission the queue's declared policy would reject.\<close>

definition admit :: "(string, queue_policy) dict \<Rightarrow> string \<Rightarrow> string \<Rightarrow> int \<Rightarrow> fault + unit" where
  "admit queues queue asked mem_gb =
     (let p = host_policy queues queue in
      if \<not> qp_submittable p
        then Inl (MissionError (''queue '' @ repr_text queue @
               '' is not submittable on this host: '' @ qp_notes p))
      else (case admits_walltime p asked of
              Inl e \<Rightarrow> Inl e
            | Inr fits \<Rightarrow>
                if \<not> fits
                  then Inl (MissionError (''walltime '' @ asked @ '' exceeds the '' @
                         repr_text queue @ '' ceiling '' @ qp_max_walltime p @
                         (if qp_notes p \<noteq> [] then '' ('' @ qp_notes p @ '')'' else [])))
                else if qp_mem_ceiling_gb p \<noteq> 0 \<and> mem_gb > qp_mem_ceiling_gb p
                  then Inl (MissionError (''mem '' @ int_text mem_gb @ ''GB exceeds the '' @
                         repr_text queue @ '' ceiling '' @ int_text (qp_mem_ceiling_gb p) @ ''GB''))
                else Inr ()))"


section \<open>Properties\<close>

text \<open>
  The lifecycle of a verdict has no dead end: from every word a run may be recorded at
  (every word but \<open>FINISHED\<close>, which no run is recorded at) a settled word is reachable, and
  once a settled word is reached, every further sequence of moves stays on it.
\<close>

theorem verdict_lifecycle_ends:
  assumes "w \<noteq> FINISHED"
  shows "(\<exists>v. moves_to\<^sup>*\<^sup>* w v \<and> settled v) \<and>
         (\<forall>v u. moves_to\<^sup>*\<^sup>* w v \<and> settled v \<and> moves_to\<^sup>*\<^sup>* v u \<longrightarrow> u = v)"
proof
  have one: "moves_to\<^sup>*\<^sup>* a b" if "moves_to a b" for a b using that by blast
  have prep: "moves_to\<^sup>*\<^sup>* SUBMITTING CANCELLED"
    by (rule converse_rtranclp_into_rtranclp [of _ _ PREPARED]) (auto simp: moves_to_simps intro: one)
  show "\<exists>v. moves_to\<^sup>*\<^sup>* w v \<and> settled v"
  proof (cases "settled w")
    case True
    then show ?thesis by blast
  next
    case False
    then have "moves_to\<^sup>*\<^sup>* w CANCELLED"
      using assms prep by (cases w) (auto simp: moves_to_simps intro: one)
    then show ?thesis by (intro exI [of _ CANCELLED]) simp
  qed
qed (blast intro: verdict.final_unique)

theorem verdict_lifecycle_ends_witness:
  "HELD \<noteq> FINISHED \<and> (\<exists>v. moves_to\<^sup>*\<^sup>* HELD v \<and> settled v)"
  using verdict_lifecycle_ends [of HELD] by simp

text \<open>
  A walltime reads back as it was written: for every whole number of seconds from zero up,
  past 24 hours included, \<open>walltime_seconds\<close> of what \<open>walltime\<close> spells is that number.
\<close>

theorem walltime_round_trip:
  assumes "0 \<le> seconds"
  shows "walltime_seconds (walltime seconds) = Inr seconds"
proof -
  let ?m = "seconds div 60"
  have pos: "0 \<le> ?m div 60" "0 \<le> ?m mod 60" "0 \<le> seconds mod 60" using assms by simp_all
  have "(?m div 60 * 60 + ?m mod 60) * 60 + seconds mod 60 = seconds" by simp
  then show ?thesis
    unfolding walltime_seconds_def walltime_def Let_def split_walltime [OF pos]
    by (simp add: parse_two_digits pos)
qed

theorem walltime_round_trip_witness:
  "(0::int) \<le> 93784 \<and> walltime_seconds (walltime 93784) = Inr 93784"
  using walltime_round_trip [of 93784] by simp

text \<open>
  What \<open>admit\<close> lets through fits the envelope the host declares for the queue: the queue is
  submittable, the walltime is at most the declared ceiling and the memory at most the declared
  one; and a queue the host declares no policy for admits every request.
\<close>

theorem admit_within_envelope:
  "(admit queues queue asked mem_gb = Inr () \<longrightarrow>
      qp_submittable (host_policy queues queue) \<and>
      (qp_max_walltime (host_policy queues queue) \<noteq> [] \<longrightarrow>
        (\<exists>a m. walltime_seconds asked = Inr a \<and>
           walltime_seconds (qp_max_walltime (host_policy queues queue)) = Inr m \<and> a \<le> m)) \<and>
      (qp_mem_ceiling_gb (host_policy queues queue) \<noteq> 0 \<longrightarrow>
        mem_gb \<le> qp_mem_ceiling_gb (host_policy queues queue))) \<and>
   (map_of queues queue = None \<longrightarrow> admit queues queue asked mem_gb = Inr ())"
  by (auto simp: admit_def admits_walltime_def host_policy_def open_policy_def Let_def
      split: if_splits sum.splits)

theorem admit_within_envelope_witness:
  "admit [(''short-g'', open_policy\<lparr>qp_max_walltime := ''07:59:59'', qp_mem_ceiling_gb := 100\<rparr>)]
     ''short-g'' ''06:00:00'' 100 = Inr () \<and> (100::int) \<le> 100"
proof -
  let ?qs = "[(''short-g'', open_policy\<lparr>qp_max_walltime := ''07:59:59'', qp_mem_ceiling_gb := 100\<rparr>)]"
  have ok: "admit ?qs ''short-g'' ''06:00:00'' 100 = Inr ()" by code_simp
  have "qp_mem_ceiling_gb (host_policy ?qs ''short-g'') = 100" by code_simp
  with ok admit_within_envelope [of ?qs "''short-g''" "''06:00:00''" 100] show ?thesis by simp
qed

end
