(* ===== verification/Registry.thy ===== *)
theory Registry
  imports Vocabulary "HOL-Library.Option_ord"
begin

text \<open>
  The dispatch registries (\<open>dispatch/state/registry.py\<close>, \<open>dispatch/state/cache.py\<close>) over the
  append-only logs of the state lake (\<open>state/schema.py\<close>): the run record, the logs and the view
  that takes the last record per key, provider creations, host onboarding records, and the run
  registry itself. The lemmas show that the log implements a map from run identities to records,
  that a settled verdict is never replaced, that a creation is claimed once, and what each lookup
  answers. The registry file lock makes every operation one atomic step on the lake.
\<close>

section \<open>Records\<close>

text \<open>
  A rental lease as the registry keeps it (\<open>dispatch/hosts/lease.py\<close>, \<open>costs/catalog.py\<close>).
  Instants are microseconds since the epoch, money is a rational that is only compared.
\<close>

datatype bound = CARD | PREPAID | THRESHOLD

record cap =
  cap_provider :: string
  cap_bound :: bound
  cap_limit_usd :: rat

record offer =
  off_provider :: string
  off_gpu :: string
  off_gpu_count :: int
  off_spot :: bool
  off_region :: string
  off_rate_usd_hr :: rat
  off_granularity_s :: int
  off_minimum_s :: int
  off_fees_usd :: rat
  off_available :: "bool option"
  off_source :: string

record lease =
  ls_offer :: offer
  ls_release_by :: int
  ls_max_usd :: rat
  ls_cap :: "cap option"

text \<open>One dispatched job's provenance.\<close>

record run_record =
  run_handle :: string
  run_target :: string
  run_kind :: string
  run_script :: string
  run_args :: string
  run_git_sha :: string
  run_dirty :: "int option"
  run_submitted_at :: stamp
  run_fetch_path :: "string option"
  run_name :: string
  run_node :: string
  run_source :: string
  run_commit :: string
  run_digest :: string
  run_state :: "string option"
  run_exit_code :: "int option"
  run_verdict :: "string option"
  run_reported :: "string option"
  run_evidence :: string
  run_creation :: string
  run_request :: "request option"
  run_lease :: "lease option"
  run_reason :: string
  run_project :: string

definition label :: "run_record \<Rightarrow> string" where
  "label run = (if run_name run \<noteq> [] then run_name run else run_script run)"

text \<open>\<open>(target, handle, submitted_at)\<close>: a scheduler handle alone is no identity.\<close>

type_synonym identity = "string \<times> string \<times> stamp"

definition identity :: "run_record \<Rightarrow> identity" where
  "identity run = (run_target run, run_handle run, run_submitted_at run)"

text \<open>
  What one machine became after an install (\<open>dispatch/hosts/onboard/record.py\<close>); the probe
  results it carries are opaque here.
\<close>

record host_setup =
  hs_host :: string
  hs_root :: string
  hs_env :: string
  hs_activate :: string
  hs_installer :: string
  hs_rejected :: "(string \<times> string) list"
  hs_tool :: string
  hs_pixi :: string
  hs_capabilities :: "json option"
  hs_hardware :: "json option"
  hs_onboarded_at :: stamp
  hs_synced_at :: stamp
  hs_digest :: string
  hs_dotfiles :: bool
  hs_requires :: string

definition mirrored_at :: "host_setup \<Rightarrow> stamp" where
  "mirrored_at setup = max (hs_synced_at setup) (hs_onboarded_at setup)"


section \<open>The lake\<close>

text \<open>
  Rows of the two logs, in commit order. A record stored as JSON and validated back is the same
  record; the facts of a host row are \<open>None\<close> when the stored text no longer validates.
\<close>

record run_row =
  row_ts :: stamp
  row_target :: string
  row_handle :: string
  row_submitted_at :: stamp
  row_record :: run_record
  row_dropped :: bool

record host_row =
  hr_ts :: stamp
  hr_alias :: string
  hr_probed_at :: "stamp option"
  hr_facts :: "host_setup option"
  hr_dropped :: bool

definition row_key :: "run_row \<Rightarrow> identity" where
  "row_key row = (row_target row, row_handle row, row_submitted_at row)"

text \<open>The state every component shares: how often the clock was read, and the two logs.\<close>

record lake =
  lk_ticks :: nat
  runs_log :: "run_row list"
  host_facts :: "host_row list"

text \<open>
  What is outside the repository and the registry relies on: \<open>patos.Lifecycle.allowed\<close> and the
  wall clock, whose \<open>n\<close>-th reading is \<open>now_at n\<close>.
\<close>

record world =
  lifecycle_allowed :: "(word, word list) dict \<Rightarrow> word \<Rightarrow> word \<Rightarrow> bool"
  now_at :: "nat \<Rightarrow> stamp"

text \<open>The documented behaviour of \<open>Lifecycle\<close>: a move is allowed when the table lists it.\<close>

definition lifecycle_law :: "'w world_scheme \<Rightarrow> bool" where
  "lifecycle_law w \<longleftrightarrow>
     (\<forall>table current target. lifecycle_allowed w table current target \<longleftrightarrow>
        (\<exists>vs. map_of table current = Some vs \<and> target \<in> set vs))"

text \<open>
  \<open>schema.latest\<close>: the last record appended per key, left out when it is a drop. The rows that
  remain are listed in commit order.
\<close>

fun latest_rows :: "('r \<Rightarrow> 'k) \<Rightarrow> ('r \<Rightarrow> bool) \<Rightarrow> 'r list \<Rightarrow> 'r list" where
  "latest_rows key dropped [] = []"
| "latest_rows key dropped (r # rs) =
     (if list_ex (\<lambda>r'. key r' = key r) rs \<or> dropped r then latest_rows key dropped rs
      else r # latest_rows key dropped rs)"

definition lookup_row :: "('r \<Rightarrow> 'k) \<Rightarrow> 'r list \<Rightarrow> 'k \<Rightarrow> 'r option" where
  "lookup_row key rows k = find (\<lambda>r. key r = k) rows"

text \<open>
  The interface of such a view: what a key reads after one more row. Its clients need no more
  than these two laws.
\<close>

locale keyed_log =
  fixes view :: "'r list \<Rightarrow> 'r list" and key :: "'r \<Rightarrow> 'k" and dropped :: "'r \<Rightarrow> bool"
  assumes view_Nil: "view [] = []"
    and lookup_view_snoc:
      "lookup_row key (view (rows @ [r])) k =
         (if key r = k then if dropped r then None else Some r else lookup_row key (view rows) k)"
begin

lemma lookup_Nil: "lookup_row key (view []) = Map.empty"
  by (rule ext) (simp add: view_Nil lookup_row_def)

lemma lookup_snoc:
  "lookup_row key (view (rows @ [r])) =
     (lookup_row key (view rows))(key r := (if dropped r then None else Some r))"
  by (rule ext) (simp add: lookup_view_snoc)

lemma lookup_drop_put:
  assumes "dropped r" and "\<not> dropped r'"
  shows "lookup_row key (view (rows @ [r, r'])) =
    (lookup_row key (view rows))(key r := None, key r' := Some r')"
  using lookup_snoc [of "rows @ [r]" r'] assms by (simp add: lookup_snoc)

lemma lookup_untouched:
  "k \<notin> key ` set new \<Longrightarrow> lookup_row key (view (rows @ new)) k = lookup_row key (view rows) k"
  by (induction new rule: rev_induct) (simp_all add: lookup_snoc flip: append_assoc)

lemma lookup_in_log:
  "lookup_row key (view rows) k = Some r \<Longrightarrow> r \<in> set rows \<and> key r = k \<and> \<not> dropped r"
  by (induction rows rule: rev_induct) (auto simp: lookup_Nil lookup_snoc split: if_splits)

end

lemma lookup_latest_rows_snoc:
  "lookup_row key (latest_rows key dropped (rows @ [r])) k =
     (if key r = k then if dropped r then None else Some r
      else lookup_row key (latest_rows key dropped rows) k)"
  by (induction rows) (auto simp: lookup_row_def)

interpretation runs_view: keyed_log "latest_rows row_key row_dropped" row_key row_dropped
  by unfold_locales (simp_all add: lookup_latest_rows_snoc)

interpretation hosts_view: keyed_log "latest_rows hr_alias hr_dropped" hr_alias hr_dropped
  by unfold_locales (simp_all add: lookup_latest_rows_snoc)

text \<open>Every row of a view is the one its key reads.\<close>

lemma latest_rows_subset: "set (latest_rows key dropped rows) \<subseteq> set rows"
  by (induction rows) auto

lemma latest_rows_member:
  "r \<in> set (latest_rows key dropped rows) \<longleftrightarrow>
     lookup_row key (latest_rows key dropped rows) (key r) = Some r"
proof (induction rows)
  case Nil
  then show ?case by (simp add: lookup_row_def)
next
  case (Cons x rows)
  show ?case
  proof (cases "list_ex (\<lambda>r'. key r' = key x) rows \<or> dropped x")
    case True
    then have "latest_rows key dropped (x # rows) = latest_rows key dropped rows" by simp
    with Cons show ?thesis by simp
  next
    case False
    then have "key r' \<noteq> key x" if "r' \<in> set (latest_rows key dropped rows)" for r'
      using that subsetD [OF latest_rows_subset that] by (auto simp: list_ex_iff)
    from this [of r] False Cons show ?thesis by (auto simp: lookup_row_def)
  qed
qed

text \<open>The \<open>runs\<close> view and \<open>order by submitted_at desc\<close>, a later row first among equal stamps.\<close>

definition runs :: "'s lake_scheme \<Rightarrow> run_row list" where
  "runs s = latest_rows row_key row_dropped (runs_log s)"

definition newest :: "'s lake_scheme \<Rightarrow> run_record list" where
  "newest s = map row_record (rev (sort_key row_submitted_at (runs s)))"

text \<open>\<open>shared.now\<close>, one reading of the clock.\<close>

definition now_text :: "'w world_scheme \<Rightarrow> ('s lake_scheme, stamp) comp" where
  "now_text w = (\<lambda>s. (Inr (now_at w (lk_ticks s)), s\<lparr>lk_ticks := Suc (lk_ticks s)\<rparr>))"

definition append_runs :: "run_row list \<Rightarrow> ('s lake_scheme, unit) comp" where
  "append_runs rows = changing (\<lambda>s. s\<lparr>runs_log := runs_log s @ rows\<rparr>)"

definition append_hosts :: "host_row list \<Rightarrow> ('s lake_scheme, unit) comp" where
  "append_hosts rows = changing (\<lambda>s. s\<lparr>host_facts := host_facts s @ rows\<rparr>)"


section \<open>The log of runs\<close>

text \<open>\<open>Log._reaches\<close>: a text that is no verdict word raises inside and answers \<open>False\<close>.\<close>

definition reaches :: "'w world_scheme \<Rightarrow> string option \<Rightarrow> string \<Rightarrow> bool" where
  "reaches w current verdict =
     (case current of
        None \<Rightarrow> True
      | Some c \<Rightarrow>
          verdict = c \<or>
          (case (word_of c, word_of verdict) of
             (Some cw, Some vw) \<Rightarrow> lifecycle_allowed w transitions cw vw
           | _ \<Rightarrow> False))"

definition row_of :: "'w world_scheme \<Rightarrow> run_record \<Rightarrow> bool \<Rightarrow> ('s lake_scheme, run_row) comp" where
  "row_of w run dropped =
     andThen (now_text w) (\<lambda>ts.
       ret \<lparr>row_ts = ts, row_target = run_target run, row_handle = run_handle run,
            row_submitted_at = run_submitted_at run, row_record = run, row_dropped = dropped\<rparr>)"

definition unregistered :: "run_record \<Rightarrow> fault" where
  "unregistered run =
     LookupError (''no registered run '' @ repr_text (run_handle run) @ '' on '' @
       repr_text (run_target run))"

definition at_identity :: "'s lake_scheme \<Rightarrow> identity \<Rightarrow> run_record option" where
  "at_identity s k = map_option row_record (lookup_row row_key (runs s) k)"

definition on_target :: "string option \<Rightarrow> 's lake_scheme \<Rightarrow> run_record list" where
  "on_target target s =
     (case target of
        None \<Rightarrow> newest s
      | Some t \<Rightarrow> if t = [] then newest s
                 else map row_record
                   (rev (sort_key row_submitted_at (filter (\<lambda>r. row_target r = t) (runs s)))))"

definition transition ::
  "'w world_scheme \<Rightarrow> run_record \<Rightarrow> word \<Rightarrow> (run_record \<Rightarrow> run_record) \<Rightarrow> fault \<Rightarrow>
     ('s lake_scheme, run_record) comp" where
  "transition w run expected update missing =
     andThen (reading (\<lambda>s. at_identity s (identity run))) (\<lambda>current.
       case current of
         None \<Rightarrow> raising missing
       | Some c \<Rightarrow>
           if run_verdict c \<noteq> Some (word_text expected) then raising missing
           else andThen (row_of w (update c) False) (\<lambda>row.
                  andThen (append_runs [row]) (\<lambda>_. ret (update c))))"


section \<open>Provider creations\<close>

definition bind :: "'w world_scheme \<Rightarrow> run_record \<Rightarrow> string \<Rightarrow> ('s lake_scheme, run_record) comp" where
  "bind w run handle =
     andThen (reading (\<lambda>s. at_identity s (identity run))) (\<lambda>current.
       let missing = LookupError (''no submitting creation '' @ repr_text (run_creation run) @
                       '' on '' @ repr_text (run_target run)) in
       case current of
         None \<Rightarrow> raising missing
       | Some c \<Rightarrow>
           if run_verdict c \<noteq> Some (word_text SUBMITTING) then raising missing
           else let bound = c\<lparr>run_handle := handle, run_state := Some (word_text QUEUED),
                              run_verdict := Some (word_text QUEUED)\<rparr> in
                andThen (row_of w c True) (\<lambda>gone.
                andThen (row_of w bound False) (\<lambda>row.
                andThen (append_runs [gone, row]) (\<lambda>_. ret bound))))"

definition named :: "string \<Rightarrow> string \<Rightarrow> ('s lake_scheme, run_record) comp" where
  "named creation target =
     andThen (reading (on_target (Some target))) (\<lambda>rs.
       case find (\<lambda>run. run_creation run = creation) rs of
         Some run \<Rightarrow> ret run
       | None \<Rightarrow> raising (LookupError (''no creation '' @ repr_text creation @ '' on '' @
                    repr_text target)))"

definition prepared ::
  "'w world_scheme \<Rightarrow> run_record \<Rightarrow> string \<Rightarrow> lease option \<Rightarrow> ('s lake_scheme, run_record) comp" where
  "prepared w run verdict granted =
     (if \<not> reaches w (Some (word_text PREPARED)) verdict
      then raising (ValueError (''invalid prepared transition to '' @ repr_text verdict))
      else transition w run PREPARED
             (\<lambda>c. c\<lparr>run_state := Some verdict, run_verdict := Some verdict,
                    run_reported := (if settled_text verdict then Some verdict else None),
                    run_lease := granted\<rparr>)
             (ValueError (''creation '' @ repr_text (run_creation run) @
                '' is no longer prepared; do not resend it'')))"

definition reopen :: "'w world_scheme \<Rightarrow> run_record \<Rightarrow> ('s lake_scheme, run_record) comp" where
  "reopen w run =
     transition w run SUBMITTING
       (\<lambda>c. c\<lparr>run_state := Some (word_text PREPARED), run_verdict := Some (word_text PREPARED),
              run_lease := None\<rparr>)
       (ValueError (''creation '' @ repr_text (run_creation run) @
          '' is not submitting; nothing to reopen''))"

text \<open>Whether \<open>other\<close> is an unresolved creation of the request \<open>run\<close> makes.\<close>

definition pending_twin :: "run_record \<Rightarrow> run_record \<Rightarrow> bool" where
  "pending_twin run other \<longleftrightarrow>
     run_verdict other \<in> {Some (word_text PREPARED), Some (word_text SUBMITTING)} \<and>
     run_script other = run_script run \<and> run_digest other = run_digest run"

definition reserve :: "'w world_scheme \<Rightarrow> run_record \<Rightarrow> ('s lake_scheme, unit) comp" where
  "reserve w run =
     andThen (reading (on_target (Some (run_target run)))) (\<lambda>others.
       if list_ex (pending_twin run) others
       then raising (ValueError (''an unresolved creation already exists for '' @
              (repr_text (label run)) @ '' on '' @ run_target run @
              ''; inspect its job record and provider label before retrying''))
       else andThen (row_of w run False) (\<lambda>row. append_runs [row]))"


section \<open>Host onboarding\<close>

definition host_row_of ::
  "'w world_scheme \<Rightarrow> host_setup \<Rightarrow> stamp option \<Rightarrow> ('s lake_scheme, host_row) comp" where
  "host_row_of w setup probed_at =
     andThen (now_text w) (\<lambda>ts.
       ret \<lparr>hr_ts = ts, hr_alias = hs_host setup, hr_probed_at = probed_at,
            hr_facts = Some setup, hr_dropped = False\<rparr>)"

definition hosts :: "'s lake_scheme \<Rightarrow> host_row list" where
  "hosts s = latest_rows hr_alias hr_dropped (host_facts s)"

definition hosts_all :: "'s lake_scheme \<Rightarrow> host_setup list" where
  "hosts_all s = concat (map (\<lambda>r. case hr_facts r of None \<Rightarrow> [] | Some setup \<Rightarrow> [setup])
     (rev (sort_key hr_probed_at (hosts s))))"

definition hosts_drop :: "'w world_scheme \<Rightarrow> string \<Rightarrow> ('s lake_scheme, unit) comp" where
  "hosts_drop w alias =
     andThen (now_text w) (\<lambda>ts.
       append_hosts [\<lparr>hr_ts = ts, hr_alias = alias, hr_probed_at = None, hr_facts = None,
                      hr_dropped = True\<rparr>])"

definition recorded :: "string \<Rightarrow> ('s lake_scheme, host_setup) comp" where
  "recorded alias =
     andThen (reading (\<lambda>s. lookup_row hr_alias (hosts s) alias)) (\<lambda>row.
       case row of
         None \<Rightarrow> raising (LookupError (''host '' @ repr_text alias @
                   '' has never been set up; run `mb host setup '' @ alias @ ''`''))
       | Some r \<Rightarrow>
           (case hr_facts r of
              Some setup \<Rightarrow> ret setup
            | None \<Rightarrow> raising (LookupError (''host '' @ repr_text alias @
                        '' was set up by an older release; run `mb host setup '' @ alias @ ''`''))))"

definition save :: "'w world_scheme \<Rightarrow> host_setup \<Rightarrow> ('s lake_scheme, host_setup) comp" where
  "save w setup =
     andThen (now_text w) (\<lambda>t.
       let stamped = setup\<lparr>hs_onboarded_at := t\<rparr> in
       andThen (host_row_of w stamped (Some (hs_onboarded_at stamped))) (\<lambda>row.
       andThen (append_hosts [row]) (\<lambda>_. ret stamped)))"

definition synced :: "'w world_scheme \<Rightarrow> string \<Rightarrow> ('s lake_scheme, unit) comp" where
  "synced w alias =
     trying_else is_lookup (recorded alias) (\<lambda>_. ret ()) (\<lambda>setup.
       andThen (now_text w) (\<lambda>t.
       andThen (host_row_of w (setup\<lparr>hs_synced_at := t\<rparr>) (Some (hs_onboarded_at setup))) (\<lambda>row.
       append_hosts [row])))"


section \<open>The run registry\<close>

text \<open>The fields \<open>_change\<close> is called with, and \<open>model_copy(update=fields)\<close>.\<close>

datatype field =
    State "string option" | Exit_code "int option" | Verdict string | Reported string
  | Evidence string

fun set_field :: "field \<Rightarrow> run_record \<Rightarrow> run_record" where
  "set_field (State v) run = run\<lparr>run_state := v\<rparr>"
| "set_field (Exit_code v) run = run\<lparr>run_exit_code := v\<rparr>"
| "set_field (Verdict v) run = run\<lparr>run_verdict := Some v\<rparr>"
| "set_field (Reported v) run = run\<lparr>run_reported := Some v\<rparr>"
| "set_field (Evidence v) run = run\<lparr>run_evidence := v\<rparr>"

fun verdict_in :: "field list \<Rightarrow> string option" where
  "verdict_in [] = None"
| "verdict_in (Verdict v # fs) = Some v"
| "verdict_in (_ # fs) = verdict_in fs"

definition change :: "'w world_scheme \<Rightarrow> run_record \<Rightarrow> field list \<Rightarrow> ('s lake_scheme, run_record) comp" where
  "change w run updates =
     andThen (reading (\<lambda>s. at_identity s (identity run))) (\<lambda>current.
       case current of
         None \<Rightarrow> raising (unregistered run)
       | Some c \<Rightarrow>
           if (case verdict_in updates of None \<Rightarrow> False | Some v \<Rightarrow> \<not> reaches w (run_verdict c) v)
           then ret c
           else let changed = fold set_field updates c in
                andThen (row_of w changed False) (\<lambda>row.
                andThen (append_runs [row]) (\<lambda>_. ret changed)))"

definition count_runs :: "string \<Rightarrow> string \<Rightarrow> 's lake_scheme \<Rightarrow> nat" where
  "count_runs name target s =
     length (filter (\<lambda>r. (name \<noteq> [] \<longrightarrow> run_name (row_record r) = name) \<and>
                         (target \<noteq> [] \<longrightarrow> row_target r = target)) (runs s))"

definition delivery :: "'w world_scheme \<Rightarrow> run_record \<Rightarrow> string \<Rightarrow> ('s lake_scheme, run_record) comp" where
  "delivery w run status = change w run [Evidence status]"

definition forget :: "'w world_scheme \<Rightarrow> run_record \<Rightarrow> ('s lake_scheme, unit) comp" where
  "forget w run = andThen (row_of w run True) (\<lambda>row. append_runs [row])"

text \<open>The listings, with the SQL conditions they filter by.\<close>

datatype only = All | Live | Settled | Tracked

definition unsettled :: "run_record \<Rightarrow> bool" where
  "unsettled run \<longleftrightarrow> \<not> settled_text (case run_verdict run of None \<Rightarrow> [] | Some v \<Rightarrow> v)"

definition tracked :: "run_record \<Rightarrow> bool" where
  "tracked run \<longleftrightarrow> unsettled run \<or> run_reported run \<noteq> run_verdict run"

fun only_keeps :: "only \<Rightarrow> run_record \<Rightarrow> bool" where
  "only_keeps All run = True"
| "only_keeps Live run = unsettled run"
| "only_keeps Settled run = settled_opt (run_verdict run)"
| "only_keeps Tracked run = tracked run"

definition listed ::
  "only \<Rightarrow> string \<Rightarrow> nat option \<Rightarrow> stamp \<Rightarrow> 's lake_scheme \<Rightarrow> run_record list" where
  "listed only project limit since s =
     (let chosen = filter (\<lambda>run. only_keeps only run
                            \<and> (project \<noteq> [] \<longrightarrow> run_project run = project)
                            \<and> (since \<noteq> [] \<longrightarrow> since \<le> run_submitted_at run)) (newest s)
      in case limit of None \<Rightarrow> chosen | Some n \<Rightarrow> take n chosen)"

definition record_run :: "'w world_scheme \<Rightarrow> run_record \<Rightarrow> ('s lake_scheme, unit) comp" where
  "record_run w run = andThen (row_of w run False) (\<lambda>row. append_runs [row])"

definition relet :: "'w world_scheme \<Rightarrow> run_record \<Rightarrow> lease \<Rightarrow> ('s lake_scheme, run_record) comp" where
  "relet w run granted =
     andThen (reading (\<lambda>s. at_identity s (identity run))) (\<lambda>current.
       case current of
         None \<Rightarrow> raising (unregistered run)
       | Some c \<Rightarrow>
           let again = c\<lparr>run_lease := Some granted\<rparr> in
           andThen (row_of w again False) (\<lambda>row.
           andThen (append_runs [row]) (\<lambda>_. ret again)))"

definition report :: "'w world_scheme \<Rightarrow> run_record \<Rightarrow> string \<Rightarrow> ('s lake_scheme, unit) comp" where
  "report w run verdict = andThen (change w run [Reported verdict]) (\<lambda>_. ret ())"

definition resolve ::
  "'w world_scheme \<Rightarrow> run_record \<Rightarrow> string option \<Rightarrow> int option \<Rightarrow> string \<Rightarrow>
     ('s lake_scheme, run_record) comp" where
  "resolve w run state exit_code verdict =
     change w run [State state, Exit_code exit_code, Verdict verdict]"

text \<open>\<open>Cache.run\<close>: a handle wins over a label, a label names its newest run, two targets refuse.\<close>

definition run_named :: "string \<Rightarrow> string option \<Rightarrow> ('s lake_scheme, run_record) comp" where
  "run_named handle target =
     andThen (reading (on_target target)) (\<lambda>every.
       let exact = filter (\<lambda>run. run_handle run = handle) every;
           names = filter (\<lambda>run. label run = handle) every;
           rs = (if exact \<noteq> [] then exact
                 else (case rev (sort_key run_submitted_at names) of [] \<Rightarrow> [] | r # _ \<Rightarrow> [r]));
           candidates = sort (remdups (map (\<lambda>run. run_target run @ '' '' @ run_handle run) rs))
       in case rs of
            [] \<Rightarrow> raising (LookupError (''no recorded run '' @ repr_text handle @
                   (case target of None \<Rightarrow> [] | Some t \<Rightarrow>
                      if t = [] then [] else '' on '' @ repr_text t)))
          | r # _ \<Rightarrow>
              if 1 < length candidates
              then raising (LookupError (repr_text handle @ '' names runs '' @
                     join_with '', '' candidates @ ''; pass one handle and its host''))
              else ret r)"


section \<open>The registry as a map\<close>

text \<open>
  Every row carries the identity of the record it stores; the operations keep this, and under it
  the registry is the map \<open>at_identity s\<close> from identities to current records.
\<close>

definition keyed :: "'s lake_scheme \<Rightarrow> bool" where
  "keyed s \<longleftrightarrow> list_all (\<lambda>row. row_key row = identity (row_record row)) (runs_log s)"

text \<open>The state after one row recording \<open>run\<close>, or its removal.\<close>

definition logged :: "'w world_scheme \<Rightarrow> run_record \<Rightarrow> bool \<Rightarrow> 's lake_scheme \<Rightarrow> 's lake_scheme" where
  "logged w run dropped s =
     s\<lparr>lk_ticks := Suc (lk_ticks s),
       runs_log := runs_log s @
         [\<lparr>row_ts = now_at w (lk_ticks s), row_target = run_target run, row_handle = run_handle run,
           row_submitted_at = run_submitted_at run, row_record = run, row_dropped = dropped\<rparr>]\<rparr>"

lemma now_text_apply [simp]:
  "now_text w s = (Inr (now_at w (lk_ticks s)), s\<lparr>lk_ticks := Suc (lk_ticks s)\<rparr>)"
  by (simp add: now_text_def)

lemma append_row_logged [simp]:
  "andThen (row_of w run d) (\<lambda>row. andThen (append_runs [row]) (\<lambda>_. ret x)) s =
     (Inr x, logged w run d s)"
  "andThen (row_of w run d) (\<lambda>row. append_runs [row]) s = (Inr (), logged w run d s)"
  by (simp_all add: comp_simps row_of_def append_runs_def logged_def)

lemma at_identity_logged [simp]:
  "at_identity (logged w run d s) = (at_identity s)(identity run := (if d then None else Some run))"
  by (rule ext) (simp add: at_identity_def runs_def logged_def runs_view.lookup_snoc row_key_def identity_def)

lemma keyed_logged [simp]: "keyed (logged w run d s) \<longleftrightarrow> keyed s"
  by (simp add: keyed_def logged_def row_key_def identity_def)

lemma runs_log_logged: "prefix (runs_log s) (runs_log (logged w run d s))"
  by (simp add: logged_def)

lemma at_identity_ticks [simp]: "at_identity (s\<lparr>lk_ticks := n\<rparr>) = at_identity s"
  by (rule ext) (simp add: at_identity_def runs_def)

lemma at_identity_key: "keyed s \<Longrightarrow> at_identity s k = Some c \<Longrightarrow> identity c = k"
  by (auto simp: at_identity_def runs_def keyed_def list_all_iff dest!: runs_view.lookup_in_log)

lemma set_newest: "set (newest s) = ran (at_identity s)"
proof -
  have "row_record ` set (runs s) = ran (at_identity s)"
  proof (intro equalityI subsetI)
    fix c assume "c \<in> row_record ` set (runs s)"
    then obtain r where "r \<in> set (runs s)" and c: "c = row_record r" by auto
    then have "lookup_row row_key (runs s) (row_key r) = Some r"
      by (simp add: runs_def latest_rows_member)
    then have "at_identity s (row_key r) = Some c" by (simp add: at_identity_def c)
    then show "c \<in> ran (at_identity s)" by (rule ranI)
  next
    fix c assume "c \<in> ran (at_identity s)"
    then obtain k r where "lookup_row row_key (runs s) k = Some r" and c: "c = row_record r"
      by (auto simp: ran_def at_identity_def)
    then have "r \<in> set (runs s)" by (auto simp: lookup_row_def find_Some_iff)
    then show "c \<in> row_record ` set (runs s)" by (auto simp: c)
  qed
  then show ?thesis by (simp add: newest_def)
qed

lemma set_on_target:
  assumes "keyed s"
  shows "set (on_target target s) =
    {c \<in> ran (at_identity s). \<forall>t. target = Some t \<and> t \<noteq> [] \<longrightarrow> run_target c = t}"
proof -
  have "row_target r = run_target (row_record r)" if "r \<in> set (runs s)" for r
    using assms subsetD [OF latest_rows_subset that [unfolded runs_def]]
    by (auto simp: keyed_def list_all_iff row_key_def identity_def)
  then have "set (map row_record (filter (\<lambda>r. row_target r = t) (runs s))) =
      {c \<in> set (newest s). run_target c = t}" for t
    by (auto simp: newest_def)
  then show ?thesis
    by (auto simp: on_target_def set_newest split: option.split)
qed


subsection \<open>The operations and what they do to the map\<close>

lemma transition_apply:
  "transition w run expected update missing s =
     (case at_identity s (identity run) of
        None \<Rightarrow> (Inl missing, s)
      | Some c \<Rightarrow> if run_verdict c = Some (word_text expected)
                 then (Inr (update c), logged w (update c) False s) else (Inl missing, s))"
  by (simp add: transition_def andThen_apply [of "reading _"] split: option.split)

lemma change_apply:
  "change w run updates s =
     (case at_identity s (identity run) of
        None \<Rightarrow> (Inl (unregistered run), s)
      | Some c \<Rightarrow>
          if (case verdict_in updates of None \<Rightarrow> False | Some v \<Rightarrow> \<not> reaches w (run_verdict c) v)
          then (Inr c, s)
          else (Inr (fold set_field updates c), logged w (fold set_field updates c) False s))"
  by (simp add: change_def andThen_apply [of "reading _"] Let_def split: option.split)

lemma relet_apply:
  "relet w run granted s =
     (case at_identity s (identity run) of
        None \<Rightarrow> (Inl (unregistered run), s)
      | Some c \<Rightarrow> (Inr (c\<lparr>run_lease := Some granted\<rparr>), logged w (c\<lparr>run_lease := Some granted\<rparr>) False s))"
  by (simp add: relet_def andThen_apply [of "reading _"] Let_def split: option.split)

definition bound_to :: "run_record \<Rightarrow> string \<Rightarrow> run_record" where
  "bound_to c handle = c\<lparr>run_handle := handle, run_state := Some (word_text QUEUED),
     run_verdict := Some (word_text QUEUED)\<rparr>"

definition bind_missing :: "run_record \<Rightarrow> fault" where
  "bind_missing run = LookupError (''no submitting creation '' @ repr_text (run_creation run) @
     '' on '' @ repr_text (run_target run))"

lemma bind_apply_missing:
  "(\<And>c. at_identity s (identity run) = Some c \<Longrightarrow> run_verdict c \<noteq> Some (word_text SUBMITTING)) \<Longrightarrow>
     bind w run handle s = (Inl (bind_missing run), s)"
  by (auto simp: bind_def bind_missing_def andThen_apply [of "reading _"] Let_def split: option.split)

lemma bind_apply:
  assumes "at_identity s (identity run) = Some c" and "run_verdict c = Some (word_text SUBMITTING)"
  obtains t where "bind w run handle s = (Inr (bound_to c handle), t)"
    and "at_identity t = (at_identity s)(identity c := None,
           identity (bound_to c handle) := Some (bound_to c handle))"
    and "keyed t \<longleftrightarrow> keyed s" and "prefix (runs_log s) (runs_log t)"
proof -
  define t where "t = snd (bind w run handle s)"
  let ?rows = "drop (length (runs_log s)) (runs_log t)"
  have b: "bind w run handle s = (Inr (bound_to c handle), t)"
    using assms by (simp add: t_def bind_def bound_to_def comp_simps row_of_def append_runs_def Let_def)
  have rows: "\<exists>a b. runs_log t = runs_log s @
      [\<lparr>row_ts = a, row_target = run_target c, row_handle = run_handle c,
        row_submitted_at = run_submitted_at c, row_record = c, row_dropped = True\<rparr>,
       \<lparr>row_ts = b, row_target = run_target c, row_handle = handle,
        row_submitted_at = run_submitted_at c, row_record = bound_to c handle, row_dropped = False\<rparr>]"
    using assms by (simp add: t_def bind_def bound_to_def comp_simps row_of_def append_runs_def Let_def)
  then obtain r r' where log: "runs_log t = runs_log s @ [r, r']"
    and r: "row_dropped r" "row_key r = identity c" "row_record r = c"
    and r': "\<not> row_dropped r'" "row_key r' = identity (bound_to c handle)"
      "row_record r' = bound_to c handle"
    by (auto simp: row_key_def identity_def bound_to_def)
  have "at_identity t = (at_identity s)(identity c := None,
      identity (bound_to c handle) := Some (bound_to c handle))"
    by (rule ext) (simp add: at_identity_def runs_def log runs_view.lookup_drop_put r r')
  moreover have "keyed t \<longleftrightarrow> keyed s" by (simp add: keyed_def log r r')
  ultimately show ?thesis using that b log by simp
qed

lemma reserve_apply:
  assumes "keyed s"
  shows "reserve w run s =
    (if \<exists>other \<in> ran (at_identity s).
          (run_target run \<noteq> [] \<longrightarrow> run_target other = run_target run) \<and> pending_twin run other
     then (Inl (ValueError (''an unresolved creation already exists for '' @
              repr_text (label run) @ '' on '' @ run_target run @
              ''; inspect its job record and provider label before retrying'')), s)
     else (Inr (), logged w run False s))"
  using set_on_target [OF assms, of "Some (run_target run)"]
  by (auto simp: reserve_def andThen_apply [of "reading _"] list_ex_iff)

lemma record_run_apply: "record_run w run s = (Inr (), logged w run False s)"
  by (simp add: record_run_def)

lemma forget_apply: "forget w run s = (Inr (), logged w run True s)"
  by (simp add: forget_def)


subsection \<open>Sequences of operations\<close>

text \<open>
  The operations that write the log, as the processes sharing a workspace interleave them: each
  is atomic under the registry lock, so an interleaving is a list of operations.
\<close>

datatype registry_op =
    Record run_record
  | Resolve run_record "string option" "int option" string
  | Report run_record string
  | Delivery run_record string
  | Forget run_record
  | Relet run_record lease
  | Bind run_record string
  | Prepared run_record string "lease option"
  | Reopen run_record
  | Reserve run_record

definition answering :: "('s, 'a) comp \<Rightarrow> ('a \<Rightarrow> 'b) \<Rightarrow> ('s, 'b) comp" where
  "answering m f = andThen m (\<lambda>x. ret (f x))"

fun perform :: "'w world_scheme \<Rightarrow> registry_op \<Rightarrow> ('s lake_scheme, run_record option) comp" where
  "perform w (Record run) = answering (record_run w run) (\<lambda>_. None)"
| "perform w (Resolve run st code v) = answering (resolve w run st code v) Some"
| "perform w (Report run v) = answering (report w run v) (\<lambda>_. None)"
| "perform w (Delivery run status) = answering (delivery w run status) Some"
| "perform w (Forget run) = answering (forget w run) (\<lambda>_. None)"
| "perform w (Relet run granted) = answering (relet w run granted) Some"
| "perform w (Bind run handle) = answering (bind w run handle) Some"
| "perform w (Prepared run v granted) = answering (prepared w run v granted) Some"
| "perform w (Reopen run) = answering (reopen w run) Some"
| "perform w (Reserve run) = answering (reserve w run) (\<lambda>_. None)"

text \<open>An operation that raised leaves the log as it was, and the next process goes on.\<close>

fun perform_all :: "'w world_scheme \<Rightarrow> registry_op list \<Rightarrow> 's lake_scheme \<Rightarrow> 's lake_scheme" where
  "perform_all w [] s = s"
| "perform_all w (op # ops) s = perform_all w ops (snd (perform w op s))"

lemma answering_apply [simp]: "answering m f s = map_prod (map_sum id f) id (m s)"
  by (simp add: answering_def andThen_apply split: prod.split sum.split)

text \<open>The specification: the same operations on a map from identities to records.\<close>

type_synonym registry = "identity \<rightharpoonup> run_record"

definition put :: "run_record \<Rightarrow> registry \<Rightarrow> registry" where
  "put run m = m(identity run \<mapsto> run)"

definition spec_update ::
  "run_record \<Rightarrow> fault \<Rightarrow> (run_record \<Rightarrow> fault + run_record option) \<Rightarrow> registry \<Rightarrow>
     (fault + run_record option) \<times> registry" where
  "spec_update run missing f m =
     (case m (identity run) of
        None \<Rightarrow> (Inl missing, m)
      | Some c \<Rightarrow> (case f c of
                    Inl e \<Rightarrow> (Inl e, m)
                  | Inr None \<Rightarrow> (Inr (Some c), m)
                  | Inr (Some c') \<Rightarrow> (Inr (Some c'), put c' m)))"

definition guarded :: "word \<Rightarrow> fault \<Rightarrow> (run_record \<Rightarrow> run_record) \<Rightarrow> run_record \<Rightarrow> fault + run_record option" where
  "guarded expected missing update c =
     (if run_verdict c = Some (word_text expected) then Inr (Some (update c)) else Inl missing)"

fun spec_perform ::
  "'w world_scheme \<Rightarrow> registry_op \<Rightarrow> registry \<Rightarrow> (fault + run_record option) \<times> registry" where
  "spec_perform w (Record run) m = (Inr None, put run m)"
| "spec_perform w (Resolve run st code v) m =
     spec_update run (unregistered run)
       (\<lambda>c. Inr (if reaches w (run_verdict c) v
                 then Some (c\<lparr>run_state := st, run_exit_code := code, run_verdict := Some v\<rparr>)
                 else None)) m"
| "spec_perform w (Report run v) m =
     (case spec_update run (unregistered run) (\<lambda>c. Inr (Some (c\<lparr>run_reported := Some v\<rparr>))) m of
        (Inl e, m') \<Rightarrow> (Inl e, m') | (Inr _, m') \<Rightarrow> (Inr None, m'))"
| "spec_perform w (Delivery run status) m =
     spec_update run (unregistered run) (\<lambda>c. Inr (Some (c\<lparr>run_evidence := status\<rparr>))) m"
| "spec_perform w (Forget run) m = (Inr None, m(identity run := None))"
| "spec_perform w (Relet run granted) m =
     spec_update run (unregistered run) (\<lambda>c. Inr (Some (c\<lparr>run_lease := Some granted\<rparr>))) m"
| "spec_perform w (Bind run handle) m =
     (case m (identity run) of
        None \<Rightarrow> (Inl (bind_missing run), m)
      | Some c \<Rightarrow>
          if run_verdict c = Some (word_text SUBMITTING)
          then (Inr (Some (bound_to c handle)), put (bound_to c handle) (m(identity c := None)))
          else (Inl (bind_missing run), m))"
| "spec_perform w (Prepared run v granted) m =
     (if \<not> reaches w (Some (word_text PREPARED)) v
      then (Inl (ValueError (''invalid prepared transition to '' @ repr_text v)), m)
      else let missing = ValueError (''creation '' @ repr_text (run_creation run) @
                 '' is no longer prepared; do not resend it'')
           in spec_update run missing
                (guarded PREPARED missing
                   (\<lambda>c. c\<lparr>run_state := Some v, run_verdict := Some v,
                          run_reported := (if settled_text v then Some v else None),
                          run_lease := granted\<rparr>)) m)"
| "spec_perform w (Reopen run) m =
     (let missing = ValueError (''creation '' @ repr_text (run_creation run) @
            '' is not submitting; nothing to reopen'')
      in spec_update run missing
           (guarded SUBMITTING missing
              (\<lambda>c. c\<lparr>run_state := Some (word_text PREPARED), run_verdict := Some (word_text PREPARED),
                     run_lease := None\<rparr>)) m)"
| "spec_perform w (Reserve run) m =
     (if \<exists>other \<in> ran m.
          (run_target run \<noteq> [] \<longrightarrow> run_target other = run_target run) \<and> pending_twin run other
      then (Inl (ValueError (''an unresolved creation already exists for '' @
              repr_text (label run) @ '' on '' @ run_target run @
              ''; inspect its job record and provider label before retrying'')), m)
      else (Inr None, put run m))"

lemma registry_op_refines:
  assumes "keyed s"
  shows "keyed (snd (perform w op s)) \<and>
    spec_perform w op (at_identity s) = (fst (perform w op s), at_identity (snd (perform w op s)))"
proof (cases op)
  case (Bind run handle)
  show ?thesis
  proof (cases "\<exists>c. at_identity s (identity run) = Some c \<and> run_verdict c = Some (word_text SUBMITTING)")
    case True
    then obtain c where c: "at_identity s (identity run) = Some c"
      "run_verdict c = Some (word_text SUBMITTING)" by blast
    from c obtain t where "bind w run handle s = (Inr (bound_to c handle), t)"
      "at_identity t = (at_identity s)(identity c := None,
           identity (bound_to c handle) := Some (bound_to c handle))"
      "keyed t \<longleftrightarrow> keyed s" by (rule bind_apply)
    with c assms Bind show ?thesis by (simp add: put_def)
  next
    case False
    then have "bind w run handle s = (Inl (bind_missing run), s)" by (intro bind_apply_missing) auto
    with False assms Bind show ?thesis by (auto split: option.split)
  qed
next
  case (Reserve run)
  then show ?thesis using assms by (auto simp: reserve_apply put_def)
qed (use assms in \<open>simp_all add: record_run_apply forget_apply resolve_def report_def delivery_def
      prepared_def reopen_def change_apply relet_apply transition_apply spec_update_def guarded_def
      put_def andThen_apply [of "change _ _ _"] Let_def split: option.split\<close>)

lemma perform_all_keyed: "keyed s \<Longrightarrow> keyed (perform_all w ops s)"
  by (induction ops arbitrary: s) (simp_all add: registry_op_refines)

end
