(* ===== verification/Registry_Properties.thy ===== *)
theory Registry_Properties
  imports Registry
begin

text \<open>
  What the registry promises, over any interleaving of its operations: it refines a map, its log
  only grows, a settled verdict stays, an identical creation is reserved once and claimed once, a
  lookup answers the run it names, and a run leaves the tracked listing exactly when its settled
  verdict was reported.
\<close>

section \<open>Preorders the registry follows\<close>

text \<open>The log only grows.\<close>

definition log_grows :: "'s lake_scheme \<Rightarrow> 's lake_scheme \<Rightarrow> bool" where
  "log_grows s t \<longleftrightarrow> prefix (runs_log s) (runs_log t) \<and> prefix (host_facts s) (host_facts t)"

interpretation grows: step_preorder log_grows
  by unfold_locales (auto simp: log_grows_def intro: prefix_order.trans)

text \<open>A settled verdict under the identity \<open>k\<close> stays what it is.\<close>

definition keeps_settled :: "identity \<Rightarrow> 's lake_scheme \<Rightarrow> 's lake_scheme \<Rightarrow> bool" where
  "keeps_settled k s t \<longleftrightarrow>
     (keyed s \<longrightarrow> keyed t \<and>
        (\<forall>c. at_identity s k = Some c \<and> settled_opt (run_verdict c) \<longrightarrow>
           (\<exists>d. at_identity t k = Some d \<and> run_verdict d = run_verdict c)))"

interpretation settled_kept: step_preorder "keeps_settled k" for k
  by unfold_locales (simp_all add: keeps_settled_def, metis)

text \<open>
  The operations that do not replace the record under \<open>k\<close> wholesale: recording, forgetting,
  reserving, or binding a creation to that very identity is excluded.
\<close>

fun spares :: "identity \<Rightarrow> registry_op \<Rightarrow> bool" where
  "spares k (Record run) = (identity run \<noteq> k)"
| "spares k (Forget run) = (identity run \<noteq> k)"
| "spares k (Reserve run) = (identity run \<noteq> k)"
| "spares k (Bind run handle) = ((run_target run, handle, run_submitted_at run) \<noteq> k)"
| "spares k _ = True"

lemma grows_primitive [steps]:
  "along log_grows (now_text w)"
  "along log_grows (append_runs rows)"
  "along log_grows (append_hosts facts)"
  "along log_grows (row_of w run d)"
  by (simp_all add: along_def log_grows_def append_runs_def append_hosts_def row_of_def andThen_apply)

lemma grows_operations [steps]:
  "along log_grows (transition w run expected update missing)"
  "along log_grows (change w run updates)"
  "along log_grows (relet w run granted)"
  "along log_grows (bind w run handle)"
  "along log_grows (reserve w run)"
  "along log_grows (record_run w run)"
  "along log_grows (forget w run)"
  unfolding transition_def change_def relet_def bind_def reserve_def record_run_def forget_def Let_def
  by (intro steps)+

lemma grows_derived [steps]:
  "along log_grows (prepared w run v granted)"
  "along log_grows (reopen w run)"
  "along log_grows (report w run v)"
  "along log_grows (resolve w run st code v)"
  "along log_grows (delivery w run status)"
  unfolding prepared_def reopen_def report_def resolve_def delivery_def
  by (intro steps)+

lemma grows_hosts [steps]:
  "along log_grows (recorded alias)"
  "along log_grows (hosts_drop w alias)"
  "along log_grows (save w setup)"
  "along log_grows (synced w alias)"
  unfolding recorded_def hosts_drop_def save_def synced_def host_row_of_def Let_def
  by (intro steps)+

lemma grows_perform [steps]: "along log_grows (perform w op)"
  by (cases op) (auto simp: answering_def intro!: steps)

lemma reaches_settled:
  assumes "lifecycle_law w" and "settled_opt current" and "reaches w current v"
  shows "current = Some v"
proof -
  from assms(2) obtain cw where cw: "current = Some (word_text cw)" "settled cw"
    by (auto simp: settled_opt_iff)
  have "transitions = word_moves" by (simp add: transitions_def)
  with settled_moves_nowhere [OF cw(2)] have "\<not> lifecycle_allowed w transitions cw vw" for vw
    using assms(1) by (auto simp: lifecycle_law_def moves_to_def)
  with assms(3) cw show ?thesis by (auto simp: reaches_def split: option.splits)
qed

lemma set_field_other [simp]: "identity (set_field f c) = identity c"
  by (cases f) (simp_all add: identity_def)

lemma identity_fold_set_field [simp]: "identity (fold set_field updates c) = identity c"
  by (induction updates arbitrary: c) simp_all

lemma identity_updates [simp]:
  "identity (c\<lparr>run_lease := l\<rparr>) = identity c"
  "identity (c\<lparr>run_verdict := v\<rparr>) = identity c"
  "identity (c\<lparr>run_state := st\<rparr>) = identity c"
  "identity (c\<lparr>run_reported := r\<rparr>) = identity c"
  "identity (c\<lparr>run_evidence := e\<rparr>) = identity c"
  "identity (c\<lparr>run_exit_code := x\<rparr>) = identity c"
  by (simp_all add: identity_def)

lemma settled_text_pending [simp]: "\<not> settled_text ''prepared''" "\<not> settled_text ''submitting''"
  using settled_text_word [of PREPARED] settled_text_word [of SUBMITTING] by simp_all

text \<open>
  One specified operation that spares \<open>k\<close> keeps a settled verdict there; the log follows by
  refinement.
\<close>

lemma spec_keeps_settled:
  assumes "lifecycle_law w" and "spares k op" and c: "m k = Some c" "settled_opt (run_verdict c)"
    and key: "\<And>k c. m k = Some c \<Longrightarrow> identity c = k"
  shows "\<exists>d. snd (spec_perform w op m) k = Some d \<and> run_verdict d = run_verdict c"
proof -
  have same: "x = c" if "m (identity run) = Some x" "identity x = k" for x run
    using that c(1) key [OF that(1)] by simp
  show ?thesis
  proof (cases op)
  case (Resolve run st code v)
  with same show ?thesis
    using c reaches_settled [OF assms(1) c(2), of v]
    by (fastforce simp: spec_update_def put_def split: option.split)
next
  case (Bind run handle)
  have new: "identity (bound_to c' handle) = (run_target run, handle, run_submitted_at run)"
    if "m (identity run) = Some c'" for c'
    using key [OF that] by (simp add: identity_def bound_to_def)
  from c have "run_verdict c \<noteq> Some ''submitting''" by auto
  then have gone: "identity x \<noteq> k"
    if "m (identity run) = Some x" "run_verdict x = Some ''submitting''" for x
    using same that by blast
  show ?thesis
  proof (cases "m (identity run)")
    case (Some x)
    then show ?thesis
      using c(1) Bind assms(2) new [OF Some] gone [OF Some] by (auto simp: put_def)
  qed (use c Bind in simp)
  qed (use c assms(2) same in \<open>fastforce simp: spec_update_def guarded_def put_def Let_def
         split: option.split\<close>)+
qed

lemma settled_kept_perform:
  assumes "lifecycle_law w" and "spares k op"
  shows "along (keeps_settled k) (perform w op)"
proof (rule alongI, unfold keeps_settled_def, intro impI conjI allI)
  fix s :: "'s lake_scheme" and c
  assume keyed: "keyed s"
  note ref = registry_op_refines [OF keyed, of w op]
  then show "keyed (snd (perform w op s))" by blast
  assume "at_identity s k = Some c \<and> settled_opt (run_verdict c)"
  with spec_keeps_settled [OF assms, of "at_identity s" c] at_identity_key [OF keyed] ref
  show "\<exists>d. at_identity (snd (perform w op s)) k = Some d \<and> run_verdict d = run_verdict c"
    by auto
qed


section \<open>An unresolved creation is unique\<close>

definition pending_opt :: "string option \<Rightarrow> bool" where
  "pending_opt v \<longleftrightarrow> v \<in> {Some (word_text PREPARED), Some (word_text SUBMITTING)}"

text \<open>Two unresolved creations of one request; a registry holds at most one per request.\<close>

definition twins :: "run_record \<Rightarrow> run_record \<Rightarrow> bool" where
  "twins c d \<longleftrightarrow> pending_opt (run_verdict c) \<and> pending_opt (run_verdict d) \<and>
     run_target c = run_target d \<and> run_script c = run_script d \<and> run_digest c = run_digest d"

definition single_pending :: "registry \<Rightarrow> bool" where
  "single_pending m \<longleftrightarrow>
     (\<forall>k l c d. m k = Some c \<longrightarrow> m l = Some d \<longrightarrow> twins c d \<longrightarrow> k = l)"

text \<open>
  How the processes use the registry: a pending verdict is entered through \<open>reserve\<close>, on a target
  with a name, and left or re-entered through \<open>prepared\<close>, \<open>reopen\<close> and \<open>bind\<close>.
\<close>

fun disciplined :: "registry_op \<Rightarrow> bool" where
  "disciplined (Record run) = (\<not> pending_opt (run_verdict run))"
| "disciplined (Resolve run st code v) = (\<not> pending_opt (Some v))"
| "disciplined (Reserve run) = (run_target run \<noteq> [])"
| "disciplined _ = True"

inductive registry_step :: "'w world_scheme \<Rightarrow> 's lake_scheme \<Rightarrow> 's lake_scheme \<Rightarrow> bool"
  for w :: "'w world_scheme" where
  step: "disciplined op \<Longrightarrow> perform w op s = (r, t) \<Longrightarrow> registry_step w s t"

lemma twins_sym: "twins c d \<Longrightarrow> twins d c"
  by (simp add: twins_def)

lemma twins_trans: "twins c d \<Longrightarrow> twins d e \<Longrightarrow> twins c e"
  by (simp add: twins_def)

lemma single_pendingD: "single_pending m \<Longrightarrow> m k = Some c \<Longrightarrow> m l = Some d \<Longrightarrow> twins c d \<Longrightarrow> k = l"
  unfolding single_pending_def by blast

lemma single_pending_put:
  assumes m: "single_pending m"
    and c: "(\<exists>d. m (identity c) = Some d \<and> (twins c c \<longrightarrow> twins d c)) \<or> (\<forall>d \<in> ran m. \<not> twins d c)"
  shows "single_pending (put c m)"
proof -
  have fresh: "l = identity c" if l: "m l = Some d" and d: "twins d c" for l d
  proof -
    have "twins c c" using d by (simp add: twins_def)
    moreover have "d \<in> ran m" using l by (rule ranI)
    ultimately obtain e where "m (identity c) = Some e" "twins e c" using c d by blast
    with l d show ?thesis by (blast intro: single_pendingD [OF m] twins_trans twins_sym)
  qed
  show ?thesis
    unfolding single_pending_def
  proof (intro allI impI)
    fix k l e f
    assume puts: "put c m k = Some e" "put c m l = Some f" and ef: "twins e f"
    have e: "k = identity c \<and> e = c \<or> m k = Some e" and f: "l = identity c \<and> f = c \<or> m l = Some f"
      using puts by (auto simp: put_def split: if_splits)
    from e f show "k = l"
      using fresh ef single_pendingD [OF m _ _ ef] twins_sym [OF ef] by blast
  qed
qed

lemma single_pending_drop: "single_pending m \<Longrightarrow> single_pending (m(k := None))"
  by (auto simp: single_pending_def split: if_splits)

text \<open>A record moved in place is a twin of what it replaces, unless it left the pending verdicts.\<close>

lemma single_pending_moved:
  assumes "single_pending m" and "\<And>k c. m k = Some c \<Longrightarrow> identity c = k" and "m k = Some d"
    and "identity c = identity d" "run_script c = run_script d" "run_digest c = run_digest d"
    and "pending_opt (run_verdict c) \<Longrightarrow> pending_opt (run_verdict d)"
  shows "single_pending (put c m)"
proof (rule single_pending_put [OF assms(1)])
  from assms(2-4) have "m (identity c) = Some d" by auto
  moreover have "twins d c" if "twins c c"
    using that assms(4-) by (simp add: twins_def identity_def)
  ultimately show "(\<exists>d. m (identity c) = Some d \<and> (twins c c \<longrightarrow> twins d c)) \<or>
      (\<forall>d \<in> ran m. \<not> twins d c)" by blast
qed

lemma single_pending_settle:
  assumes "single_pending m" and "\<not> pending_opt (run_verdict c)"
  shows "single_pending (put c m)"
  using assms(2) by (intro single_pending_put [OF assms(1)]) (simp add: twins_def)

lemma spec_single_pending:
  assumes m: "single_pending m" and key: "\<And>k c. m k = Some c \<Longrightarrow> identity c = k"
    and op: "disciplined op"
  shows "single_pending (snd (spec_perform w op m))"
proof -
  note moved = single_pending_moved [OF m key]
  have pend: "pending_opt (Some ''prepared'')" "pending_opt (Some ''submitting'')"
    by (simp_all add: pending_opt_def)
  show ?thesis
  proof (cases op)
    case (Bind run handle)
    have "\<not> pending_opt (Some ''queued'')" by (simp add: pending_opt_def)
    then have "single_pending (put (bound_to c handle) (m(identity c := None)))" for c
      using m by (intro single_pending_settle single_pending_drop) (simp_all add: bound_to_def)
    with Bind m show ?thesis by (simp split: option.split)
  next
    case (Reserve run)
    show ?thesis
    proof (cases "\<exists>d\<in>ran m. twins d run")
      case True
      then have "\<exists>other\<in>ran m. (run_target run \<noteq> [] \<longrightarrow> run_target other = run_target run) \<and>
          pending_twin run other"
        by (auto simp: twins_def pending_twin_def pending_opt_def)
      with Reserve m show ?thesis by (simp del: bex_simps)
    next
      case False
      with Reserve m show ?thesis by (auto intro: single_pending_put)
    qed
  next
    case (Record run)
    with m op show ?thesis by (simp add: single_pending_settle)
  next
    case (Resolve run st code v)
    with m op show ?thesis by (auto simp: spec_update_def split: option.split intro!: single_pending_settle)
  qed (use m pend in \<open>auto simp: spec_update_def guarded_def Let_def single_pending_drop
       split: option.split intro: moved\<close>)
qed

lemma registry_step_single_pending:
  assumes "registry_step w s t" and "keyed s" and "single_pending (at_identity s)"
  shows "keyed t \<and> single_pending (at_identity t)"
  using assms
proof cases
  case (step op r)
  with registry_op_refines [OF assms(2), of w op]
    spec_single_pending [OF assms(3) at_identity_key [OF assms(2)] step(1), of w]
  show ?thesis by auto
qed


section \<open>Lookups and listings\<close>

definition newer_first :: "run_record \<Rightarrow> run_record \<Rightarrow> bool" where
  "newer_first a b \<longleftrightarrow> run_submitted_at b \<le> run_submitted_at a"

lemma sorted_desc_records:
  assumes "keyed s" and "set rows \<subseteq> set (runs s)"
  shows "sorted_wrt newer_first (map row_record (rev (sort_key row_submitted_at rows)))"
proof -
  have stamp: "row_submitted_at r = run_submitted_at (row_record r)" if "r \<in> set rows" for r
    using assms(1) latest_rows_subset [of row_key row_dropped "runs_log s"] that assms(2)
    by (auto simp: keyed_def list_all_iff runs_def row_key_def identity_def)
  have "sorted_wrt (\<lambda>a b. row_submitted_at b \<le> row_submitted_at a) (rev (sort_key row_submitted_at rows))"
    using sorted_sort_key [of row_submitted_at rows] by (simp add: sorted_wrt_rev sorted_map)
  then show ?thesis
    unfolding sorted_wrt_map
    by (rule sorted_wrt_mono_rel [rotated]) (auto simp: newer_first_def stamp)
qed

lemma on_target_newest_first: "keyed s \<Longrightarrow> sorted_wrt newer_first (on_target target s)"
  unfolding on_target_def newest_def
  by (auto split: option.split intro!: sorted_desc_records [simplified])

lemma newest_first: "keyed s \<Longrightarrow> sorted_wrt newer_first (newest s)"
  unfolding newest_def by (rule sorted_desc_records [OF _ subset_refl])

lemma head_newest: "sorted_wrt newer_first (r # rs) \<Longrightarrow> x \<in> set (r # rs) \<Longrightarrow> run_submitted_at x \<le> run_submitted_at r"
  by (auto simp: newer_first_def)

lemma sorted_filter_head:
  "sorted_wrt newer_first every \<Longrightarrow> filter P every = r # rs \<Longrightarrow>
     r \<in> set every \<and> P r \<and> (\<forall>x \<in> set every. P x \<longrightarrow> run_submitted_at x \<le> run_submitted_at r)"
proof (intro conjI ballI impI)
  assume sorted: "sorted_wrt newer_first every" and eq: "filter P every = r # rs"
  have "r \<in> set (filter P every)" by (simp add: eq)
  then show "r \<in> set every" and "P r" by simp_all
  fix x assume "x \<in> set every" "P x"
  then have "x \<in> set (filter P every)" by simp
  with sorted_wrt_filter [OF sorted, of P] show "run_submitted_at x \<le> run_submitted_at r"
    unfolding eq by (rule head_newest)
qed

lemma last_by_stamp:
  fixes names :: "run_record list"
  shows "rev (sort_key run_submitted_at names) = r # rs \<Longrightarrow>
     r \<in> set names \<and> (\<forall>x \<in> set names. run_submitted_at x \<le> run_submitted_at r)"
proof -
  assume eq: "rev (sort_key run_submitted_at names) = r # rs"
  have "sorted_wrt newer_first (r # rs)"
    using sorted_sort_key [of run_submitted_at names]
    by (simp add: eq [symmetric] sorted_wrt_rev sorted_map newer_first_def)
  then have "\<forall>x \<in> set (r # rs). run_submitted_at x \<le> run_submitted_at r" by (blast intro: head_newest)
  moreover have "set (r # rs) = set names" by (simp flip: eq)
  ultimately show ?thesis by auto
qed

lemma one_candidate:
  assumes "\<not> 1 < length (sort (remdups (map f xs)))" and "x \<in> set xs" and "y \<in> set xs"
  shows "f x = f y"
proof -
  have "card (f ` set xs) \<le> Suc 0" using assms(1) by (simp add: length_remdups_card_conv)
  from iffD1 [OF card_le_Suc0_iff_eq [OF finite_imageI [OF finite_set]] this] assms(2,3)
  show ?thesis by blast
qed


section \<open>Host records\<close>

text \<open>Every row that still validates is filed under the alias its setup names.\<close>

definition hosts_keyed :: "'s lake_scheme \<Rightarrow> bool" where
  "hosts_keyed s \<longleftrightarrow>
     list_all (\<lambda>row. case hr_facts row of None \<Rightarrow> True | Some setup \<Rightarrow> hs_host setup = hr_alias row)
       (host_facts s)"

definition host_at :: "'s lake_scheme \<Rightarrow> string \<Rightarrow> host_setup option option" where
  "host_at s alias = map_option hr_facts (lookup_row hr_alias (hosts s) alias)"

lemma host_at_append:
  "host_at (s\<lparr>lk_ticks := n, host_facts := host_facts s @ [row]\<rparr>) =
     (host_at s)(hr_alias row := (if hr_dropped row then None else Some (hr_facts row)))"
  by (rule ext) (simp add: host_at_def hosts_def hosts_view.lookup_snoc)

lemma host_at_key: "hosts_keyed s \<Longrightarrow> host_at s alias = Some (Some setup) \<Longrightarrow> hs_host setup = alias"
  by (fastforce simp: host_at_def hosts_def hosts_keyed_def list_all_iff split: option.splits
      dest!: hosts_view.lookup_in_log)

definition host_answer :: "string \<Rightarrow> host_setup option option \<Rightarrow> fault + host_setup" where
  "host_answer alias held =
     (case held of
        Some (Some setup) \<Rightarrow> Inr setup
      | Some None \<Rightarrow> Inl (LookupError (''host '' @ repr_text alias @
          '' was set up by an older release; run `mb host setup '' @ alias @ ''`''))
      | None \<Rightarrow> Inl (LookupError (''host '' @ repr_text alias @
          '' has never been set up; run `mb host setup '' @ alias @ ''`'')))"

lemma recorded_apply: "recorded alias s = (host_answer alias (host_at s alias), s)"
  by (simp add: recorded_def host_at_def host_answer_def andThen_apply split: option.split)

lemma host_answer_simps [simp]:
  "host_answer alias (Some (Some setup)) = Inr setup"
  "host_answer alias held = Inr setup \<longleftrightarrow> held = Some (Some setup)"
  "\<exists>m. host_answer alias None = Inl (LookupError m)"
  by (simp_all add: host_answer_def split: option.split)

lemma save_apply:
  "save w setup s =
     (let stamped = setup\<lparr>hs_onboarded_at := now_at w (lk_ticks s)\<rparr> in
      (Inr stamped, s\<lparr>lk_ticks := Suc (Suc (lk_ticks s)), host_facts := host_facts s @
         [\<lparr>hr_ts = now_at w (Suc (lk_ticks s)), hr_alias = hs_host setup,
           hr_probed_at = Some (now_at w (lk_ticks s)), hr_facts = Some stamped, hr_dropped = False\<rparr>]\<rparr>))"
  by (simp add: save_def host_row_of_def append_hosts_def comp_simps Let_def)

lemma hosts_drop_apply:
  "hosts_drop w alias s =
     (Inr (), s\<lparr>lk_ticks := Suc (lk_ticks s), host_facts := host_facts s @
        [\<lparr>hr_ts = now_at w (lk_ticks s), hr_alias = alias, hr_probed_at = None, hr_facts = None,
          hr_dropped = True\<rparr>]\<rparr>)"
  by (simp add: hosts_drop_def append_hosts_def comp_simps)

lemma synced_apply:
  "synced w alias s =
     (case host_at s alias of
        Some (Some held) \<Rightarrow>
          (Inr (), s\<lparr>lk_ticks := Suc (Suc (lk_ticks s)), host_facts := host_facts s @
             [\<lparr>hr_ts = now_at w (Suc (lk_ticks s)), hr_alias = hs_host held,
               hr_probed_at = Some (hs_onboarded_at held),
               hr_facts = Some (held\<lparr>hs_synced_at := now_at w (lk_ticks s)\<rparr>), hr_dropped = False\<rparr>]\<rparr>)
      | _ \<Rightarrow> (Inr (), s))"
  by (simp add: synced_def recorded_apply host_answer_def host_row_of_def append_hosts_def comp_simps
      split: option.split)


section \<open>Sample inputs\<close>

text \<open>A lifecycle that follows its table, a clock that counts, and a registry of one run.\<close>

definition table_allows :: "(word, word list) dict \<Rightarrow> word \<Rightarrow> word \<Rightarrow> bool" where
  "table_allows table current target =
     (case map_of table current of None \<Rightarrow> False | Some vs \<Rightarrow> target \<in> set vs)"

definition sample_world :: world where
  "sample_world = \<lparr>lifecycle_allowed = table_allows, now_at = nat_text\<rparr>"

definition sample_run :: run_record where
  "sample_run = \<lparr>run_handle = ''7'', run_target = ''gold'', run_kind = ''ssh'',
     run_script = ''train.py'', run_args = [], run_git_sha = [], run_dirty = None,
     run_submitted_at = ''2026-10-01'', run_fetch_path = None, run_name = [], run_node = [],
     run_source = [], run_commit = [], run_digest = [], run_state = None, run_exit_code = None,
     run_verdict = None, run_reported = None, run_evidence = [], run_creation = [],
     run_request = None, run_lease = None, run_reason = [], run_project = []\<rparr>"

definition empty_lake :: lake where
  "empty_lake = \<lparr>lk_ticks = 0, runs_log = [], host_facts = []\<rparr>"

definition sample_at :: "word \<Rightarrow> lake" where
  "sample_at v = snd (record_run sample_world (sample_run\<lparr>run_verdict := Some (word_text v)\<rparr>) empty_lake)"

definition sample_setup :: host_setup where
  "sample_setup = \<lparr>hs_host = ''gold'', hs_root = ''/w'', hs_env = ''default'', hs_activate = [],
     hs_installer = [], hs_rejected = [], hs_tool = [], hs_pixi = [], hs_capabilities = None,
     hs_hardware = None, hs_onboarded_at = [], hs_synced_at = [], hs_digest = [],
     hs_dotfiles = False, hs_requires = []\<rparr>"

lemma sample_law [simp]: "lifecycle_law sample_world"
  by (simp add: lifecycle_law_def sample_world_def table_allows_def split: option.split)

lemma sample_keyed [simp]: "keyed empty_lake" "keyed (sample_at v)"
  by (simp_all add: sample_at_def record_run_apply) (simp_all add: keyed_def empty_lake_def)

lemma sample_identity [simp]:
  "identity (sample_run\<lparr>run_verdict := v\<rparr>) = (''gold'', ''7'', ''2026-10-01'')"
  "identity sample_run = (''gold'', ''7'', ''2026-10-01'')"
  by (simp_all add: identity_def sample_run_def)

lemma empty_lake_at [simp]: "at_identity empty_lake = Map.empty"
  by (rule ext) (simp add: at_identity_def runs_def empty_lake_def lookup_row_def)

lemma sample_at_identity [simp]:
  "at_identity (sample_at v) =
     [(''gold'', ''7'', ''2026-10-01'') \<mapsto> sample_run\<lparr>run_verdict := Some (word_text v)\<rparr>]"
  by (simp add: sample_at_def record_run_apply)


section \<open>Properties\<close>

text \<open>
  C1. The registry log implements a map from run identities to records: whatever operation runs
  on a log whose rows carry the identity of their record, it answers (or raises) exactly what the
  specification on the map of current records answers, leaves the log in that form, leaves every
  earlier row in place, and the current records it leaves are the map the specification leaves.
\<close>

theorem registry_refines_map:
  assumes "keyed s" and "perform w op s = (r, t)"
  shows "keyed t \<and> prefix (runs_log s) (runs_log t) \<and>
         spec_perform w op (at_identity s) = (r, at_identity t)"
  using registry_op_refines [OF assms(1), of w op] alongD [OF grows_perform assms(2)] assms(2)
  by (simp add: log_grows_def)

text \<open>
  C2. A settled verdict is never replaced: along any interleaving of registry operations that do
  not record, reserve, bind or forget that very identity anew, a run recorded at a settled verdict
  keeps it, however late or stale the reports that arrive.
\<close>

theorem settled_verdict_stays:
  fixes s :: "'s lake_scheme"
  assumes "lifecycle_law w" and "keyed s" and "list_all (spares k) ops"
    and "at_identity s k = Some c" and "settled_opt (run_verdict c)"
  shows "\<exists>d. at_identity (perform_all w ops s) k = Some d \<and> run_verdict d = run_verdict c"
proof -
  have "keeps_settled k s (perform_all w ops s)" using assms(3)
  proof (induction ops arbitrary: s)
    case Nil
    show ?case by (simp add: settled_kept.R_refl)
  next
    case (Cons op ops)
    then have "spares k op" and rest: "keeps_settled k t (perform_all w ops t)"
      for t :: "'s lake_scheme" by simp_all
    from settled_kept_perform [OF assms(1) this(1)]
    have "along (keeps_settled k) (perform w op :: ('s lake_scheme, _) comp)" .
    then have "keeps_settled k s (snd (perform w op s))" by (simp add: along_def)
    from settled_kept.R_trans [OF this rest] show ?case by simp
  qed
  with assms show ?thesis by (simp add: keeps_settled_def)
qed


theorem registry_refines_map_witness:
  "at_identity (snd (perform sample_world (Resolve sample_run (Some ''F'') (Some 0) ''ok'') (sample_at QUEUED))) =
     [(''gold'', ''7'', ''2026-10-01'') \<mapsto>
        sample_run\<lparr>run_state := Some ''F'', run_exit_code := Some 0, run_verdict := Some ''ok''\<rparr>]"
proof -
  let ?op = "Resolve sample_run (Some ''F'') (Some 0) ''ok''"
  let ?r = "perform sample_world ?op (sample_at QUEUED)"
  have "reaches sample_world (Some ''queued'') ''ok''" by code_simp
  moreover have "?r = (fst ?r, snd ?r)" by (rule surjective_pairing)
  from registry_refines_map [OF sample_keyed(2) this]
  have "spec_perform sample_world ?op (at_identity (sample_at QUEUED)) = (fst ?r, at_identity (snd ?r))"
    by blast
  ultimately show ?thesis
    by (simp del: perform.simps add: spec_update_def put_def sample_run_def identity_def)
qed

theorem settled_verdict_stays_witness:
  "\<exists>d. at_identity (perform_all sample_world
          [Resolve sample_run None None ''failed'', Report sample_run ''ok'',
           Delivery sample_run ''verified''] (sample_at OK)) (''gold'', ''7'', ''2026-10-01'') = Some d
       \<and> run_verdict d = Some ''ok''"
  using settled_verdict_stays [OF sample_law sample_keyed(2), of "(''gold'', ''7'', ''2026-10-01'')"
      "[Resolve sample_run None None ''failed'', Report sample_run ''ok'', Delivery sample_run ''verified'']"
      OK "sample_run\<lparr>run_verdict := Some ''ok''\<rparr>"]
    settled_text_word [of OK]
  by (simp del: perform_all.simps)

text \<open>
  C26. Identical creations cannot allocate twice: from a registry that holds at most one unresolved
  creation per target, script and digest, whatever sequence of registry operations runs (a pending
  verdict being entered only through \<open>reserve\<close> on a named target), it still holds at most one; and
  while one is held, reserving the same request again raises and writes nothing.
\<close>

theorem creation_reserved_once:
  assumes "(registry_step w)\<^sup>*\<^sup>* s t" and "keyed s" and "single_pending (at_identity s)"
  shows "single_pending (at_identity t) \<and>
    (\<forall>k c run. at_identity t k = Some c \<and> twins c run \<longrightarrow> (\<exists>m. reserve w run t = (Inl (ValueError m), t)))"
proof -
  have t: "keyed t \<and> single_pending (at_identity t)"
    using assms(1)
  proof (induction rule: rtranclp_induct)
    case base
    show ?case using assms(2,3) by simp
  next
    case (step t u)
    then show ?case by (blast dest: registry_step_single_pending)
  qed
  have "\<exists>m. reserve w run t = (Inl (ValueError m), t)"
    if c: "at_identity t k = Some c" "twins c run" for k c run
  proof -
    have "c \<in> ran (at_identity t)" using c(1) by (rule ranI)
    moreover have "pending_twin run c" and "run_target c = run_target run"
      using c(2) by (auto simp: twins_def pending_twin_def pending_opt_def)
    ultimately show ?thesis using t by (auto simp: reserve_apply)
  qed
  with t show ?thesis by blast
qed

theorem creation_reserved_once_witness:
  "registry_step sample_world empty_lake (sample_at PREPARED) \<and>
   (\<exists>m. reserve sample_world (sample_run\<lparr>run_handle := ''8'', run_verdict := Some ''prepared''\<rparr>)
          (sample_at PREPARED) = (Inl (ValueError m), sample_at PREPARED))"
proof -
  let ?run = "sample_run\<lparr>run_verdict := Some ''prepared''\<rparr>"
  have "perform sample_world (Reserve ?run) empty_lake = (Inr None, sample_at PREPARED)"
    by (simp add: reserve_apply sample_at_def record_run_apply)
  then have step: "registry_step sample_world empty_lake (sample_at PREPARED)"
    by (intro registry_step.step [of "Reserve ?run"]) (simp_all add: sample_run_def)
  have "twins ?run (sample_run\<lparr>run_handle := ''8'', run_verdict := Some ''prepared''\<rparr>)"
    by (simp add: twins_def pending_opt_def sample_run_def)
  then have twin: "at_identity (sample_at PREPARED) (''gold'', ''7'', ''2026-10-01'') = Some ?run \<and>
      twins ?run (sample_run\<lparr>run_handle := ''8'', run_verdict := Some ''prepared''\<rparr>)" by simp
  have none: "single_pending (at_identity empty_lake)" by (simp add: single_pending_def)
  have many: "(registry_step sample_world)\<^sup>*\<^sup>* empty_lake (sample_at PREPARED)"
    using step by (rule r_into_rtranclp)
  from creation_reserved_once [OF many sample_keyed(1) none] twin step show ?thesis by blast
qed

text \<open>
  A prepared creation is claimed once, so that cancellation and creation cannot both win: when
  \<open>prepared\<close> moved a creation on to another verdict, the record under its identity has that verdict,
  and a second claim of it raises and writes nothing, until it is reopened.
\<close>

theorem prepared_claimed_once:
  assumes "keyed s" and "prepared w run v granted s = (Inr claimed, t)" and "v \<noteq> word_text PREPARED"
  shows "at_identity t (identity run) = Some claimed \<and> run_verdict claimed = Some v \<and>
    run_lease claimed = granted \<and>
    (\<exists>m. prepared w run v' granted' t = (Inl (ValueError m), t))"
proof -
  from assms(2) obtain c where c: "at_identity s (identity run) = Some c"
    and claimed: "claimed = c\<lparr>run_state := Some v, run_verdict := Some v,
      run_reported := (if settled_text v then Some v else None), run_lease := granted\<rparr>"
    and t: "t = logged w claimed False s"
    by (auto simp: prepared_def transition_apply split: if_splits option.splits)
  have "identity claimed = identity run"
    using at_identity_key [OF assms(1) c] by (simp add: claimed identity_def)
  then have at: "at_identity t (identity run) = Some claimed" by (simp add: t)
  with assms(3) have "\<exists>m. prepared w run v' granted' t = (Inl (ValueError m), t)"
    by (simp add: prepared_def transition_apply claimed)
  with at show ?thesis by (simp add: claimed)
qed

theorem prepared_claimed_once_witness:
  "\<exists>m t. snd (prepared sample_world sample_run ''cancelled'' None (sample_at PREPARED)) = t \<and>
     prepared sample_world sample_run ''submitting'' None t = (Inl (ValueError m), t)"
proof -
  have "reaches sample_world (Some ''prepared'') ''cancelled''" by code_simp
  then have "\<exists>c t. prepared sample_world sample_run ''cancelled'' None (sample_at PREPARED) = (Inr c, t)"
    by (simp add: prepared_def transition_apply)
  then obtain c t where
    ok: "prepared sample_world sample_run ''cancelled'' None (sample_at PREPARED) = (Inr c, t)" by blast
  with prepared_claimed_once [OF sample_keyed(2) ok, of "''submitting''" None] show ?thesis by auto
qed


lemma run_named_state: "snd (run_named h tg s) = s"
  by (simp add: run_named_def andThen_apply Let_def split: list.split)

text \<open>
  A run is looked up without guessing. \<open>run\<close> writes nothing. What it answers is a current run
  on the target asked for; if some such run has the given handle, the answer has that handle, is
  the newest that has it, and every run that has it is on the same target; otherwise it is the
  newest run of that label. It raises only \<open>LookupError\<close>, and does so when no run matches.
\<close>

theorem run_lookup:
  assumes "keyed s" and "run_named handle target s = (r, t)"
  shows "t = s \<and>
    (case r of
       Inl e \<Rightarrow> is_lookup e
     | Inr run \<Rightarrow> run \<in> set (on_target target s) \<and>
         (if \<exists>c \<in> set (on_target target s). run_handle c = handle
          then run_handle run = handle \<and>
            (\<forall>c \<in> set (on_target target s). run_handle c = handle \<longrightarrow>
               run_target c = run_target run \<and> run_submitted_at c \<le> run_submitted_at run)
          else label run = handle \<and>
            (\<forall>c \<in> set (on_target target s). label c = handle \<longrightarrow>
               run_submitted_at c \<le> run_submitted_at run))) \<and>
    ((\<forall>c \<in> set (on_target target s). run_handle c \<noteq> handle \<and> label c \<noteq> handle) \<longrightarrow> (\<exists>e. r = Inl e))"
proof -
  let ?every = "on_target target s"
  note sorted = on_target_newest_first [OF assms(1), of target]
  show ?thesis
  proof (cases "filter (\<lambda>run. run_handle run = handle) ?every")
    case (Cons x xs)
    note head = sorted_filter_head [OF sorted Cons]
    let ?candidates = "sort (remdups (map (\<lambda>run. run_target run @ '' '' @ run_handle run) (x # xs)))"
    show ?thesis
    proof (cases "1 < length ?candidates")
      case True
      with assms(2) Cons head show ?thesis
        by (auto simp: run_named_def andThen_apply [of "reading _"] Let_def simp del: list.map)
    next
      case False
      have same: "run_target c = run_target x" if "c \<in> set ?every" "run_handle c = handle" for c
      proof -
        have "c \<in> set (x # xs)" using that by (simp flip: Cons)
        from one_candidate [OF False this, of x] that(2) head show ?thesis by simp
      qed
      have res: "r = Inr x" "t = s"
        using assms(2) Cons False
        by (simp_all add: run_named_def andThen_apply [of "reading _"] Let_def del: list.map)
      have some: "\<exists>c \<in> set ?every. run_handle c = handle" using head by blast
      show ?thesis
        unfolding res sum.case if_P [OF some] using head same by blast
    qed
  next
    case Nil
    then have none: "\<not> (\<exists>c \<in> set ?every. run_handle c = handle)" by (auto simp: filter_empty_conv)
    show ?thesis
    proof (cases "rev (sort_key run_submitted_at (filter (\<lambda>run. label run = handle) ?every))")
      case Nil': Nil
      with assms(2) Nil show ?thesis
        by (auto simp: run_named_def andThen_apply [of "reading _"] Let_def)
    next
      case Cons': (Cons x xs)
      note head = last_by_stamp [OF Cons']
      from assms(2) Nil Cons' none head show ?thesis
        by (auto simp: run_named_def andThen_apply [of "reading _"] Let_def)
    qed
  qed
qed

theorem run_lookup_witness:
  "run_named ''train.py'' None (sample_at OK) =
     (Inr (sample_run\<lparr>run_verdict := Some ''ok''\<rparr>), sample_at OK) \<and>
   label (sample_run\<lparr>run_verdict := Some ''ok''\<rparr>) = ''train.py''"
proof -
  have eq: "run_named ''train.py'' None (sample_at OK) =
      (Inr (sample_run\<lparr>run_verdict := Some ''ok''\<rparr>), sample_at OK)"
    by code_simp
  moreover have "\<not> (\<exists>c \<in> set (on_target None (sample_at OK)). run_handle c = ''train.py'')"
    by code_simp
  ultimately show ?thesis using run_lookup [OF sample_keyed(2) eq] by simp
qed


text \<open>
  A durable sweep owes a run its outcome until it was surfaced: the tracked listing holds
  exactly the current runs that are unsettled or whose settled verdict was not reported, newest
  first; reporting a run's settled verdict takes it, and no other run, off the listing, and a run
  that settles stays on it until then.
\<close>

theorem tracked_until_reported:
  assumes "keyed s" and "at_identity s (identity run) = Some c"
    and "run_verdict c = Some v" and "settled_text v"
  shows "set (listed Tracked [] None [] s) = {c \<in> ran (at_identity s). tracked c} \<and>
    sorted_wrt newer_first (listed Tracked [] None [] s) \<and>
    (run_reported c \<noteq> Some v \<longrightarrow> c \<in> set (listed Tracked [] None [] s)) \<and>
    (let t = snd (report w run v s) in
       (\<forall>d \<in> set (listed Tracked [] None [] t). identity d \<noteq> identity run) \<and>
       (\<forall>d. identity d \<noteq> identity run \<longrightarrow>
          (d \<in> set (listed Tracked [] None [] t) \<longleftrightarrow> d \<in> set (listed Tracked [] None [] s))))"
proof -
  have set_listed: "set (listed Tracked [] None [] u) = {c \<in> ran (at_identity u). tracked c}"
    for u :: "'a lake_scheme"
    by (simp add: listed_def set_newest)
  let ?d = "c\<lparr>run_reported := Some v\<rparr>"
  let ?t = "snd (report w run v s)"
  have key: "identity c = identity run" using at_identity_key [OF assms(1,2)] by simp
  have t: "?t = logged w ?d False s"
    using assms(2) by (simp add: report_def change_apply andThen_apply [of "change _ _ _"])
  have keyed: "keyed ?t" using assms(1) by (simp add: t)
  have at: "at_identity ?t = (at_identity s)(identity run \<mapsto> ?d)" by (simp add: t key)
  have gone: "\<not> tracked ?d" using assms(3,4) by (simp add: tracked_def unsettled_def)
  have in_ran: "d \<in> ran (at_identity u) \<longleftrightarrow> at_identity u (identity d) = Some d"
    if "keyed u" for d and u :: "'a lake_scheme"
    using at_identity_key [OF that] unfolding ran_def by blast
  have off: "identity d \<noteq> identity run" if "d \<in> ran (at_identity ?t)" "tracked d" for d
    using that gone unfolding in_ran [OF keyed] by (auto simp: at split: if_splits)
  have other: "d \<in> ran (at_identity ?t) \<longleftrightarrow> d \<in> ran (at_identity s)" if "identity d \<noteq> identity run" for d
    using that unfolding in_ran [OF keyed] in_ran [OF assms(1)] by (simp add: at)
  have sorted: "sorted_wrt newer_first (listed Tracked [] None [] s)"
    using newest_first [OF assms(1)] by (simp add: listed_def sorted_wrt_filter)
  have "c \<in> ran (at_identity s)" using assms(2) by (rule ranI)
  moreover have "tracked c" if "run_reported c \<noteq> Some v" using that assms(3) by (simp add: tracked_def)
  ultimately show ?thesis
    unfolding set_listed Let_def using off other sorted by blast
qed

theorem tracked_until_reported_witness:
  "sample_run\<lparr>run_verdict := Some ''ok''\<rparr> \<in> set (listed Tracked [] None [] (sample_at OK)) \<and>
   sample_run\<lparr>run_verdict := Some ''ok'', run_reported := Some ''ok''\<rparr> \<notin>
     set (listed Tracked [] None [] (snd (report sample_world sample_run ''ok'' (sample_at OK))))"
proof -
  have "settled_text ''ok''" using settled_text_word [of OK] by simp
  note tracked = tracked_until_reported [OF sample_keyed(2) _ _ this,
      of OK sample_run "sample_run\<lparr>run_verdict := Some ''ok''\<rparr>" sample_world, unfolded Let_def]
  have "run_reported (sample_run\<lparr>run_verdict := Some ''ok''\<rparr>) \<noteq> Some ''ok''" by (simp add: sample_run_def)
  with tracked show ?thesis by auto
qed

text \<open>
  Host onboarding reads back: after \<open>save\<close> the alias reads the setup saved, stamped by the
  store; after \<open>synced\<close> it reads the same setup with only its mirror watermark moved; after \<open>drop\<close>
  it raises \<open>LookupError\<close>; no other alias reads differently, and the run registry is untouched.
\<close>

theorem host_record_reads_back:
  assumes "hosts_keyed s"
  shows "(\<exists>saved t. save w setup s = (Inr saved, t) \<and>
      saved = setup\<lparr>hs_onboarded_at := now_at w (lk_ticks s)\<rparr> \<and>
      fst (recorded (hs_host setup) t) = Inr saved \<and>
      (\<forall>other. other \<noteq> hs_host setup \<longrightarrow> fst (recorded other t) = fst (recorded other s)) \<and>
      hosts_keyed t \<and> runs_log t = runs_log s) \<and>
   (\<exists>t. synced w alias s = (Inr (), t) \<and>
      (\<forall>held. fst (recorded alias s) = Inr held \<longrightarrow>
         fst (recorded alias t) = Inr (held\<lparr>hs_synced_at := now_at w (lk_ticks s)\<rparr>)) \<and>
      (\<forall>other. other \<noteq> alias \<longrightarrow> fst (recorded other t) = fst (recorded other s)) \<and>
      hosts_keyed t \<and> runs_log t = runs_log s) \<and>
   (\<exists>t m. hosts_drop w alias s = (Inr (), t) \<and> fst (recorded alias t) = Inl (LookupError m) \<and>
      (\<forall>other. other \<noteq> alias \<longrightarrow> fst (recorded other t) = fst (recorded other s)) \<and>
      hosts_keyed t \<and> runs_log t = runs_log s)"
proof (intro conjI)
  note reads = recorded_apply host_at_append
  show "\<exists>saved t. save w setup s = (Inr saved, t) \<and>
      saved = setup\<lparr>hs_onboarded_at := now_at w (lk_ticks s)\<rparr> \<and>
      fst (recorded (hs_host setup) t) = Inr saved \<and>
      (\<forall>other. other \<noteq> hs_host setup \<longrightarrow> fst (recorded other t) = fst (recorded other s)) \<and>
      hosts_keyed t \<and> runs_log t = runs_log s"
    using assms by (simp add: save_apply Let_def reads hosts_keyed_def)
  show "\<exists>t. synced w alias s = (Inr (), t) \<and>
      (\<forall>held. fst (recorded alias s) = Inr held \<longrightarrow>
         fst (recorded alias t) = Inr (held\<lparr>hs_synced_at := now_at w (lk_ticks s)\<rparr>)) \<and>
      (\<forall>other. other \<noteq> alias \<longrightarrow> fst (recorded other t) = fst (recorded other s)) \<and>
      hosts_keyed t \<and> runs_log t = runs_log s"
    using assms host_at_key [OF assms]
    by (auto simp: synced_apply reads hosts_keyed_def split: option.split)
  show "\<exists>t m. hosts_drop w alias s = (Inr (), t) \<and> fst (recorded alias t) = Inl (LookupError m) \<and>
      (\<forall>other. other \<noteq> alias \<longrightarrow> fst (recorded other t) = fst (recorded other s)) \<and>
      hosts_keyed t \<and> runs_log t = runs_log s"
    using assms by (simp add: hosts_drop_apply reads hosts_keyed_def)
qed

theorem host_record_reads_back_witness:
  "hosts_keyed empty_lake \<and>
   fst (recorded ''gold'' (snd (save sample_world sample_setup empty_lake))) =
     Inr (sample_setup\<lparr>hs_onboarded_at := ''0''\<rparr>)"
proof -
  have ok: "hosts_keyed empty_lake" by (simp add: hosts_keyed_def empty_lake_def)
  have "now_at sample_world (lk_ticks empty_lake) = ''0''" by code_simp
  moreover have "hs_host sample_setup = ''gold''" by (simp add: sample_setup_def)
  moreover note conjunct1 [OF host_record_reads_back [OF ok, of sample_world sample_setup "''gold''"]]
  ultimately show ?thesis using ok by auto
qed

end
