(* ===== verification/Utf8.thy ===== *)
theory Utf8
  imports Prelude
begin

text \<open>
  \<open>bytes.decode(errors="replace")\<close>, with which \<open>dispatch/jobs/evidence.py\<close> turns the bytes of a framed
  file into text, and UTF-8 as a job writes it. Bytes and code points are numbers here, so that a code
  point past Latin-1, the replacement character included, is itself.
\<close>

section \<open>Encoding and decoding\<close>

definition REPLACEMENT :: nat where "REPLACEMENT = 65533"

definition scalar :: "nat \<Rightarrow> bool" where
  "scalar n \<longleftrightarrow> n < 1114112 \<and> \<not> (55296 \<le> n \<and> n \<le> 57343)"

definition utf8_bytes :: "nat \<Rightarrow> nat list" where
  "utf8_bytes n =
     (if n < 128 then [n]
      else if n < 2048 then [192 + n div 64, 128 + n mod 64]
      else if n < 65536 then [224 + n div 4096, 128 + n div 64 mod 64, 128 + n mod 64]
      else [240 + n div 262144, 128 + n div 4096 mod 64, 128 + n div 64 mod 64, 128 + n mod 64])"

text \<open>
  Which byte may follow: any continuation byte, but after four of the lead bytes only those that make
  neither an overlong form, nor a surrogate, nor a number past the last code point.
\<close>

definition continues :: "nat \<Rightarrow> bool" where
  "continues b \<longleftrightarrow> 128 \<le> b \<and> b < 192"

definition second_byte :: "nat \<Rightarrow> nat \<Rightarrow> bool" where
  "second_byte a b \<longleftrightarrow> continues b \<and> (a = 224 \<longrightarrow> 160 \<le> b) \<and> (a = 237 \<longrightarrow> b < 160) \<and> (a = 240 \<longrightarrow> 144 \<le> b) \<and> (a = 244 \<longrightarrow> b < 144)"

text \<open>
  The decoder: a byte that begins nothing, and the longest beginning of a sequence that goes wrong or is
  cut off, each count for one replacement character, and reading goes on behind it.
\<close>

fun utf8_points :: "nat list \<Rightarrow> nat list" where
  "utf8_points [] = []"
| "utf8_points (a # bs) =
     (if a < 128 then a # utf8_points bs
      else if 194 \<le> a \<and> a < 224 then
        (case bs of
           b # cs \<Rightarrow> if continues b then ((a - 192) * 64 + (b - 128)) # utf8_points cs else REPLACEMENT # utf8_points bs
         | [] \<Rightarrow> [REPLACEMENT])
      else if 224 \<le> a \<and> a < 240 then
        (case bs of
           b # cs \<Rightarrow>
             if second_byte a b then
               (case cs of
                  c # ds \<Rightarrow>
                    if continues c then ((a - 224) * 4096 + (b - 128) * 64 + (c - 128)) # utf8_points ds
                    else REPLACEMENT # utf8_points cs
                | [] \<Rightarrow> [REPLACEMENT])
             else REPLACEMENT # utf8_points bs
         | [] \<Rightarrow> [REPLACEMENT])
      else if 240 \<le> a \<and> a < 245 then
        (case bs of
           b # cs \<Rightarrow>
             if second_byte a b then
               (case cs of
                  c # ds \<Rightarrow>
                    if continues c then
                      (case ds of
                         d # es \<Rightarrow>
                           if continues d
                           then ((a - 240) * 262144 + (b - 128) * 4096 + (c - 128) * 64 + (d - 128)) # utf8_points es
                           else REPLACEMENT # utf8_points ds
                       | [] \<Rightarrow> [REPLACEMENT])
                    else REPLACEMENT # utf8_points cs
                | [] \<Rightarrow> [REPLACEMENT])
             else REPLACEMENT # utf8_points bs
         | [] \<Rightarrow> [REPLACEMENT])
      else REPLACEMENT # utf8_points bs)"

text \<open>A file's bytes are characters below 256.\<close>

definition utf8_encode :: "nat list \<Rightarrow> string" where
  "utf8_encode ps = map char_of (concat (map utf8_bytes ps))"

definition utf8_decode :: "string \<Rightarrow> nat list" where
  "utf8_decode bytes = utf8_points (map of_char bytes)"

text \<open>
  A code point in the model's Latin-1 text: itself where it is one; a line break, a blank or the substitute
  character for one past it, which is no letter of any word the code looks for.
\<close>

definition text_char :: "nat \<Rightarrow> char" where
  "text_char n =
     (if n < 256 then char_of n
      else if n \<in> {8232, 8233} then char_of (133 :: nat)
      else if n = 5760 \<or> 8192 \<le> n \<and> n \<le> 8202 \<or> n \<in> {8239, 8287, 12288} then char_of (160 :: nat)
      else char_of (26 :: nat))"

definition text_of_points :: "nat list \<Rightarrow> string" where
  "text_of_points ps = map text_char ps"


section \<open>What was encoded is read back\<close>

declare utf8_points.simps [simp del]

lemma utf8_points_Nil [simp]: "utf8_points [] = []"
  by (simp add: utf8_points.simps)

lemma continuing: "q < 64 \<Longrightarrow> continues (128 + q)"
  by (simp add: continues_def)

lemma utf8_two:
  assumes "2 \<le> p" "p < 32" "r < 64"
  shows "utf8_points ((192 + p) # (128 + r) # rest) = (p * 64 + r) # utf8_points rest"
  using assms by (subst utf8_points.simps) (simp add: continuing)

lemma utf8_three:
  assumes "p < 16" "q < 64" "r < 64" and "second_byte (224 + p) (128 + q)"
  shows "utf8_points ((224 + p) # (128 + q) # (128 + r) # rest) = (p * 4096 + q * 64 + r) # utf8_points rest"
  using assms by (subst utf8_points.simps) (simp add: continuing)

lemma utf8_four:
  assumes "k < 5" "p < 64" "q < 64" "r < 64" and "second_byte (240 + k) (128 + p)"
  shows "utf8_points ((240 + k) # (128 + p) # (128 + q) # (128 + r) # rest) =
    (k * 262144 + p * 4096 + q * 64 + r) # utf8_points rest"
  using assms by (subst utf8_points.simps) (simp add: continuing)

text \<open>The digits of a number in base 64.\<close>

lemma base64_digits:
  fixes n :: nat
  shows "n = n div 64 * 64 + n mod 64" "n div 64 = n div 4096 * 64 + n div 64 mod 64"
    "n div 4096 = n div 262144 * 64 + n div 4096 mod 64"
proof -
  have "n div 64 div 64 = n div 4096" "n div 4096 div 64 = n div 262144" by (simp_all add: div_mult2_eq [symmetric])
  then show "n = n div 64 * 64 + n mod 64" "n div 64 = n div 4096 * 64 + n div 64 mod 64"
    "n div 4096 = n div 262144 * 64 + n div 4096 mod 64"
    using div_mult_mod_eq [of n 64] div_mult_mod_eq [of "n div 64" 64] div_mult_mod_eq [of "n div 4096" 64] by simp_all
qed

lemma utf8_read_two:
  assumes "128 \<le> n" "n < 2048"
  shows "utf8_points ((192 + n div 64) # (128 + n mod 64) # rest) = n # utf8_points rest"
proof -
  have "2 \<le> n div 64" "n div 64 < 32" using assms by simp_all
  from utf8_two [OF this, of "n mod 64" rest] show ?thesis by simp
qed

lemma utf8_read_three:
  assumes "2048 \<le> n" "n < 65536" "scalar n"
  shows "utf8_points ((224 + n div 4096) # (128 + n div 64 mod 64) # (128 + n mod 64) # rest) = n # utf8_points rest"
proof -
  define p q r where "p = n div 4096" and "q = n div 64 mod 64" and "r = n mod 64"
  have less: "q < 64" "r < 64" by (simp_all add: q_def r_def)
  have n: "n = p * 4096 + q * 64 + r" using base64_digits [of n] unfolding p_def q_def r_def by linarith
  have "p < 16" "p = 0 \<Longrightarrow> 32 \<le> q" "p = 13 \<Longrightarrow> q < 32"
    using n less assms by (auto simp: scalar_def)
  then have "second_byte (224 + p) (128 + q)" "p < 16" using less by (auto simp: second_byte_def continues_def)
  from utf8_three [OF this(2) less this(1), of rest] show ?thesis unfolding n [symmetric] unfolding p_def q_def r_def .
qed

lemma utf8_read_four:
  assumes "65536 \<le> n" "scalar n"
  shows "utf8_points ((240 + n div 262144) # (128 + n div 4096 mod 64) # (128 + n div 64 mod 64) # (128 + n mod 64) # rest) =
    n # utf8_points rest"
proof -
  define k p q r where "k = n div 262144" and "p = n div 4096 mod 64" and "q = n div 64 mod 64" and "r = n mod 64"
  have less: "p < 64" "q < 64" "r < 64" by (simp_all add: p_def q_def r_def)
  have n: "n = k * 262144 + p * 4096 + q * 64 + r" using base64_digits [of n] unfolding k_def p_def q_def r_def by linarith
  have "k < 5" "k = 0 \<Longrightarrow> 16 \<le> p" "k = 4 \<Longrightarrow> p < 16"
    using n less assms by (auto simp: scalar_def)
  then have "second_byte (240 + k) (128 + p)" "k < 5" using less by (auto simp: second_byte_def continues_def)
  from utf8_four [OF this(2) less this(1), of rest] show ?thesis unfolding n [symmetric] unfolding k_def p_def q_def r_def .
qed

lemma utf8_one: "scalar n \<Longrightarrow> utf8_points (utf8_bytes n @ rest) = n # utf8_points rest"
  by (simp add: utf8_bytes_def utf8_read_two utf8_read_three utf8_read_four) (simp add: utf8_points.simps)

lemma utf8_bytes_small: "scalar n \<Longrightarrow> b \<in> set (utf8_bytes n) \<Longrightarrow> b < 256"
  by (auto simp: utf8_bytes_def scalar_def less_mult_imp_div_less split: if_splits)

lemma utf8_round_trip:
  assumes "list_all scalar ps"
  shows "utf8_decode (utf8_encode ps) = ps"
proof -
  have "utf8_points (concat (map utf8_bytes ps)) = ps" using assms by (induction ps) (simp_all add: utf8_one)
  moreover have "map of_char (map char_of (concat (map utf8_bytes ps)) :: string) = concat (map utf8_bytes ps)"
    using assms utf8_bytes_small by (fastforce simp: list_all_iff of_char_of intro!: map_idI)
  ultimately show ?thesis by (simp add: utf8_decode_def utf8_encode_def)
qed

lemma utf8_bytes_not_Nil: "utf8_bytes n \<noteq> []"
  by (simp add: utf8_bytes_def)

lemma utf8_encode_Nil [simp]: "utf8_encode ps = [] \<longleftrightarrow> ps = []"
  using utf8_bytes_not_Nil by (cases ps) (simp_all add: utf8_encode_def)

lemma latin_less: "of_char (c :: char) < (256 :: nat)"
  using of_char_mod_256 [of c, where ?'a = nat] mod_less_divisor [of 256 "of_char c :: nat"] by simp

lemma latin_scalar: "list_all scalar (map of_char (s :: string))"
proof -
  have "scalar (of_char c)" for c :: char
    using latin_less [of c] unfolding scalar_def by linarith
  then show ?thesis by (simp add: list_all_iff)
qed

lemma text_of_latin [simp]: "text_of_points (map of_char s) = s"
  by (simp add: text_of_points_def text_char_def latin_less map_idI)

end
