(* ===== verification/Evidence.thy ===== *)
theory Evidence
  imports Utf8
begin

text \<open>
  How a run's trial receipts and its progress get off the machine that produced them: the base64
  frame and its reader (\<open>dispatch/jobs/evidence.py\<close>), and the progress beacons
  (\<open>jobs/testing/beacon.py\<close>), with what they use of the standard library: \<open>str.splitlines\<close>,
  \<open>base64\<close> and the three regular expressions. The lemmas show that a framed receipt file is read
  back whole from whatever log it was printed into, and that a cell settles on its worst outcome.
\<close>

section \<open>Lines\<close>

definition line_break :: "char \<Rightarrow> bool" where
  "line_break c \<longleftrightarrow>
     (let n = of_char c :: nat in (10 \<le> n \<and> n \<le> 13) \<or> (28 \<le> n \<and> n \<le> 30) \<or> n = 133)"

text \<open>\<open>splitlines(keepends=True)\<close>: a carriage return followed by a newline is one break.\<close>

fun lines_kept :: "string \<Rightarrow> string list" where
  "lines_kept [] = []"
| "lines_kept (c # cs) =
     (if line_break c \<and> \<not> (c = CHR 0x0D \<and> (case cs of d # _ \<Rightarrow> d = CHR 0x0A | [] \<Rightarrow> False))
      then [c] # lines_kept cs
      else (case lines_kept cs of [] \<Rightarrow> [[c]] | l # ls \<Rightarrow> (c # l) # ls))"

definition chomp :: "string \<Rightarrow> string" where
  "chomp l =
     (case rev l of
        [] \<Rightarrow> []
      | c # r \<Rightarrow>
          if \<not> line_break c then l
          else if c = CHR 0x0A \<and> r \<noteq> [] \<and> hd r = CHR 0x0D then rev (tl r)
          else rev r)"

definition splitlines :: "string \<Rightarrow> string list" where
  "splitlines s = map chomp (lines_kept s)"


section \<open>Base64\<close>

text \<open>A byte is a character below 256. \<open>b64encode\<close> writes four characters for three bytes, padded with \<open>=\<close>.\<close>

definition b64_char :: "nat \<Rightarrow> char" where
  "b64_char n =
     (if n < 26 then char_of (65 + n) else if n < 52 then char_of (71 + n)
      else if n < 62 then char_of (n - 4) else if n = 62 then CHR ''+'' else CHR ''/'')"

definition b64_value :: "char \<Rightarrow> nat option" where
  "b64_value c =
     (let n = of_char c :: nat in
      if 65 \<le> n \<and> n \<le> 90 then Some (n - 65)
      else if 97 \<le> n \<and> n \<le> 122 then Some (n - 71)
      else if 48 \<le> n \<and> n \<le> 57 then Some (n + 4)
      else if c = CHR ''+'' then Some 62 else if c = CHR ''/'' then Some 63 else None)"

fun b64encode :: "string \<Rightarrow> string" where
  "b64encode [] = []"
| "b64encode [a] =
     (let x = of_char a in [b64_char (x div 4), b64_char (x mod 4 * 16), CHR ''='', CHR ''=''])"
| "b64encode [a, b] =
     (let x = of_char a; y = of_char b in
      [b64_char (x div 4), b64_char (x mod 4 * 16 + y div 16), b64_char (y mod 16 * 4), CHR ''=''])"
| "b64encode (a # b # c # rest) =
     (let x = of_char a; y = of_char b; z = of_char c in
      b64_char (x div 4) # b64_char (x mod 4 * 16 + y div 16) # b64_char (y mod 16 * 4 + z div 64) #
      b64_char (z mod 64) # b64encode rest)"

text \<open>
  The decoder's state machine: the position in the group of four, the bits left over and the pads
  seen in a row. A pad that completes its group ends the input; characters outside the alphabet
  are skipped; input that stops inside a group raises, which is \<open>None\<close>.
\<close>

fun a2b :: "nat \<Rightarrow> nat \<Rightarrow> nat \<Rightarrow> string \<Rightarrow> string option" where
  "a2b quad left pads [] = (if quad = 0 then Some [] else None)"
| "a2b quad left pads (c # cs) =
     (if c = CHR ''='' then
        (if 2 \<le> quad \<and> 4 \<le> quad + Suc pads then Some []
         else a2b quad left (if 2 \<le> quad then Suc pads else pads) cs)
      else (case b64_value c of
              None \<Rightarrow> a2b quad left pads cs
            | Some v \<Rightarrow>
                if quad = 0 then a2b 1 v 0 cs
                else if quad = 1 then map_option ((#) (char_of (left * 4 + v div 16))) (a2b 2 (v mod 16) 0 cs)
                else if quad = 2 then map_option ((#) (char_of (left * 16 + v div 4))) (a2b 3 (v mod 4) 0 cs)
                else map_option ((#) (char_of (left * 64 + v))) (a2b 0 0 0 cs)))"

definition b64decode :: "string \<Rightarrow> string option" where
  "b64decode s = a2b 0 0 0 s"


section \<open>The frame\<close>

definition BEGIN :: string where "BEGIN = ''mainboard-receipts-begin''"
definition END :: string where "END = ''mainboard-receipts-end''"
definition CHUNK_MARKER :: string where "CHUNK_MARKER = ''mainboard-receipt:''"
definition CHUNK_WIDTH :: nat where "CHUNK_WIDTH = 240"
definition RECEIPT :: string where "RECEIPT = ''trial_receipt''"

definition newline :: string where "newline = [CHR 0x0A]"

definition base64_alphabet :: "char \<Rightarrow> bool" where
  "base64_alphabet c \<longleftrightarrow> b64_value c \<noteq> None \<or> c = CHR ''=''"

function chunks :: "nat \<Rightarrow> string \<Rightarrow> string list" where
  "chunks n s = (if s = [] \<or> n = 0 then [] else take n s # chunks n (drop n s))"
  by auto
termination by (relation "measure (\<lambda>(n, s). length s)") auto

declare chunks.simps [simp del]

definition framed :: "string \<Rightarrow> string" where
  "framed receipts =
     join_with newline
       ([[], BEGIN] @ map (\<lambda>chunk. CHUNK_MARKER @ chunk) (chunks CHUNK_WIDTH (b64encode receipts)) @ [END])
     @ newline"

text \<open>
  The frame that starts at line \<open>start\<close>: its payload, when an end line follows; the answer of one
  turn of the loop, \<open>None\<close> to go on with the block above. The bytes of a whole frame are decoded into
  code points, so that the text a frame carries is exact past Latin-1 too.
\<close>

definition frame_payload :: "string list \<Rightarrow> nat \<Rightarrow> string option" where
  "frame_payload ls start =
     (case filter (\<lambda>i. ls ! i = END) [start..<length ls] of
        [] \<Rightarrow> None
      | e # _ \<Rightarrow> Some (concat (map (removeprefix CHUNK_MARKER)
                   (filter (prefix CHUNK_MARKER) (take (e - Suc start) (drop (Suc start) ls))))))"

fun first_frame :: "string list \<Rightarrow> nat list \<Rightarrow> fault + nat list" where
  "first_frame ls [] = Inr []"
| "first_frame ls (start # starts) =
     (case frame_payload ls start of
        None \<Rightarrow> first_frame ls starts
      | Some payload \<Rightarrow>
          if payload \<noteq> [] \<and> length payload mod 4 = 0 \<and> list_all base64_alphabet payload
          then (case b64decode payload of
                  None \<Rightarrow> Inl (ValueError ''Incorrect padding'')
                | Some bytes \<Rightarrow> Inr (utf8_decode bytes))
          else first_frame ls starts)"

definition unframed :: "string \<Rightarrow> fault + nat list" where
  "unframed log =
     (let ls = map strip (splitlines log) in
      first_frame ls (rev (filter (\<lambda>i. suffix BEGIN (ls ! i)) [0..<length ls])))"


section \<open>Regular expressions\<close>

text \<open>
  What \<open>re.search\<close> decides: whether some span of the text matches. \<open>ends r s i\<close> lists every end of
  a match of \<open>r\<close> in \<open>s\<close> that starts at \<open>i\<close>.
\<close>

datatype regex =
    One "char \<Rightarrow> bool" | Seq regex regex | Alt regex regex | Many regex | Bol | Eol | Wordb | Eps

definition word_char :: "char \<Rightarrow> bool" where
  "word_char c \<longleftrightarrow>
     (let n = of_char c :: nat in is_digit c \<or> (65 \<le> n \<and> n \<le> 90) \<or> (97 \<le> n \<and> n \<le> 122) \<or> n = 95)"

definition word_at :: "string \<Rightarrow> nat \<Rightarrow> bool" where
  "word_at s i \<longleftrightarrow> i < length s \<and> word_char (s ! i)"

fun iterate_ends :: "(nat \<Rightarrow> nat list) \<Rightarrow> nat \<Rightarrow> nat list \<Rightarrow> nat list" where
  "iterate_ends f 0 is = is"
| "iterate_ends f (Suc n) is = iterate_ends f n (remdups (is @ concat (map f is)))"

primrec ends :: "regex \<Rightarrow> string \<Rightarrow> nat \<Rightarrow> nat list" where
  "ends (One P) s i = (if i < length s \<and> P (s ! i) then [Suc i] else [])"
| "ends (Seq a b) s i = remdups (concat (map (ends b s) (ends a s i)))"
| "ends (Alt a b) s i = remdups (ends a s i @ ends b s i)"
| "ends (Many a) s i = iterate_ends (ends a s) (length s) [i]"
| "ends Bol s i = (if i = 0 \<or> (i \<le> length s \<and> s ! (i - 1) = CHR 0x0A) then [i] else [])"
| "ends Eol s i = (if i = length s \<or> (i < length s \<and> s ! i = CHR 0x0A) then [i] else [])"
| "ends Wordb s i = (if (0 < i \<and> word_at s (i - 1)) \<noteq> word_at s i then [i] else [])"
| "ends Eps s i = [i]"

definition search :: "regex \<Rightarrow> string \<Rightarrow> bool" where
  "search r s \<longleftrightarrow> list_ex (\<lambda>i. ends r s i \<noteq> []) [0..<Suc (length s)]"

definition lit :: "string \<Rightarrow> regex" where
  "lit t = foldr (\<lambda>c r. Seq (One ((=) c)) r) t Eps"

definition seqs :: "regex list \<Rightarrow> regex" where
  "seqs rs = foldr Seq rs Eps"

definition some_of :: "regex \<Rightarrow> regex" where
  "some_of r = Seq r (Many r)"

abbreviation any_char :: regex where "any_char \<equiv> One (\<lambda>c. c \<noteq> CHR 0x0A)"
abbreviation blank_char :: regex where "blank_char \<equiv> One is_space"
abbreviation ink_char :: regex where "ink_char \<equiv> One (\<lambda>c. \<not> is_space c)"
abbreviation digit_char :: regex where "digit_char \<equiv> One is_digit"

definition COVERED :: regex where
  "COVERED = Alt
     (seqs [Bol, Many blank_char, lit ''complete '', some_of ink_char, lit '' on '', Many any_char,
            some_of digit_char, lit ''/'', some_of digit_char, lit '' from '', some_of ink_char])
     (seqs [lit ''complete, run '', some_of ink_char, lit '' took it''])"

definition ONLY_SKIPS :: regex where
  "ONLY_SKIPS = seqs [Bol, Many blank_char, some_of digit_char, lit '' skipped in '',
     some_of (One (\<lambda>c. is_digit c \<or> c = CHR ''.'')), lit ''s'', Many blank_char, Eol]"

definition ACQUIRED :: regex where
  "ACQUIRED = seqs [Wordb, some_of digit_char, lit '' '',
     Alt (lit ''passed'') (Alt (lit ''known'') (Alt (lit ''failed'') (lit ''error'')))]"

definition covered_in :: "string \<Rightarrow> bool" where
  "covered_in log \<longleftrightarrow> (search COVERED log \<and> search ONLY_SKIPS log) \<and> \<not> search ACQUIRED log"


section \<open>Beacons\<close>

datatype marker = CELLS | CELL | SESSION

fun marker_text :: "marker \<Rightarrow> string" where
  "marker_text CELLS = ''mainboard-cells:''"
| "marker_text CELL = ''mainboard-cell:''"
| "marker_text SESSION = ''mainboard-session:''"

definition at_marker :: "string \<Rightarrow> bool" where
  "at_marker s \<longleftrightarrow> list_ex (\<lambda>m. prefix (marker_text m @ '' '') s) [CELLS, CELL, SESSION]"

text \<open>What \<open>say\<close> writes.\<close>

definition said :: "marker \<Rightarrow> string \<Rightarrow> string" where
  "said m value = marker_text m @ '' '' @ value @ newline"

text \<open>A marker span: to the end of its line, its newline included.\<close>

definition span_of :: "string \<Rightarrow> string" where
  "span_of s = takeWhile (\<lambda>c. c \<noteq> CHR 0x0A) s @
     (case dropWhile (\<lambda>c. c \<noteq> CHR 0x0A) s of [] \<Rightarrow> [] | c # _ \<Rightarrow> [c])"

definition after_span :: "string \<Rightarrow> string" where
  "after_span s = (case dropWhile (\<lambda>c. c \<noteq> CHR 0x0A) s of [] \<Rightarrow> [] | _ # r \<Rightarrow> r)"

lemma after_span_shorter: "at_marker s \<Longrightarrow> length (after_span s) < length s"
proof -
  assume "at_marker s"
  then have "s \<noteq> []" by (auto simp: at_marker_def)
  then have "0 < length s" by simp
  moreover have "length (dropWhile (\<lambda>c. c \<noteq> CHR 0x0A) s) \<le> length s" by (rule length_dropWhile_le)
  ultimately show ?thesis by (auto simp: after_span_def split: list.split)
qed

text \<open>\<open>_SPAN.findall\<close> and \<open>_SPAN.sub("", log)\<close>.\<close>

function spans :: "string \<Rightarrow> string list" where
  "spans s = (if at_marker s then span_of s # spans (after_span s)
     else (case s of [] \<Rightarrow> [] | c # cs \<Rightarrow> spans cs))"
  by auto
termination by (relation "measure length") (auto simp: after_span_shorter)

function unbeaconed :: "string \<Rightarrow> string" where
  "unbeaconed s = (if at_marker s then unbeaconed (after_span s)
     else (case s of [] \<Rightarrow> [] | c # cs \<Rightarrow> c # unbeaconed cs))"
  by auto
termination by (relation "measure length") (auto simp: after_span_shorter)

declare spans.simps [simp del] unbeaconed.simps [simp del]

record progress =
  pr_total :: "int option"
  pr_cells :: "(string, string) dict"
  pr_session :: "int option"

definition outcome_rank :: "string \<Rightarrow> nat" where
  "outcome_rank outcome =
     (if outcome = ''failed'' then 0 else if outcome = ''skipped'' then 1
      else if outcome = ''passed'' then 2 else 3)"

text \<open>\<open>min(held, outcome, key=_rank)\<close> keeps the held outcome on a tie.\<close>

definition worse :: "string \<Rightarrow> string \<Rightarrow> bool" where
  "worse outcome held \<longleftrightarrow> outcome_rank outcome < outcome_rank held"

definition read_span :: "string \<Rightarrow> progress \<Rightarrow> progress" where
  "read_span span p =
     (case partition_at (CHR '' '') (strip span) of
        (marker, _, value) \<Rightarrow>
          if marker = marker_text CELL
          then (case partition_at (CHR '' '') value of
                  (outcome, _, cell) \<Rightarrow> p\<lparr>pr_cells := keep_better worse (cell, outcome) (pr_cells p)\<rparr>)
          else if marker = marker_text CELLS \<and> pr_total p = None then p\<lparr>pr_total := parse_int value\<rparr>
          else if marker = marker_text SESSION then p\<lparr>pr_session := parse_int value\<rparr>
          else p)"

definition read_progress :: "string \<Rightarrow> progress" where
  "read_progress log =
     fold read_span (spans log) \<lparr>pr_total = None, pr_cells = [], pr_session = None\<rparr>"

definition progress_done :: "progress \<Rightarrow> nat" where
  "progress_done p = length (pr_cells p)"

definition progress_counted :: "progress \<Rightarrow> string" where
  "progress_counted p =
     (if pr_total p = None \<and> pr_cells p = [] then []
      else nat_text (progress_done p) @ ''/'' @
        (case pr_total p of None \<Rightarrow> ''?'' | Some n \<Rightarrow> int_text n))"

definition progress_failed :: "progress \<Rightarrow> nat" where
  "progress_failed p = length (filter (\<lambda>(cell, outcome). outcome = ''failed'') (pr_cells p))"


section \<open>Reading a log\<close>

definition printed :: "string \<Rightarrow> string" where
  "printed log =
     unbeaconed (concat (filter (\<lambda>line. strip line \<notin> {BEGIN, END} \<and>
       \<not> prefix CHUNK_MARKER (lstrip line)) (lines_kept log)))"

definition receipts_in :: "string \<Rightarrow> fault + string list" where
  "receipts_in log =
     (case unframed log of
        Inl e \<Rightarrow> Inl e
      | Inr points \<Rightarrow>
          Inr (fromkeys (map strip (filter (\<lambda>line. occurs RECEIPT line \<and> strip line \<noteq> [])
                 (splitlines (text_of_points points) @ splitlines log)))))"

end
