(* ===== verification/Evidence_Properties.thy ===== *)
theory Evidence_Properties
  imports Evidence
begin

text \<open>
  What the frame and the beacons promise: a framed file decodes to itself from any log it was
  printed into, its lines stay narrow, every receipt in it is harvested once, a cell settles on
  its worst outcome, and taking the beacons out removes exactly their spans.
\<close>

section \<open>Base64\<close>

lemma b64_value_char: "n < 64 \<Longrightarrow> b64_value (b64_char n) = Some n"
  by (auto simp: b64_value_def b64_char_def of_char_of Let_def)

lemma b64_char_alphabet: "n < 64 \<Longrightarrow> base64_alphabet (b64_char n)"
  by (simp add: base64_alphabet_def b64_value_char)

lemma b64_char_not_pad: "n < 64 \<Longrightarrow> b64_char n \<noteq> CHR ''=''"
proof
  assume "n < 64" and "b64_char n = CHR ''=''"
  then have "b64_value CHR ''='' = Some n" by (metis b64_value_char)
  then show False by (simp add: b64_value_def)
qed

lemma byte_less: "(of_char (c::char) :: nat) < 256"
  using of_char_mod_256 [of c, where ?'a = nat] mod_less_divisor [of 256 "of_char c :: nat"] by simp

lemma shifted: "b < k \<Longrightarrow> (a * k + b) div k = a" "b < k \<Longrightarrow> (a * k + b) mod k = b" for a b k :: nat
  by (simp_all add: div_mult_self3 mod_mult_self3)

lemma high_bits:
  "(of_char (c::char) :: nat) div 4 < 64" "(of_char c :: nat) div 16 < 16" "(of_char c :: nat) div 64 < 4"
  using byte_less [of c] by (simp_all add: less_mult_imp_div_less)

lemma six_bits:
  "(of_char (a::char) :: nat) mod 4 * 16 + of_char (b::char) div 16 < 64"
  "(of_char a :: nat) mod 16 * 4 + of_char b div 64 < 64"
  "(of_char a :: nat) mod 4 * 16 < 64" "(of_char a :: nat) mod 16 * 4 < 64" "(of_char a :: nat) mod 64 < 64"
proof -
  have "(of_char a :: nat) mod 4 < 4" "(of_char a :: nat) mod 16 < 16" by simp_all
  with high_bits [of b]
  show "(of_char a :: nat) mod 4 * 16 + of_char b div 16 < 64"
    "(of_char a :: nat) mod 16 * 4 + of_char b div 64 < 64"
    "(of_char a :: nat) mod 4 * 16 < 64" "(of_char a :: nat) mod 16 * 4 < 64" by linarith+
qed simp

lemma byte_join:
  "char_of ((of_char (a::char) :: nat) div 4 * 4 + (of_char a mod 4 * 16 + of_char (b::char) div 16) div 16) = a"
  "char_of (((of_char a :: nat) mod 4 * 16 + of_char b div 16) mod 16 * 16 +
     (of_char b mod 16 * 4 + of_char (c::char) div 64) div 4) = b"
  "char_of (((of_char b :: nat) mod 16 * 4 + of_char c div 64) mod 4 * 64 + of_char c mod 64) = c"
  "char_of ((of_char a :: nat) div 4 * 4 + (of_char a mod 4 * 16) div 16) = a"
  "char_of (((of_char a :: nat) mod 4 * 16 + of_char b div 16) mod 16 * 16 + (of_char b mod 16 * 4) div 4) = b"
  by (simp_all only: shifted [OF high_bits(2)] shifted [OF high_bits(3)]) simp_all

lemma a2b_quad:
  assumes "p < 64" "q < 64" "r < 64" "u < 64"
  shows "a2b 0 0 0 (b64_char p # b64_char q # b64_char r # b64_char u # rest) =
    map_option (\<lambda>t. char_of (p * 4 + q div 16) # char_of (q mod 16 * 16 + r div 4) #
      char_of (r mod 4 * 64 + u) # t) (a2b 0 0 0 rest)"
  using assms
  by (simp add: b64_value_char b64_char_not_pad option.map_comp comp_def)

lemma a2b_pad1:
  assumes "p < 64" "q < 64" "r < 64"
  shows "a2b 0 0 0 [b64_char p, b64_char q, b64_char r, CHR ''=''] =
    Some [char_of (p * 4 + q div 16), char_of (q mod 16 * 16 + r div 4)]"
  using assms by (simp add: b64_value_char b64_char_not_pad)

lemma a2b_pad2:
  assumes "p < 64" "q < 64"
  shows "a2b 0 0 0 [b64_char p, b64_char q, CHR ''='', CHR ''=''] = Some [char_of (p * 4 + q div 16)]"
  using assms by (simp add: b64_value_char b64_char_not_pad)

declare a2b.simps [simp del]

lemma b64_round_trip: "b64decode (b64encode s) = Some s"
proof (induction s rule: b64encode.induct)
  case (2 a)
  show ?case
    by (simp only: b64decode_def b64encode.simps Let_def a2b_pad2 [OF high_bits(1) six_bits(3)] byte_join)
next
  case (3 a b)
  show ?case
    by (simp only: b64decode_def b64encode.simps Let_def
        a2b_pad1 [OF high_bits(1) six_bits(1) six_bits(4)] byte_join)
next
  case (4 a b c rest)
  then show ?case
    by (simp only: b64decode_def b64encode.simps Let_def
        a2b_quad [OF high_bits(1) six_bits(1) six_bits(2) six_bits(5)] byte_join option.map)
qed (simp add: b64decode_def a2b.simps)

lemmas b64_ink = high_bits(1) [THEN b64_char_alphabet] six_bits [THEN b64_char_alphabet]

lemma b64encode_shape:
  "length (b64encode s) mod 4 = 0" "list_all base64_alphabet (b64encode s)" "b64encode s = [] \<longleftrightarrow> s = []"
proof -
  have pad: "base64_alphabet CHR ''=''" by (simp add: base64_alphabet_def)
  show "length (b64encode s) mod 4 = 0" by (induction s rule: b64encode.induct) (simp_all add: Let_def)
  show "list_all base64_alphabet (b64encode s)"
    by (induction s rule: b64encode.induct) (simp_all only: b64encode.simps Let_def list.pred_inject b64_ink pad simp_thms)
  show "b64encode s = [] \<longleftrightarrow> s = []" by (cases s rule: b64encode.cases) (simp_all add: Let_def)
qed


section \<open>Chunks and lines\<close>

lemma chunks_Nil [simp]: "chunks n [] = []"
  by (subst chunks.simps) simp

lemma chunks_step: "0 < n \<Longrightarrow> s \<noteq> [] \<Longrightarrow> chunks n s = take n s # chunks n (drop n s)"
  by (subst chunks.simps) simp

lemma concat_chunks: "0 < n \<Longrightarrow> concat (chunks n s) = s"
proof (induction n s rule: chunks.induct)
  case (1 n s)
  then show ?case by (cases "s = []") (simp_all add: chunks_step)
qed

lemma chunk_narrow: "c \<in> set (chunks n s) \<Longrightarrow> length c \<le> n \<and> set c \<subseteq> set s"
proof (induction n s rule: chunks.induct)
  case (1 n s)
  show ?case
  proof (cases "s = [] \<or> n = 0")
    case True
    then have "chunks n s = []" by (subst chunks.simps) simp
    with "1.prems" show ?thesis by simp
  next
    case False
    then have "chunks n s = take n s # chunks n (drop n s)" by (simp add: chunks_step)
    with "1.prems" consider "c = take n s" | "c \<in> set (chunks n (drop n s))" by auto
    then show ?thesis
    proof cases
      case 1
      then show ?thesis using set_take_subset [of n s] by simp
    next
      case 2
      from "1.IH" [OF False this] set_drop_subset [of n s] show ?thesis by blast
    qed
  qed
qed

declare lines_kept.simps(2) [simp del]

lemma lines_kept_Nil_iff [simp]: "lines_kept s = [] \<longleftrightarrow> s = []"
proof (cases s)
  case (Cons c cs)
  then show ?thesis by (simp, subst lines_kept.simps) (simp split: list.split)
qed simp

lemma lines_kept_newline:
  "lines_kept (a @ CHR 0x0A # b) = lines_kept (a @ [CHR 0x0A]) @ lines_kept b"
proof (induction a)
  case Nil
  show ?case by (simp add: line_break_def lines_kept.simps(2))
next
  case (Cons c cs)
  obtain l ls where ls: "lines_kept (cs @ [CHR 0x0A]) = l # ls"
    by (metis lines_kept_Nil_iff append_is_Nil_conv neq_Nil_conv)
  have next_char: "(case cs @ CHR 0x0A # b of d # _ \<Rightarrow> d = CHR 0x0A | [] \<Rightarrow> False) =
      (case cs @ [CHR 0x0A] of d # _ \<Rightarrow> d = CHR 0x0A | [] \<Rightarrow> False)" by (cases cs) simp_all
  show ?case by (simp add: lines_kept.simps(2) [of c] Cons.IH ls next_char)
qed

lemma lines_kept_line:
  "list_all (\<lambda>c. \<not> line_break c) l \<Longrightarrow> lines_kept (l @ CHR 0x0A # b) = (l @ [CHR 0x0A]) # lines_kept b"
proof (induction l)
  case Nil
  show ?case by (simp add: line_break_def lines_kept.simps(2))
next
  case (Cons c l)
  then show ?case by (simp add: lines_kept.simps(2) [of c])
qed

lemma chomp_line: "list_all (\<lambda>c. \<not> line_break c) l \<Longrightarrow> chomp (l @ [CHR 0x0A]) = l"
proof -
  assume l: "list_all (\<lambda>c. \<not> line_break c) l"
  have "line_break CHR 0x0A" by (simp add: line_break_def)
  with l show ?thesis
    by (cases l rule: rev_cases) (auto simp: chomp_def line_break_def split: list.split)
qed

lemma splitlines_line:
  "list_all (\<lambda>c. \<not> line_break c) l \<Longrightarrow> splitlines (l @ CHR 0x0A # b) = l # splitlines b"
  by (simp add: splitlines_def lines_kept_line chomp_line)

lemma splitlines_newline:
  "splitlines (a @ CHR 0x0A # b) = splitlines (a @ [CHR 0x0A]) @ splitlines b"
  by (simp add: splitlines_def lines_kept_newline [of a b])

lemma splitlines_lines:
  "list_all (list_all (\<lambda>c. \<not> line_break c)) ls \<Longrightarrow>
     splitlines (concat (map (\<lambda>l. l @ newline) ls) @ b) = ls @ splitlines b"
  by (induction ls) (simp_all add: newline_def splitlines_line)

lemma join_newline: "xs \<noteq> [] \<Longrightarrow> join_with newline xs @ newline = concat (map (\<lambda>l. l @ newline) xs)"
  by (induction xs rule: induct_list012) simp_all

definition chunk_lines :: "string \<Rightarrow> string list" where
  "chunk_lines r = map (\<lambda>chunk. CHUNK_MARKER @ chunk) (chunks CHUNK_WIDTH (b64encode r))"

lemma framed_lines:
  "framed r = CHR 0x0A # concat (map (\<lambda>l. l @ newline) ([BEGIN] @ chunk_lines r @ [END]))"
  using join_newline [of "[[], BEGIN] @ chunk_lines r @ [END]"]
  by (simp add: framed_def chunk_lines_def newline_def)

lemma alphabet_ink:
  assumes "base64_alphabet c"
  shows "\<not> line_break c" "\<not> is_space c" "c \<noteq> CHR ''-''" "c \<noteq> CHR '':''"
  using assms
  by (auto simp: base64_alphabet_def b64_value_def line_break_def is_space_def Let_def split: if_splits)

lemma chunk_alphabet: "c \<in> set (chunks n (b64encode r)) \<Longrightarrow> x \<in> set c \<Longrightarrow> base64_alphabet x"
  using chunk_narrow [of c n "b64encode r"] b64encode_shape(2) [of r] by (auto simp: list_all_iff)

lemma marker_ink: "x \<in> set CHUNK_MARKER \<Longrightarrow> \<not> line_break x \<and> \<not> is_space x"
  "x \<in> set BEGIN \<Longrightarrow> \<not> line_break x \<and> \<not> is_space x"
  "x \<in> set END \<Longrightarrow> \<not> line_break x \<and> \<not> is_space x"
  by (auto simp: CHUNK_MARKER_def BEGIN_def END_def line_break_def is_space_def)

lemma chunk_line_ink: "l \<in> set (chunk_lines r) \<Longrightarrow> x \<in> set l \<Longrightarrow> \<not> line_break x \<and> \<not> is_space x"
  using chunk_alphabet alphabet_ink marker_ink(1) by (fastforce simp: chunk_lines_def)

lemma strip_ink: "(\<And>x. x \<in> set l \<Longrightarrow> \<not> is_space x) \<Longrightarrow> strip l = l"
proof -
  assume ink: "\<And>x. x \<in> set l \<Longrightarrow> \<not> is_space x"
  have "dropWhile is_space m = m" if "set m = set l" for m
    using that ink by (intro dropWhile_none) auto
  then show ?thesis by (simp add: strip_def)
qed


section \<open>Finding the frame again\<close>

lemma last_index:
  assumes "P (ls ! length a)" and "ls = a @ x # b" and "\<And>y. y \<in> set b \<Longrightarrow> \<not> P y"
  shows "\<exists>rest. rev (filter (\<lambda>i. P (ls ! i)) [0..<length ls]) = length a # rest"
proof -
  have "[0..<length ls] = [0..<length a] @ [length a..<length ls]"
    using upt_add_eq_append [of 0 "length a" "Suc (length b)"] by (simp add: assms(2))
  moreover have "[length a..<length ls] = length a # [Suc (length a)..<length ls]"
    by (rule upt_conv_Cons) (simp add: assms(2))
  moreover have "filter (\<lambda>i. P (ls ! i)) [Suc (length a)..<length ls] = []"
  proof -
    have "\<not> P (ls ! i)" if "i \<in> set [Suc (length a)..<length ls]" for i
      using that assms(3) [of "ls ! i"] by (auto simp: assms(2) nth_append nth_Cons' )
    then show ?thesis by (simp add: filter_empty_conv)
  qed
  ultimately show ?thesis using assms(1) by simp
qed

lemma first_index:
  assumes "ls = a @ c @ x # b" and "P x" and "\<And>y. y \<in> set c \<Longrightarrow> \<not> P y"
  shows "\<exists>rest. filter (\<lambda>i. P (ls ! i)) [length a..<length ls] = (length a + length c) # rest"
proof -
  have "[length a..<length ls] = [length a..<length a + length c] @ [length a + length c..<length ls]"
    using upt_add_eq_append [of "length a" "length a + length c" "Suc (length b)"]
    by (simp add: assms(1) add.assoc)
  moreover have "[length a + length c..<length ls] =
      (length a + length c) # [Suc (length a + length c)..<length ls]"
    by (rule upt_conv_Cons) (simp add: assms(1))
  moreover have "filter (\<lambda>i. P (ls ! i)) [length a..<length a + length c] = []"
  proof -
    have "\<not> P (ls ! i)" if "i \<in> set [length a..<length a + length c]" for i
      using that assms(3) [of "c ! (i - length a)"] by (auto simp: assms(1) nth_append)
    then show ?thesis by (simp add: filter_empty_conv)
  qed
  moreover have "P (ls ! (length a + length c))" using assms(1,2) by (simp add: nth_append)
  ultimately show ?thesis by simp
qed

lemma chunk_line_not_end: "l \<in> set (chunk_lines r) \<Longrightarrow> l \<noteq> END"
  by (auto simp: chunk_lines_def CHUNK_MARKER_def END_def)

lemma chunk_line_not_begin: "l \<in> set (chunk_lines r) \<Longrightarrow> \<not> suffix BEGIN l"
proof
  assume "l \<in> set (chunk_lines r)" and suf: "suffix BEGIN l"
  then obtain c where "l = CHUNK_MARKER @ c" and c: "c \<in> set (chunks CHUNK_WIDTH (b64encode r))"
    by (auto simp: chunk_lines_def)
  then obtain p where l: "l = p @ CHR '':'' # c"
    using append_assoc [of "''mainboard-receipt''" "'':''" c] by (auto simp: CHUNK_MARKER_def)
  have "CHR ''-'' \<notin> set c" "CHR ''-'' \<in> set BEGIN" "CHR '':'' \<notin> set BEGIN"
    using chunk_alphabet [OF c, of "CHR ''-''"] by (auto dest: alphabet_ink simp: BEGIN_def)
  moreover from suf have "suffix BEGIN (CHR '':'' # c) \<or> CHR '':'' \<in> set BEGIN"
    unfolding l suffix_append by (metis in_set_conv_decomp)
  ultimately have "suffix BEGIN c \<or> BEGIN = CHR '':'' # c" by (auto simp: suffix_Cons)
  with \<open>CHR ''-'' \<notin> set c\<close> \<open>CHR ''-'' \<in> set BEGIN\<close> \<open>CHR '':'' \<notin> set BEGIN\<close> show False
    using set_mono_suffix [of BEGIN c] list.set_intros(1) [of "CHR '':''" c] by (metis subsetD)
qed

lemma frame_payload_found:
  assumes "ls = a @ BEGIN # chunk_lines r @ END # b"
  shows "frame_payload ls (length a) = Some (b64encode r)"
proof -
  have "BEGIN \<noteq> END" by (simp add: BEGIN_def END_def)
  then have "\<exists>rest. filter (\<lambda>i. ls ! i = END) [length a..<length ls] =
      (length a + length (BEGIN # chunk_lines r)) # rest"
    using assms chunk_line_not_end by (intro first_index [of _ _ _ END b]) auto
  then obtain rest where at: "filter (\<lambda>i. ls ! i = END) [length a..<length ls] =
      (length a + Suc (length (chunk_lines r))) # rest" by auto
  have body: "take (length (chunk_lines r)) (drop (Suc (length a)) ls) = chunk_lines r"
    by (simp add: assms)
  have marked: "filter (prefix CHUNK_MARKER) (chunk_lines r) = chunk_lines r"
    by (simp add: chunk_lines_def)
  have "concat (map (removeprefix CHUNK_MARKER) (chunk_lines r)) = b64encode r"
    by (simp add: chunk_lines_def comp_def concat_chunks CHUNK_WIDTH_def)
  with at show ?thesis
    by (simp add: frame_payload_def body marked)
qed

definition frame_lines :: "string \<Rightarrow> string list" where
  "frame_lines r = BEGIN # chunk_lines r @ [END]"

lemma frame_line_ink: "l \<in> set (frame_lines r) \<Longrightarrow> x \<in> set l \<Longrightarrow> \<not> line_break x \<and> \<not> is_space x"
  unfolding frame_lines_def using marker_ink(2,3) chunk_line_ink by auto

lemma strip_frame_lines: "map strip (frame_lines r) = frame_lines r"
  using frame_line_ink by (intro map_idI strip_ink) blast

lemma splitlines_framed:
  "splitlines (before @ framed r @ after) = splitlines (before @ newline) @ frame_lines r @ splitlines after"
proof -
  have "list_all (list_all (\<lambda>c. \<not> line_break c)) (frame_lines r)"
    unfolding list_all_iff using frame_line_ink by blast
  note lines = splitlines_lines [OF this, of after]
  have "before @ framed r @ after =
      before @ CHR 0x0A # (concat (map (\<lambda>l. l @ newline) (frame_lines r)) @ after)"
    by (simp add: framed_lines frame_lines_def)
  then show ?thesis by (simp only: splitlines_newline [of before "concat _ @ _"] lines [unfolded newline_def] newline_def)
qed

lemma stripped_log:
  "map strip (splitlines (before @ framed r @ after)) =
     map strip (splitlines (before @ newline)) @ BEGIN # chunk_lines r @ END # map strip (splitlines after)"
  using strip_frame_lines [of r] by (simp add: splitlines_framed frame_lines_def)

lemma unframed_framed:
  assumes "r \<noteq> []" and "\<And>l. l \<in> set (splitlines after) \<Longrightarrow> \<not> suffix BEGIN (strip l)"
  shows "unframed (before @ framed r @ after) = Inr (utf8_decode r)"
proof -
  let ?a = "map strip (splitlines (before @ newline))"
  define ls where "ls = ?a @ BEGIN # (chunk_lines r @ END # map strip (splitlines after))"
  have "\<not> suffix BEGIN END" by (simp add: BEGIN_def END_def suffix_def)
  then have "\<exists>rest. rev (filter (\<lambda>i. suffix BEGIN (ls ! i)) [0..<length ls]) = length ?a # rest"
    using assms(2) chunk_line_not_begin by (intro last_index [OF _ ls_def]) (auto simp: ls_def nth_append)
  then obtain rest where
    starts: "rev (filter (\<lambda>i. suffix BEGIN (ls ! i)) [0..<length ls]) = length ?a # rest" by blast
  have "frame_payload ls (length ?a) = Some (b64encode r)"
    by (rule frame_payload_found [of _ _ r]) (simp add: ls_def)
  with assms(1) b64encode_shape [of r] have "first_frame ls (length ?a # rest) = Inr (utf8_decode r)"
    by (simp add: b64_round_trip)
  with starts show ?thesis
    by (simp add: unframed_def stripped_log ls_def Let_def)
qed


section \<open>Cells\<close>

interpretation worst_outcome: newest_per_key worse "\<lambda>outcome. - int (outcome_rank outcome)"
  by unfold_locales (auto simp: worse_def)

text \<open>The cell reports a log carries, in order.\<close>

definition cell_reports :: "string \<Rightarrow> (string \<times> string) list" where
  "cell_reports log =
     concat (map (\<lambda>span. case partition_at (CHR '' '') (strip span) of (marker, _, value) \<Rightarrow>
        if marker = marker_text CELL
        then (case partition_at (CHR '' '') value of (outcome, _, cell) \<Rightarrow> [(cell, outcome)]) else [])
       (spans log))"

lemma read_cells: "pr_cells (read_progress log) = fold (keep_better worse) (cell_reports log) []"
proof -
  have "pr_cells (fold read_span ss p) = fold (keep_better worse)
      (concat (map (\<lambda>span. case partition_at (CHR '' '') (strip span) of (marker, _, value) \<Rightarrow>
        if marker = marker_text CELL
        then (case partition_at (CHR '' '') value of (outcome, _, cell) \<Rightarrow> [(cell, outcome)]) else []) ss))
      (pr_cells p)" for ss p
    by (induction ss arbitrary: p) (simp_all add: read_span_def split: prod.split)
  then show ?thesis by (simp add: read_progress_def cell_reports_def)
qed

lemma span_cases:
  "(span_of s = s \<and> after_span s = [] \<and> CHR 0x0A \<notin> set s) \<or>
   (\<exists>a b. s = a @ CHR 0x0A # b \<and> CHR 0x0A \<notin> set a \<and> span_of s = a @ [CHR 0x0A] \<and> after_span s = b)"
proof (cases "CHR 0x0A \<in> set s")
  case True
  then obtain a b where s: "s = a @ CHR 0x0A # b" and a: "CHR 0x0A \<notin> set a"
    by (meson split_list_first)
  have "takeWhile (\<lambda>c. c \<noteq> CHR 0x0A) s = a" "dropWhile (\<lambda>c. c \<noteq> CHR 0x0A) s = CHR 0x0A # b"
    using a by (auto simp: s takeWhile_tail dropWhile_append3 takeWhile_append dropWhile_append)
  with s a show ?thesis by (auto simp: span_of_def after_span_def)
next
  case False
  then have "\<forall>c \<in> set s. c \<noteq> CHR 0x0A" by blast
  then have tw: "takeWhile (\<lambda>c. c \<noteq> CHR 0x0A) s = s" and dw: "dropWhile (\<lambda>c. c \<noteq> CHR 0x0A) s = []"
    unfolding takeWhile_eq_all_conv dropWhile_eq_Nil_conv by blast+
  have "span_of s = s" "after_span s = []" unfolding span_of_def after_span_def tw dw by simp_all
  with False show ?thesis by blast
qed

lemma span_split: "span_of s @ after_span s = s"
  using span_cases [of s] by auto

lemma span_one_line: "CHR 0x0A \<notin> set (butlast (span_of s))"
  using span_cases [of s] by (auto dest: in_set_butlastD)

lemma span_at_marker:
  assumes "at_marker s"
  shows "at_marker (span_of s)"
proof -
  from assms obtain m where "prefix (marker_text m @ '' '') s"
    unfolding at_marker_def list_ex_iff by blast
  then obtain t where s: "s = (marker_text m @ '' '') @ t" by (auto simp: prefix_def)
  have "\<forall>c \<in> set (marker_text m @ '' ''). c \<noteq> CHR 0x0A" by (cases m) simp_all
  then have "takeWhile (\<lambda>c. c \<noteq> CHR 0x0A) s = (marker_text m @ '' '') @ takeWhile (\<lambda>c. c \<noteq> CHR 0x0A) t"
    unfolding s by (intro takeWhile_append2) blast
  then have "prefix (marker_text m @ '' '') (span_of s)" by (simp add: span_of_def)
  then show ?thesis by (cases m) (simp_all add: at_marker_def)
qed


section \<open>Properties\<close>

text \<open>
  C9. A framed receipts file is read back whole: whatever the log holds before the frame, an
  unterminated line, another frame or a torn one included, and whatever follows it as long as no
  later line ends with the begin marker, the reader answers what Python's replacing decoder makes of
  the very bytes that were framed, and the text itself, whatever its code points, when they are its UTF-8.
\<close>

theorem frame_round_trip:
  assumes "receipts \<noteq> []" and "list_all (\<lambda>l. \<not> suffix BEGIN (strip l)) (splitlines after)"
  shows "unframed (before @ framed receipts @ after) = Inr (utf8_decode receipts) \<and>
    (\<forall>ps. list_all scalar ps \<longrightarrow> receipts = utf8_encode ps \<longrightarrow> unframed (before @ framed receipts @ after) = Inr ps)"
proof -
  have read: "unframed (before @ framed receipts @ after) = Inr (utf8_decode receipts)"
    using unframed_framed [OF assms(1)] assms(2) by (simp add: list_all_iff)
  have "unframed (before @ framed receipts @ after) = Inr ps" if "list_all scalar ps" "receipts = utf8_encode ps" for ps
    using read utf8_round_trip [OF that(1)] unfolding that(2) by simp
  with read show ?thesis by blast
qed

theorem frame_round_trip_witness:
  "unframed (''half a line'' @ framed (utf8_encode [233, 8364, 128512]) @ ''bye'') = Inr [233, 8364, 128512] \<and>
   unframed (''half a line'' @ framed [CHR 0xFF, CHR ''a''] @ ''bye'') = Inr [REPLACEMENT, 97]"
proof -
  have "list_all (\<lambda>l. \<not> suffix BEGIN (strip l)) (splitlines ''bye'')" by code_simp
  note read = frame_round_trip [OF _ this, of _ "''half a line''"]
  have scalars: "list_all scalar [233, 8364, 128512]" by (simp add: scalar_def)
  have "utf8_encode [233, 8364, 128512] \<noteq> []" "[CHR 0xFF, CHR ''a''] \<noteq> []" by simp_all
  note read [OF this(1), THEN conjunct2, rule_format, OF scalars refl] read [OF this(2), THEN conjunct1]
  moreover have "utf8_decode [CHR 0xFF, CHR ''a''] = [REPLACEMENT, 97]" by (simp add: utf8_decode_def utf8_points.simps)
  ultimately show ?thesis by (simp only: simp_thms)
qed

text \<open>
  No provider cuts a frame: every line the frame prints is at most 258 characters long, below
  the 500 characters the tightest provider was measured to truncate at, however large the file.
\<close>

theorem frame_lines_narrow:
  "list_all (\<lambda>l. length l \<le> 258) (splitlines (framed receipts))"
proof -
  have "splitlines (framed receipts) = splitlines newline @ frame_lines receipts"
    using splitlines_framed [of "[]" receipts "[]"] by (simp add: splitlines_def)
  moreover have "splitlines newline = [[]]" by code_simp
  moreover have "length l \<le> 258" if l: "l \<in> set (frame_lines receipts)" for l
  proof (cases "l \<in> set (chunk_lines receipts)")
    case True
    then obtain c where "l = CHUNK_MARKER @ c" "c \<in> set (chunks CHUNK_WIDTH (b64encode receipts))"
      by (auto simp: chunk_lines_def)
    then show ?thesis using chunk_narrow [of c] by (fastforce simp: CHUNK_MARKER_def CHUNK_WIDTH_def)
  next
    case False
    with l have "l = BEGIN \<or> l = END" by (auto simp: frame_lines_def)
    then show ?thesis by (auto simp: BEGIN_def END_def)
  qed
  ultimately show ?thesis by (simp add: list_all_iff)
qed

text \<open>
  Every trial is harvested once: from a log that carries a frame of receipt lines, the harvest
  holds each of them and every receipt line printed plainly beside the frame, nothing that is no
  receipt line, no line twice, and the framed ones come first in the order they were written.
\<close>

definition written_lines :: "string list \<Rightarrow> string" where
  "written_lines rs = utf8_encode (map of_char (concat (map (\<lambda>l. l @ newline) rs)))"

theorem receipts_harvested_once:
  assumes "rs \<noteq> []" and "distinct rs"
    and "list_all (\<lambda>l. list_all (\<lambda>c. \<not> line_break c) l \<and> strip l = l \<and> l \<noteq> [] \<and> occurs RECEIPT l) rs"
    and "list_all (\<lambda>l. \<not> suffix BEGIN (strip l)) (splitlines after)"
  shows "\<exists>found. receipts_in (before @ framed (written_lines rs) @ after) = Inr found \<and>
    distinct found \<and> prefix rs found \<and>
    set found = set rs \<union> strip ` {l \<in> set (splitlines (before @
      framed (written_lines rs) @ after)). occurs RECEIPT l \<and> strip l \<noteq> []}"
proof -
  let ?file = "concat (map (\<lambda>l. l @ newline) rs)"
  let ?log = "before @ framed (written_lines rs) @ after"
  let ?keep = "\<lambda>line. occurs RECEIPT line \<and> strip line \<noteq> []"
  have "written_lines rs \<noteq> []" using assms(1) by (cases rs) (simp_all add: newline_def written_lines_def)
  from unframed_framed [OF this] assms(4) have "unframed ?log = Inr (utf8_decode (written_lines rs))"
    by (simp add: list_all_iff)
  also have "utf8_decode (written_lines rs) = map of_char ?file"
    unfolding written_lines_def by (rule utf8_round_trip [OF latin_scalar])
  finally have unframed: "unframed ?log = Inr (map of_char ?file)" .
  have "list_all (list_all (\<lambda>c. \<not> line_break c)) rs" using assms(3) by (simp add: list_all_iff)
  from splitlines_lines [OF this, of "[]"] have lines: "splitlines ?file = rs"
    by (simp add: splitlines_def)
  have "filter ?keep rs = rs" "map strip rs = rs"
    using assms(3) by (auto simp: list_all_iff intro: map_idI)
  then have found: "receipts_in ?log = Inr (fromkeys (rs @ map strip (filter ?keep (splitlines ?log))))"
    by (simp add: receipts_in_def unframed lines)
  have "prefix rs (fromkeys (rs @ ys))" for ys
  proof (induction ys rule: rev_induct)
    case Nil
    then show ?case using assms(2) by simp
  next
    case (snoc y ys)
    then show ?case using fromkeys_snoc [of "rs @ ys" y] by (auto intro: prefix_prefix)
  qed
  then show ?thesis using found by (intro exI conjI) auto
qed

theorem receipts_harvested_once_witness:
  "\<exists>found. receipts_in (''noise'' @ framed (written_lines [''trial_receipt 1''])) = Inr found \<and>
     ''trial_receipt 1'' \<in> set found \<and> distinct found"
proof -
  have "list_all (\<lambda>l. list_all (\<lambda>c. \<not> line_break c) l \<and> strip l = l \<and> l \<noteq> [] \<and> occurs RECEIPT l)
      [''trial_receipt 1'']" by code_simp
  moreover have "list_all (\<lambda>l. \<not> suffix BEGIN (strip l)) (splitlines [])" by code_simp
  ultimately show ?thesis
    using receipts_harvested_once [of "[''trial_receipt 1'']" "[]" "''noise''"] by auto
qed

text \<open>
  A frame whose payload has the right alphabet and a whole number of quanta can still fail to
  decode, and the reader then raises instead of skipping the block: the harvest of such a log
  raises although a receipt is printed beside the frame.
\<close>

theorem bad_frame_raises:
  "receipts_in (''trial_receipt 1'' @ newline @ BEGIN @ newline @ CHUNK_MARKER @ ''A==='' @ newline @ END) =
     Inl (ValueError ''Incorrect padding'')"
  by code_simp

text \<open>
  A cell settles on the worst outcome it reported: its outcome in the progress read off a log
  is one it reported, no other report of it ranks worse (failed before skipped before passed), every
  reported cell is listed, and none is listed twice.
\<close>

theorem cell_settles_on_worst:
  "distinct (map fst (pr_cells (read_progress log))) \<and>
   set (map fst (pr_cells (read_progress log))) = set (map fst (cell_reports log)) \<and>
   (\<forall>cell outcome. map_of (pr_cells (read_progress log)) cell = Some outcome \<longrightarrow>
      (cell, outcome) \<in> set (cell_reports log) \<and>
      (\<forall>other. (cell, other) \<in> set (cell_reports log) \<longrightarrow> outcome_rank outcome \<le> outcome_rank other))"
proof (intro conjI allI impI)
  show "distinct (map fst (pr_cells (read_progress log)))"
    unfolding read_cells by (rule worst_outcome.keep_better_distinct) simp
  have "map_of (pr_cells (read_progress log)) cell \<noteq> None \<longleftrightarrow> cell \<in> fst ` set (cell_reports log)" for cell
    unfolding read_cells using worst_outcome.keep_better_dom [of "cell_reports log" "[]" cell] by simp
  then show "set (map fst (pr_cells (read_progress log))) = set (map fst (cell_reports log))"
    by (auto simp: map_of_eq_None_iff)
next
  fix cell outcome
  assume "map_of (pr_cells (read_progress log)) cell = Some outcome"
  from worst_outcome.keep_better_newest [OF this [unfolded read_cells]]
  have worst: "(cell, outcome) \<in> set (cell_reports log)"
    "\<forall>other. (cell, other) \<in> set (cell_reports log) \<longrightarrow> - int (outcome_rank other) \<le> - int (outcome_rank outcome)"
    by auto
  then show "(cell, outcome) \<in> set (cell_reports log)" by blast
  fix other
  assume "(cell, other) \<in> set (cell_reports log)"
  with worst show "outcome_rank outcome \<le> outcome_rank other" by fastforce
qed

theorem cell_settles_on_worst_witness:
  "map_of (pr_cells (read_progress (said CELL ''passed t'' @ said CELL ''failed t''))) ''t'' = Some ''failed'' \<and>
   outcome_rank ''failed'' \<le> outcome_rank ''passed''"
proof -
  let ?log = "said CELL ''passed t'' @ said CELL ''failed t''"
  have "map_of (pr_cells (read_progress ?log)) ''t'' = Some ''failed''" by code_simp
  moreover have "(''t'', ''passed'') \<in> set (cell_reports ?log)" by code_simp
  ultimately show ?thesis using cell_settles_on_worst [of ?log] by blast
qed

text \<open>
  Taking the beacons out removes their spans and nothing else: the text left is a subsequence
  of the log, its length is the log's less that of the spans, every span starts at a marker and
  runs at most to the end of its line, and a log that carries no marker is left as it is.
\<close>

theorem beacons_removed_exactly:
  "subseq (unbeaconed log) log \<and>
   length (unbeaconed log) + sum_list (map length (spans log)) = length log \<and>
   list_all (\<lambda>span. at_marker span \<and> CHR 0x0A \<notin> set (butlast span)) (spans log) \<and>
   (spans log = [] \<longrightarrow> unbeaconed log = log)"
proof (induction log rule: spans.induct)
  case (1 s)
  show ?case
  proof (cases "at_marker s")
    case True
    note span_one_line [of s]
    moreover have "length s = length (span_of s) + length (after_span s)"
      by (metis span_split length_append)
    moreover have "subseq t (span_of s @ after_span s)" if "subseq t (after_span s)" for t
      using that by (rule list_emb_append2)
    ultimately show ?thesis
      using 1(1) [OF True] True span_at_marker [OF True] span_split [of s]
      by (simp add: spans.simps [of s] unbeaconed.simps [of s])
  next
    case False
    show ?thesis
    proof (cases s)
      case Nil
      with False show ?thesis by (simp add: spans.simps unbeaconed.simps)
    next
      case (Cons c cs)
      with False have "spans s = spans cs" "unbeaconed s = c # unbeaconed cs"
        by (simp_all add: spans.simps [of "c # cs"] unbeaconed.simps [of "c # cs"])
      with 1(2) [OF False Cons] Cons show ?thesis by simp
    qed
  qed
qed

theorem beacons_removed_exactly_witness:
  "spans ''plain'' = [] \<and> unbeaconed ''plain'' = ''plain''"
proof -
  have "spans ''plain'' = []" by code_simp
  with beacons_removed_exactly [of "''plain''"] show ?thesis by simp
qed

end
