(* ===== verification/Receipts.thy ===== *)
theory Receipts
  imports Registry_Properties
begin

text \<open>
  The batch event contract (\<open>batch/receipts.py\<close>): the journal of events in the lake, the newest
  line per job that a resumed pass reads as its cursor, and the index a settling pass keeps current
  while it publishes. The lemmas show that a published line replays last in its own stream and
  nowhere else, that the cursor does not depend on the order or the repetition of deliveries, and
  that the kept index is the one a fresh replay would build.
\<close>

section \<open>Topics and events\<close>

datatype topic =
    T_OPENED | T_PREPARED | T_ESTIMATED | T_SUBMITTED | T_REFUSED | T_HELD | T_SKIPPED | T_STATE
  | T_ATTESTED | T_SAMPLE | T_SETTLED | T_EVIDENCE | T_COST | T_CLOSED

definition all_topics :: "topic list" where
  "all_topics = [T_OPENED, T_PREPARED, T_ESTIMATED, T_SUBMITTED, T_REFUSED, T_HELD, T_SKIPPED,
     T_STATE, T_ATTESTED, T_SAMPLE, T_SETTLED, T_EVIDENCE, T_COST, T_CLOSED]"

fun topic_text :: "topic \<Rightarrow> string" where
  "topic_text T_OPENED = ''batch.opened''"
| "topic_text T_PREPARED = ''job.prepared''"
| "topic_text T_ESTIMATED = ''job.estimated''"
| "topic_text T_SUBMITTED = ''job.submitted''"
| "topic_text T_REFUSED = ''job.refused''"
| "topic_text T_HELD = ''job.held''"
| "topic_text T_SKIPPED = ''job.skipped''"
| "topic_text T_STATE = ''job.state''"
| "topic_text T_ATTESTED = ''job.attested''"
| "topic_text T_SAMPLE = ''job.sample''"
| "topic_text T_SETTLED = ''job.settled''"
| "topic_text T_EVIDENCE = ''job.evidence''"
| "topic_text T_COST = ''job.cost''"
| "topic_text T_CLOSED = ''batch.closed''"

definition topic_of :: "string \<Rightarrow> topic option" where
  "topic_of s = find (\<lambda>t. topic_text t = s) all_topics"

record event =
  ev_at :: stamp
  ev_batch :: string
  ev_topic :: topic
  ev_job :: string
  ev_data :: payload

text \<open>A row of \<open>events\<close>; a NULL job or data column is \<open>None\<close>.\<close>

record event_row =
  er_ts :: stamp
  er_batch :: string
  er_topic :: string
  er_job :: "string option"
  er_data :: "payload option"

record receipt_row =
  rr_ts :: stamp
  rr_batch :: string
  rr_n :: nat
  rr_run :: "json option"
  rr_trial :: "json option"
  rr_verdict :: "json option"
  rr_host :: "json option"
  rr_line :: string

record line_row =
  ln_ts :: stamp
  ln_batch :: string
  ln_file :: string
  ln_n :: nat
  ln_line :: string
  ln_lossy :: bool

text \<open>The lake with the logs a batch writes beside the registries.\<close>

record store = lake +
  st_events :: "event_row list"
  st_receipts :: "receipt_row list"
  st_log_lines :: "line_row list"

lemma topic_of_text [simp]: "topic_of (topic_text t) = Some t"
  by (cases t) (simp_all add: topic_of_def all_topics_def)


section \<open>The journal\<close>

definition journal_publish :: "event \<Rightarrow> ('s store_scheme, unit) comp" where
  "journal_publish e =
     changing (\<lambda>s. s\<lparr>st_events := st_events s @
       [\<lparr>er_ts = ev_at e, er_batch = ev_batch e, er_topic = topic_text (ev_topic e),
         er_job = Some (ev_job e), er_data = Some (ev_data e)\<rparr>]\<rparr>)"

text \<open>A row whose topic is no longer known does not validate, and is skipped.\<close>

definition read_row :: "event_row \<Rightarrow> event list" where
  "read_row row =
     (case topic_of (er_topic row) of
        None \<Rightarrow> []
      | Some t \<Rightarrow> [\<lparr>ev_at = er_ts row, ev_batch = er_batch row, ev_topic = t,
                    ev_job = (case er_job row of None \<Rightarrow> [] | Some j \<Rightarrow> j),
                    ev_data = (case er_data row of None \<Rightarrow> [] | Some d \<Rightarrow> d)\<rparr>])"

definition replay :: "string \<Rightarrow> 's store_scheme \<Rightarrow> event list" where
  "replay batch s = concat (map read_row (filter (\<lambda>row. er_batch row = batch) (st_events s)))"

definition publish ::
  "'w world_scheme \<Rightarrow> string \<Rightarrow> topic \<Rightarrow> string \<Rightarrow> payload \<Rightarrow> ('s store_scheme, event) comp" where
  "publish w batch topic job data =
     andThen (now_text w) (\<lambda>t.
       let e = \<lparr>ev_at = t, ev_batch = batch, ev_topic = topic, ev_job = job, ev_data = data\<rparr>
       in andThen (journal_publish e) (\<lambda>_. ret e))"


section \<open>The newest line per job\<close>

text \<open>A later instant wins, and a tie keeps the later arrival.\<close>

definition supersedes :: "event \<Rightarrow> event \<Rightarrow> bool" where
  "supersedes e held \<longleftrightarrow> ev_at held \<le> ev_at e"

interpretation newest_event: newest_per_key supersedes ev_at
  by unfold_locales (auto simp: supersedes_def)

definition latest :: "topic list \<Rightarrow> event list \<Rightarrow> (string, event) dict" where
  "latest topics events =
     fold (\<lambda>e newest. if ev_topic e \<in> set topics then keep_better supersedes (ev_job e, e) newest
                      else newest) events []"

definition offered :: "event list \<Rightarrow> (string, event) dict" where
  "offered events = latest [T_SUBMITTED, T_REFUSED, T_HELD] events"


section \<open>The index of a settling pass\<close>

text \<open>
  \<open>SettlementReceipts\<close>: the newest state and evidence line of each job, and apart from it of each
  submission. A submission is the three values its identity is read from, which the source spells
  as one JSON text; the job-wide line is filed under no submission.
\<close>

type_synonym submission = "json list"
type_synonym index = "(topic \<times> string \<times> submission option, event) dict"

definition submission_of :: "payload \<Rightarrow> submission" where
  "submission_of data =
     map (\<lambda>k. case map_of data k of None \<Rightarrow> JNull | Some v \<Rightarrow> v) [''handle'', ''target'', ''submitted_at'']"

definition keep_event :: "event \<Rightarrow> index \<Rightarrow> index" where
  "keep_event e index =
     (if ev_topic e \<notin> {T_STATE, T_EVIDENCE} then index
      else fold (\<lambda>run. keep_better supersedes ((ev_topic e, ev_job e, run), e))
             [None, Some (submission_of (ev_data e))] index)"

definition receipts_index :: "event list \<Rightarrow> index" where
  "receipts_index events = fold keep_event events []"

definition receipts_get :: "index \<Rightarrow> topic \<Rightarrow> string \<Rightarrow> payload option \<Rightarrow> event option" where
  "receipts_get index topic job submission =
     map_of index (topic, job, map_option submission_of submission)"

definition receipts_publish ::
  "'w world_scheme \<Rightarrow> string \<Rightarrow> index \<Rightarrow> topic \<Rightarrow> string \<Rightarrow> payload \<Rightarrow> ('s store_scheme, index) comp" where
  "receipts_publish w stream index topic job data =
     andThen (publish w stream topic job data) (\<lambda>e. ret (keep_event e index))"


section \<open>Lemmas\<close>

lemma publish_apply:
  "publish w batch topic job data s =
     (let e = \<lparr>ev_at = now_at w (lk_ticks s), ev_batch = batch, ev_topic = topic, ev_job = job,
               ev_data = data\<rparr>
      in (Inr e, snd (journal_publish e (s\<lparr>lk_ticks := Suc (lk_ticks s)\<rparr>))))"
  by (simp add: publish_def andThen_apply journal_publish_def Let_def)

lemma replay_journal:
  "replay batch (snd (journal_publish e s)) =
     (if ev_batch e = batch then replay batch s @ [e] else replay batch s)"
  by (simp add: replay_def journal_publish_def read_row_def)

lemma replay_ticks [simp]: "replay batch (s\<lparr>lk_ticks := n\<rparr>) = replay batch s"
  by (simp add: replay_def)

lemma replay_publish:
  "replay b (snd (publish w batch topic job data s)) =
     (if batch = b
      then replay b s @ [\<lparr>ev_at = now_at w (lk_ticks s), ev_batch = batch, ev_topic = topic,
             ev_job = job, ev_data = data\<rparr>]
      else replay b s)"
  by (simp add: publish_apply Let_def replay_journal)

lemma grows_publish [steps]:
  "along log_grows (publish w batch topic job data)"
  "along log_grows (receipts_publish w stream index topic job data)"
  unfolding receipts_publish_def
  by (intro steps alongI; simp add: publish_apply Let_def journal_publish_def log_grows_def)+

text \<open>The loop of \<open>latest\<close> is the fold over the wanted lines.\<close>

definition wanted :: "topic list \<Rightarrow> event list \<Rightarrow> (string \<times> event) list" where
  "wanted topics events = map (\<lambda>e. (ev_job e, e)) (filter (\<lambda>e. ev_topic e \<in> set topics) events)"

lemma latest_fold: "latest topics events = fold (keep_better supersedes) (wanted topics events) []"
proof -
  have "fold (\<lambda>e newest. if ev_topic e \<in> set topics then keep_better supersedes (ev_job e, e) newest
           else newest) events d =
        fold (keep_better supersedes) (wanted topics events) d" for d
    by (induction events arbitrary: d) (simp_all add: wanted_def)
  then show ?thesis by (simp add: latest_def)
qed

lemma mem_wanted: "(job, e) \<in> set (wanted topics events) \<longleftrightarrow>
    e \<in> set events \<and> ev_topic e \<in> set topics \<and> ev_job e = job"
  by (auto simp: wanted_def)

lemma latest_None: "map_of (latest topics events) job = None \<longleftrightarrow>
    (\<forall>e \<in> set events. ev_topic e \<in> set topics \<longrightarrow> ev_job e \<noteq> job)"
  using newest_event.keep_better_dom [of "wanted topics events" "[]" job]
  by (force simp: latest_fold wanted_def)

lemma latest_Some:
  assumes "map_of (latest topics events) job = Some e"
  shows "e \<in> set events \<and> ev_topic e \<in> set topics \<and> ev_job e = job \<and>
    (\<forall>x \<in> set events. ev_topic x \<in> set topics \<and> ev_job x = job \<longrightarrow> ev_at x \<le> ev_at e)"
  using newest_event.keep_better_newest [OF assms [unfolded latest_fold]]
  by (auto simp: mem_wanted)

lemma latest_snoc:
  "map_of (latest topics (events @ [e])) job =
     (if ev_topic e \<in> set topics \<and> ev_job e = job
      then (case map_of (latest topics events) job of
              None \<Rightarrow> Some e
            | Some held \<Rightarrow> if ev_at held \<le> ev_at e then Some e else Some held)
      else map_of (latest topics events) job)"
  by (auto simp: latest_def newest_event.map_of_keep_better supersedes_def split: option.split)

text \<open>The index of a pass, as one fold over the lines it files.\<close>

definition filed :: "event \<Rightarrow> ((topic \<times> string \<times> submission option) \<times> event) list" where
  "filed e = (if ev_topic e \<notin> {T_STATE, T_EVIDENCE} then []
     else [((ev_topic e, ev_job e, None), e), ((ev_topic e, ev_job e, Some (submission_of (ev_data e))), e)])"

lemma receipts_index_fold:
  "receipts_index events = fold (keep_better supersedes) (concat (map filed events)) []"
proof -
  have "fold keep_event events d = fold (keep_better supersedes) (concat (map filed events)) d" for d
    by (induction events arbitrary: d) (auto simp: keep_event_def filed_def)
  then show ?thesis by (simp add: receipts_index_def)
qed

lemma receipts_get_Some:
  assumes "receipts_get (receipts_index events) topic job sub = Some e"
  shows "e \<in> set events \<and> ev_topic e = topic \<and> ev_job e = job \<and>
    (\<forall>data. sub = Some data \<longrightarrow> submission_of (ev_data e) = submission_of data) \<and>
    (\<forall>x \<in> set events. ev_topic x = topic \<and> ev_job x = job \<and>
       (\<forall>data. sub = Some data \<longrightarrow> submission_of (ev_data x) = submission_of data) \<longrightarrow> ev_at x \<le> ev_at e)"
  using newest_event.keep_better_newest [OF assms [unfolded receipts_get_def receipts_index_fold]]
  by (cases sub) (auto simp: filed_def split: if_splits)

lemma receipts_get_None:
  assumes "receipts_get (receipts_index events) topic job sub = None"
    and "topic \<in> {T_STATE, T_EVIDENCE}" and "x \<in> set events" and "ev_topic x = topic"
    and "ev_job x = job"
  shows "\<exists>data. sub = Some data \<and> submission_of (ev_data x) \<noteq> submission_of data"
  using newest_event.keep_better_dom [of "concat (map filed events)" "[]"
      "(topic, job, map_option submission_of sub)"] assms
  by (cases sub) (force simp: receipts_get_def receipts_index_fold filed_def)+


text \<open>Several lines published one after another, by whichever passes.\<close>

fun publish_all ::
  "'w world_scheme \<Rightarrow> (string \<times> topic \<times> string \<times> payload) list \<Rightarrow> 's store_scheme \<Rightarrow> 's store_scheme" where
  "publish_all w [] s = s"
| "publish_all w ((batch, topic, job, data) # lines) s =
     publish_all w lines (snd (publish w batch topic job data s))"

lemma publish_ticks [simp]: "lk_ticks (snd (publish w batch topic job data s)) = Suc (lk_ticks s)"
  by (simp add: publish_apply Let_def journal_publish_def)

lemma latest_at_max:
  "map_option ev_at (map_of (latest topics events) job) =
     (let stamps = ev_at ` {e \<in> set events. ev_topic e \<in> set topics \<and> ev_job e = job}
      in if stamps = {} then None else Some (Max stamps))"
proof (cases "map_of (latest topics events) job")
  case None
  then show ?thesis using latest_None [of topics events job] by (auto simp: Let_def)
next
  case (Some e)
  let ?lines = "{e \<in> set events. ev_topic e \<in> set topics \<and> ev_job e = job}"
  from latest_Some [OF Some] have "e \<in> ?lines" and "\<forall>x \<in> ?lines. ev_at x \<le> ev_at e" by auto
  then have "Max (ev_at ` ?lines) = ev_at e" by (intro Max_eqI) auto
  with Some \<open>e \<in> ?lines\<close> show ?thesis by (auto simp: Let_def)
qed


section \<open>Properties\<close>

text \<open>
  Published lines replay in commit order: whatever lines are published, into whichever
  streams, the replay of one stream is what it was, followed by exactly the lines published into
  it, in that order, each with the topic, job and payload it was published with and the instant
  it was stamped at.
\<close>

theorem journal_replays_in_order:
  "replay b (publish_all w lines s) =
     replay b s @
     concat (map (\<lambda>(i, batch, topic, job, data).
        if batch = b
        then [\<lparr>ev_at = now_at w (lk_ticks s + i), ev_batch = b, ev_topic = topic, ev_job = job,
               ev_data = data\<rparr>]
        else []) (zip [0..<length lines] lines))"
proof (induction lines arbitrary: s)
  case Nil
  show ?case by simp
next
  case (Cons line lines)
  obtain batch topic job data where line: "line = (batch, topic, job, data)" by (cases line) auto
  have shift: "zip [0..<length (line # lines)] (line # lines) =
      (0, line) # map (\<lambda>(i, x). (Suc i, x)) (zip [0..<length lines] lines)"
    by (simp add: upt_conv_Cons zip_map1 flip: map_Suc_upt del: upt_Suc)
  show ?case
    unfolding shift
    by (simp add: Cons.IH line replay_publish comp_def case_prod_unfold cong: if_cong)
qed

text \<open>
  The cursor a resumed pass reads does not depend on delivery: reorder the lines of a stream,
  repeat some of them, and the newest line of each job still has the same instant, the largest
  among that job's lines of the wanted topics; it is one of those lines; and a job reads nothing
  exactly when it has no such line.
\<close>

theorem cursor_ignores_redelivery:
  assumes "set events = set redelivered"
  shows "map_option ev_at (map_of (latest topics redelivered) job) =
           map_option ev_at (map_of (latest topics events) job) \<and>
    (case map_of (latest topics redelivered) job of
       None \<Rightarrow> \<forall>e \<in> set events. ev_topic e \<in> set topics \<longrightarrow> ev_job e \<noteq> job
     | Some e \<Rightarrow> e \<in> set events \<and> ev_topic e \<in> set topics \<and> ev_job e = job \<and>
         (\<forall>x \<in> set events. ev_topic x \<in> set topics \<and> ev_job x = job \<longrightarrow> ev_at x \<le> ev_at e))"
proof
  show "map_option ev_at (map_of (latest topics redelivered) job) =
      map_option ev_at (map_of (latest topics events) job)"
    using assms by (simp add: latest_at_max)
  show "case map_of (latest topics redelivered) job of
       None \<Rightarrow> \<forall>e \<in> set events. ev_topic e \<in> set topics \<longrightarrow> ev_job e \<noteq> job
     | Some e \<Rightarrow> e \<in> set events \<and> ev_topic e \<in> set topics \<and> ev_job e = job \<and>
         (\<forall>x \<in> set events. ev_topic x \<in> set topics \<and> ev_job x = job \<longrightarrow> ev_at x \<le> ev_at e)"
    unfolding assms using latest_Some latest_None by (auto split: option.split)
qed

definition sample_event :: "stamp \<Rightarrow> topic \<Rightarrow> string \<Rightarrow> event" where
  "sample_event instant topic job =
     \<lparr>ev_at = instant, ev_batch = ''b'', ev_topic = topic, ev_job = job, ev_data = []\<rparr>"

theorem cursor_ignores_redelivery_witness:
  "map_option ev_at (map_of (latest [T_HELD, T_SUBMITTED]
      [sample_event ''2'' T_SUBMITTED ''j'', sample_event ''1'' T_HELD ''j'',
       sample_event ''1'' T_HELD ''j'']) ''j'') = Some ''2''"
proof -
  let ?held = "sample_event ''1'' T_HELD ''j''" and ?sub = "sample_event ''2'' T_SUBMITTED ''j''"
  have same: "set [?held, ?sub] = set [?sub, ?held, ?held]" by auto
  have "map_option ev_at (map_of (latest [T_HELD, T_SUBMITTED] [?held, ?sub]) ''j'') = Some ''2''"
    by code_simp
  with cursor_ignores_redelivery [OF same, of "[T_HELD, T_SUBMITTED]" "''j''"] show ?thesis by simp
qed

text \<open>
  The index a settling pass keeps is the one a fresh replay of its stream would build: publish
  through it and it stays so. What it answers for one submission is the newest line of that topic
  and job whose payload names that very submission, so a reused handle or label never borrows
  another run's line; without a submission it is the newest line of the topic and job; and it
  answers nothing only when the stream holds no such line.
\<close>

theorem settlement_index_is_replay:
  assumes "receipts_publish w stream (receipts_index (replay stream s)) topic job data s = (Inr index, t)"
  shows "index = receipts_index (replay stream t) \<and>
    (receipts_get index topic' job' sub = Some e \<longrightarrow>
       e \<in> set (replay stream t) \<and> ev_topic e = topic' \<and> ev_job e = job' \<and>
       (\<forall>d. sub = Some d \<longrightarrow> submission_of (ev_data e) = submission_of d) \<and>
       (\<forall>x \<in> set (replay stream t). ev_topic x = topic' \<and> ev_job x = job' \<and>
          (\<forall>d. sub = Some d \<longrightarrow> submission_of (ev_data x) = submission_of d) \<longrightarrow> ev_at x \<le> ev_at e)) \<and>
    (receipts_get index topic' job' sub = None \<and> topic' \<in> {T_STATE, T_EVIDENCE} \<longrightarrow>
       (\<forall>x \<in> set (replay stream t). ev_topic x = topic' \<and> ev_job x = job' \<longrightarrow>
          (\<exists>d. sub = Some d \<and> submission_of (ev_data x) \<noteq> submission_of d)))"
proof -
  have t: "t = snd (publish w stream topic job data s)"
    using assms by (auto simp: receipts_publish_def andThen_apply publish_apply Let_def)
  have index: "index = receipts_index (replay stream t)"
    using assms
    by (auto simp: receipts_publish_def andThen_apply publish_apply Let_def receipts_index_def replay_journal)
  show ?thesis
    unfolding index using receipts_get_Some [of "replay stream t" topic' job' sub e]
      receipts_get_None [of "replay stream t" topic' job' sub] by blast
qed

definition empty_store :: store where
  "empty_store = lake.extend empty_lake \<lparr>st_events = [], st_receipts = [], st_log_lines = []\<rparr>"

theorem settlement_index_is_replay_witness:
  "\<exists>index t. receipts_publish sample_world ''b'' (receipts_index (replay ''b'' empty_store)) T_STATE ''j''
       [(''handle'', JStr ''7'')] empty_store = (Inr index, t) \<and>
     index = receipts_index (replay ''b'' t)"
proof -
  have "\<exists>index t. receipts_publish sample_world ''b'' (receipts_index (replay ''b'' empty_store)) T_STATE ''j''
       [(''handle'', JStr ''7'')] empty_store = (Inr index, t)"
    by (simp add: receipts_publish_def andThen_apply publish_apply Let_def)
  then show ?thesis using settlement_index_is_replay by blast
qed

end
