(* ===== verification/Json_Text.thy ===== *)
theory Json_Text
  imports Prelude
begin

text \<open>
  \<open>json.loads\<close>, as the code uses it on receipt lines and printed metadata: the standard decoder with
  its number, string and literal grammar, blanks between tokens, and the dictionary rule that a
  repeated key keeps its last value. Text is ASCII, so a character past the byte range that a line
  spells as \<open>\u\<close> escape reads as a question mark. The decoder recurses on fuel; a value is never
  longer than its text, so the length of the text is enough.
\<close>

definition json_blank :: "char \<Rightarrow> bool" where
  "json_blank c \<longleftrightarrow> c \<in> {CHR '' '', CHR 0x09, CHR 0x0A, CHR 0x0D}"

definition skip :: "string \<Rightarrow> string" where
  "skip s = dropWhile json_blank s"

definition hex_value :: "char \<Rightarrow> nat option" where
  "hex_value c =
     (let n = of_char c :: nat in
      if 48 \<le> n \<and> n \<le> 57 then Some (n - 48)
      else if 65 \<le> n \<and> n \<le> 70 then Some (n - 55)
      else if 97 \<le> n \<and> n \<le> 102 then Some (n - 87) else None)"

definition code_char :: "nat \<Rightarrow> char" where
  "code_char n = (if n < 256 then char_of n else CHR ''?'')"

text \<open>The rest of a string literal after its opening quote, and what follows its closing one.\<close>

fun scan_string :: "string \<Rightarrow> (string \<times> string) option" where
  "scan_string [] = None"
| "scan_string (c # cs) =
     (if c = CHR 0x22 then Some ([], cs)
      else if c = CHR 0x5C then
        (case cs of
           [] \<Rightarrow> None
         | e # es \<Rightarrow>
             if e = CHR ''u'' then
               (case es of
                  h1 # h2 # h3 # h4 # rest \<Rightarrow>
                    (case (hex_value h1, hex_value h2, hex_value h3, hex_value h4) of
                       (Some a, Some b, Some c', Some d) \<Rightarrow>
                         map_option (\<lambda>(t, r). (code_char (((a * 16 + b) * 16 + c') * 16 + d) # t, r))
                           (scan_string rest)
                     | _ \<Rightarrow> None)
                | _ \<Rightarrow> None)
             else
               (case map_of [(CHR 0x22, CHR 0x22), (CHR 0x5C, CHR 0x5C), (CHR ''/'', CHR ''/''),
                             (CHR ''b'', CHR 0x08), (CHR ''f'', CHR 0x0C), (CHR ''n'', CHR 0x0A),
                             (CHR ''r'', CHR 0x0D), (CHR ''t'', CHR 0x09)] e of
                  None \<Rightarrow> None
                | Some x \<Rightarrow> map_option (\<lambda>(t, r). (x # t, r)) (scan_string es)))
      else if (of_char c :: nat) < 32 then None
      else map_option (\<lambda>(t, r). (c # t, r)) (scan_string cs))"

text \<open>A number: an integer unless a fraction or an exponent follows, then a float kept as text.\<close>

definition scan_number :: "string \<Rightarrow> (json \<times> string) option" where
  "scan_number s =
     (let (sign, rest) = (case s of CHR ''-'' # r \<Rightarrow> (''-'', r) | _ \<Rightarrow> ([], s));
          digits = takeWhile is_digit rest;
          whole = (case digits of CHR ''0'' # _ \<Rightarrow> ''0'' | _ \<Rightarrow> digits);
          after = drop (length whole) rest;
          frac = (case after of CHR ''.'' # r \<Rightarrow>
                    (let d = takeWhile is_digit r in if d = [] then [] else CHR ''.'' # d) | _ \<Rightarrow> []);
          after' = drop (length frac) after;
          expo = (case after' of
                    e # r \<Rightarrow>
                      if e = CHR ''e'' \<or> e = CHR ''E'' then
                        (let (sg, ds) = (case r of c # r' \<Rightarrow> if c = CHR ''+'' \<or> c = CHR ''-''
                                            then ([c], takeWhile is_digit r')
                                            else ([], takeWhile is_digit r) | [] \<Rightarrow> ([], []))
                         in if ds = [] then [] else e # sg @ ds)
                      else []
                  | [] \<Rightarrow> [])
      in if digits = [] then None
         else if frac = [] \<and> expo = []
           then Some (JInt (if sign = [] then int (digits_value whole) else - int (digits_value whole)), after')
         else Some (JFloat (sign @ whole @ frac @ expo), drop (length expo) after'))"

definition literals :: "(string \<times> json) list" where
  "literals = [(''null'', JNull), (''true'', JBool True), (''false'', JBool False),
     (''NaN'', JFloat ''nan''), (''Infinity'', JFloat ''inf''), (''-Infinity'', JFloat ''-inf'')]"

definition scan_literal :: "string \<Rightarrow> (json \<times> string) option" where
  "scan_literal s =
     (case find (\<lambda>(t, _). prefix t s) literals of
        None \<Rightarrow> None | Some (t, v) \<Rightarrow> Some (v, drop (length t) s))"

fun scan_value :: "nat \<Rightarrow> string \<Rightarrow> (json \<times> string) option"
  and scan_items :: "nat \<Rightarrow> string \<Rightarrow> (json list \<times> string) option"
  and scan_members :: "nat \<Rightarrow> (string, json) dict \<Rightarrow> string \<Rightarrow> ((string, json) dict \<times> string) option" where
  "scan_value 0 s = None"
| "scan_value (Suc n) s =
     (case s of
        [] \<Rightarrow> None
      | c # cs \<Rightarrow>
          if c = CHR 0x22 then map_option (\<lambda>(t, r). (JStr t, r)) (scan_string cs)
          else if c = CHR ''['' then
            (case skip cs of
               CHR '']'' # r \<Rightarrow> Some (JList [], r)
             | body \<Rightarrow> map_option (\<lambda>(vs, r). (JList vs, r)) (scan_items n body))
          else if c = CHR 0x7B then
            (case skip cs of
               CHR 0x7D # r \<Rightarrow> Some (JObj [], r)
             | body \<Rightarrow> map_option (\<lambda>(kvs, r). (JObj kvs, r)) (scan_members n [] body))
          else (case scan_literal s of Some r \<Rightarrow> Some r | None \<Rightarrow> scan_number s))"
| "scan_items 0 s = None"
| "scan_items (Suc n) s =
     (case scan_value n s of
        None \<Rightarrow> None
      | Some (v, r) \<Rightarrow>
          (case skip r of
             CHR '']'' # r' \<Rightarrow> Some ([v], r')
           | CHR '','' # r' \<Rightarrow> map_option (\<lambda>(vs, q). (v # vs, q)) (scan_items n (skip r'))
           | _ \<Rightarrow> None))"
| "scan_members 0 d s = None"
| "scan_members (Suc n) d s =
     (case s of
        CHR 0x22 # cs \<Rightarrow>
          (case scan_string cs of
             None \<Rightarrow> None
           | Some (k, r) \<Rightarrow>
               (case skip r of
                  CHR '':'' # r' \<Rightarrow>
                    (case scan_value n (skip r') of
                       None \<Rightarrow> None
                     | Some (v, q) \<Rightarrow>
                         (case skip q of
                            CHR 0x7D # q' \<Rightarrow> Some (AList.update k v d, q')
                          | CHR '','' # q' \<Rightarrow> scan_members n (AList.update k v d) (skip q')
                          | _ \<Rightarrow> None))
                | _ \<Rightarrow> None))
      | _ \<Rightarrow> None)"

text \<open>\<open>json.loads\<close>: \<open>None\<close> where it raises \<open>JSONDecodeError\<close>.\<close>

definition json_loads :: "string \<Rightarrow> json option" where
  "json_loads s =
     (case scan_value (Suc (2 * length s)) (skip s) of
        Some (v, r) \<Rightarrow> if skip r = [] then Some v else None
      | None \<Rightarrow> None)"

end
