(* ===== verification/Captured.thy ===== *)
theory Captured
  imports Receipts Json_Text
begin

text \<open>
  What a settle keeps of a run before its machine may go away (\<open>dispatch/state/captured.py\<close>): the
  transcript, line by line, and the trial receipts, verbatim. The lemmas show that a transcript
  reads back as it was kept, whatever other runs kept, that keeping it twice writes nothing, and
  that a stream holds every receipt once, in the order they first came.
\<close>

section \<open>Operations\<close>

definition transcript_file :: "string \<Rightarrow> string \<Rightarrow> string" where
  "transcript_file stream handle = stream @ ''/'' @ handle @ ''.log''"

definition receipt_fields :: "string \<Rightarrow> payload" where
  "receipt_fields line =
     (case json_loads line of
        Some (JObj envelope) \<Rightarrow>
          (case map_of envelope ''trial_receipt'' of Some (JObj found) \<Rightarrow> found | _ \<Rightarrow> [])
      | _ \<Rightarrow> [])"

definition receipt_row_of ::
  "'w world_scheme \<Rightarrow> string \<Rightarrow> nat \<times> string \<Rightarrow> ('s store_scheme, receipt_row) comp" where
  "receipt_row_of w stream numbered =
     (let receipt = receipt_fields (snd numbered) in
      andThen (now_text w) (\<lambda>t.
        ret \<lparr>rr_ts = t, rr_batch = stream, rr_n = fst numbered,
             rr_run = map_of receipt ''run'', rr_trial = map_of receipt ''trial'',
             rr_verdict = map_of receipt ''verdict'', rr_host = map_of receipt ''host'',
             rr_line = snd numbered\<rparr>))"

definition receipts :: "string \<Rightarrow> 's store_scheme \<Rightarrow> string list" where
  "receipts stream s = map rr_line (filter (\<lambda>row. rr_batch row = stream) (st_receipts s))"

definition keep_receipts :: "'w world_scheme \<Rightarrow> string \<Rightarrow> string list \<Rightarrow> ('s store_scheme, unit) comp" where
  "keep_receipts w stream given =
     andThen (reading (receipts stream)) (\<lambda>held.
       let fresh = filter (\<lambda>line. line \<notin> set held) (fromkeys given) in
       andThen (each (receipt_row_of w stream) (List.enumerate (Suc (length held)) fresh))
         (\<lambda>rows. changing (\<lambda>s. s\<lparr>st_receipts := st_receipts s @ rows\<rparr>)))"

text \<open>
  The newest captured output: the rows of the file under its largest stamp, by line number; with
  \<open>last\<close> (here \<open>final\<close>) only that many final lines.
\<close>

definition transcript :: "string \<Rightarrow> string \<Rightarrow> nat \<Rightarrow> 's store_scheme \<Rightarrow> string option" where
  "transcript stream handle final s =
     (let file = filter (\<lambda>row. ln_file row = transcript_file stream handle) (st_log_lines s) in
      if file = [] then None
      else let newest = foldr (\<lambda>row t. max (ln_ts row) t) file (ln_ts (hd file));
               ls = sort_key ln_n (filter (\<lambda>row. ln_ts row = newest) file);
               top = foldr (\<lambda>row n. max (ln_n row) n) ls 0;
               kept = (if final \<noteq> 0 then filter (\<lambda>row. top < ln_n row + final) ls else ls)
           in if kept = [] then None else Some (join_with [CHR 0x0A] (map ln_line kept)))"

definition keep_transcript ::
  "'w world_scheme \<Rightarrow> string \<Rightarrow> string \<Rightarrow> string \<Rightarrow> ('s store_scheme, unit) comp" where
  "keep_transcript w stream handle text =
     andThen (reading (transcript stream handle 0)) (\<lambda>held.
       if held \<noteq> Some text
       then andThen (now_text w) (\<lambda>t.
              changing (\<lambda>s. s\<lparr>st_log_lines := st_log_lines s @
                map (\<lambda>(n, line). \<lparr>ln_ts = t, ln_batch = stream,
                       ln_file = transcript_file stream handle, ln_n = n, ln_line = line, ln_lossy = False\<rparr>)
                  (List.enumerate 1 (split_on (CHR 0x0A) text))\<rparr>))
       else ret ())"


section \<open>Lemmas\<close>

lemma each_receipt_rows:
  "\<exists>rows. each (receipt_row_of w stream) numbered s =
     (Inr rows, s\<lparr>lk_ticks := lk_ticks s + length numbered\<rparr>) \<and>
     map rr_line rows = map snd numbered \<and> map rr_n rows = map fst numbered \<and>
     (\<forall>row \<in> set rows. rr_batch row = stream)"
proof (induction numbered arbitrary: s)
  case Nil
  show ?case by simp
next
  case (Cons x xs)
  obtain row t where x: "receipt_row_of w stream x s = (Inr row, t)" "rr_line row = snd x"
    "rr_n row = fst x" "rr_batch row = stream" and t: "t = s\<lparr>lk_ticks := Suc (lk_ticks s)\<rparr>"
    by (simp add: receipt_row_of_def Let_def andThen_apply)
  from Cons.IH [of t] obtain rows where "each (receipt_row_of w stream) xs t =
      (Inr rows, t\<lparr>lk_ticks := lk_ticks t + length xs\<rparr>)"
    "map rr_line rows = map snd xs" "map rr_n rows = map fst xs" "\<forall>row \<in> set rows. rr_batch row = stream"
    by blast
  then show ?case using x by (simp add: andThen_apply t)
qed

lemma keep_receipts_apply:
  obtains t rows where "keep_receipts w stream given s = (Inr (), t)"
    and "st_receipts t = st_receipts s @ rows"
    and "map rr_line rows = filter (\<lambda>line. line \<notin> set (receipts stream s)) (fromkeys given)"
    and "map rr_n rows = [Suc (length (receipts stream s))..<
           Suc (length (receipts stream s)) + length rows]"
    and "\<forall>row \<in> set rows. rr_batch row = stream"
    and "st_log_lines t = st_log_lines s" and "st_events t = st_events s" and "runs_log t = runs_log s"
    and "host_facts t = host_facts s"
proof -
  let ?held = "receipts stream s"
  let ?fresh = "filter (\<lambda>line. line \<notin> set ?held) (fromkeys given)"
  let ?numbered = "List.enumerate (Suc (length ?held)) ?fresh"
  obtain rows where rows: "each (receipt_row_of w stream) ?numbered s =
      (Inr rows, s\<lparr>lk_ticks := lk_ticks s + length ?numbered\<rparr>)"
    and "map rr_line rows = map snd ?numbered" "map rr_n rows = map fst ?numbered"
    and batch: "\<forall>row \<in> set rows. rr_batch row = stream"
    using each_receipt_rows [of w stream ?numbered s] by blast
  then have line: "map rr_line rows = ?fresh"
    and n: "map rr_n rows = [Suc (length ?held)..<Suc (length ?held) + length ?fresh]"
    by (simp_all only: map_snd_enumerate map_fst_enumerate)
  have len: "length rows = length ?fresh" using line by (metis length_map)
  let ?t = "s\<lparr>lk_ticks := lk_ticks s + length ?numbered, st_receipts := st_receipts s @ rows\<rparr>"
  have "keep_receipts w stream given s = (Inr (), ?t)"
    using rows by (simp add: keep_receipts_def andThen_apply Let_def)
  then show ?thesis by (rule that) (use line n batch len in \<open>simp_all del: upt_Suc\<close>)
qed

lemma split_on_not_Nil [simp]: "split_on c s \<noteq> []"
  by (induction s) (auto split: list.splits)

lemma join_split: "join_with [CHR 0x0A] (split_on (CHR 0x0A) s) = s"
proof (induction s)
  case (Cons c cs)
  obtain w ws where ws: "split_on (CHR 0x0A) cs = w # ws" by (metis split_on_not_Nil neq_Nil_conv)
  show ?case using Cons ws by (cases ws) simp_all
qed simp

text \<open>The rows one capture of a transcript adds.\<close>

definition transcript_rows :: "stamp \<Rightarrow> string \<Rightarrow> string \<Rightarrow> string \<Rightarrow> line_row list" where
  "transcript_rows t stream handle said =
     map (\<lambda>(n, line). \<lparr>ln_ts = t, ln_batch = stream, ln_file = transcript_file stream handle, ln_n = n,
            ln_line = line, ln_lossy = False\<rparr>) (List.enumerate 1 (split_on (CHR 0x0A) said))"

lemma keep_transcript_apply:
  "keep_transcript w stream handle said s =
     (Inr (), if transcript stream handle 0 s = Some said then s
              else s\<lparr>lk_ticks := Suc (lk_ticks s), st_log_lines := st_log_lines s @
                     transcript_rows (now_at w (lk_ticks s)) stream handle said\<rparr>)"
  by (simp add: keep_transcript_def andThen_apply transcript_rows_def)

lemma transcript_rows_shape:
  "map ln_line (transcript_rows t stream handle said) = split_on (CHR 0x0A) said"
  "sorted (map ln_n (transcript_rows t stream handle said))"
  "\<forall>row \<in> set (transcript_rows t stream handle said). ln_ts row = t \<and> ln_file row = transcript_file stream handle"
  "transcript_rows t stream handle said \<noteq> []"
proof -
  have "map ln_line (transcript_rows t stream handle said) = map snd (List.enumerate 1 (split_on (CHR 0x0A) said))"
    unfolding transcript_rows_def map_map by (rule map_cong) auto
  then show "map ln_line (transcript_rows t stream handle said) = split_on (CHR 0x0A) said" by simp
  have "map ln_n (transcript_rows t stream handle said) = map fst (List.enumerate 1 (split_on (CHR 0x0A) said))"
    unfolding transcript_rows_def map_map by (rule map_cong) auto
  then show "sorted (map ln_n (transcript_rows t stream handle said))" by (simp del: upt_Suc)
  have "length (transcript_rows t stream handle said) = length (split_on (CHR 0x0A) said)"
    by (simp add: transcript_rows_def)
  then show "transcript_rows t stream handle said \<noteq> []" by (metis length_0_conv split_on_not_Nil)
qed (auto simp: transcript_rows_def)

lemma newest_stamp:
  assumes "\<forall>row \<in> set old. ln_ts row < t" and "\<forall>row \<in> set new. ln_ts row = t" and "new \<noteq> []"
  shows "foldr (\<lambda>row u. max (ln_ts row) u) (old @ new) (ln_ts (hd (old @ new))) = t"
proof -
  have new': "foldr (\<lambda>row u. max (ln_ts row) u) rows u = t"
    if "\<forall>row \<in> set rows. ln_ts row = t" "u \<le> t" "rows \<noteq> []" for rows u
  proof -
    have "foldr (\<lambda>row u. max (ln_ts row) u) rows u \<le> t" using that(1,2) by (induction rows) auto
    with that(1,3) show ?thesis by (cases rows) (auto simp: max_def)
  qed
  have old': "foldr (\<lambda>row u. max (ln_ts row) u) rows t = t" if "\<forall>row \<in> set rows. ln_ts row < t" for rows
    using that by (induction rows) (auto simp: max_def)
  have "ln_ts (hd (old @ new)) \<le> t" using assms by (cases old) (auto intro: hd_in_set less_imp_le)
  with assms show ?thesis by (simp add: new' old')
qed

lemma transcript_appended:
  assumes "\<forall>row \<in> set (st_log_lines s). ln_file row = transcript_file stream handle \<longrightarrow> ln_ts row < t"
    and "st_log_lines u = st_log_lines s @ transcript_rows t stream handle said"
  shows "transcript stream handle 0 u = Some said"
proof -
  let ?file = "\<lambda>row. ln_file row = transcript_file stream handle"
  let ?new = "transcript_rows t stream handle said"
  let ?old = "filter ?file (st_log_lines s)"
  note shape = transcript_rows_shape [of t stream handle said]
  have rows: "filter ?file (st_log_lines u) = ?old @ ?new"
    using shape(3) by (simp add: assms(2) filter_id_conv)
  have newest: "foldr (\<lambda>row u. max (ln_ts row) u) (?old @ ?new) (ln_ts (hd (?old @ ?new))) = t"
    using assms(1) shape(3,4) by (intro newest_stamp) auto
  have "filter (\<lambda>row. ln_ts row = t) ?old = []" using assms(1) by (auto simp: filter_empty_conv)
  moreover have "filter (\<lambda>row. ln_ts row = t) ?new = ?new" using shape(3) by (simp add: filter_id_conv)
  ultimately have "filter (\<lambda>row. ln_ts row = t) (?old @ ?new) = ?new" by simp
  moreover have "sort_key ln_n ?new = ?new" using shape(2) by (rule sort_key_id_if_sorted)
  ultimately show ?thesis
    using shape(1,4) newest by (simp add: transcript_def rows Let_def join_split)
qed

lemma transcript_other_file:
  assumes "transcript_file stream' handle' \<noteq> transcript_file stream handle"
    and "st_log_lines u = st_log_lines s @ transcript_rows t stream handle said"
  shows "transcript stream' handle' k u = transcript stream' handle' k s"
proof -
  have "filter (\<lambda>row. ln_file row = transcript_file stream' handle') (st_log_lines u) =
      filter (\<lambda>row. ln_file row = transcript_file stream' handle') (st_log_lines s)"
    using transcript_rows_shape(3) [of t stream handle said] assms by (auto simp: filter_empty_conv)
  then show ?thesis by (simp add: transcript_def)
qed


section \<open>Properties\<close>

text \<open>
  A captured transcript is the newest one: when the clock has moved past every stamp already
  filed for a run, \<open>keep_transcript\<close> leaves exactly that text, line breaks included, as the run's
  transcript; no other file reads differently; and capturing the same text again writes nothing.
\<close>

theorem transcript_reads_back:
  assumes "\<forall>row \<in> set (st_log_lines s).
      ln_file row = transcript_file stream handle \<longrightarrow> ln_ts row < now_at w (lk_ticks s)"
    and "keep_transcript w stream handle said s = (r, t)"
  shows "r = Inr () \<and> transcript stream handle 0 t = Some said \<and>
    (\<forall>stream' handle' k. transcript_file stream' handle' \<noteq> transcript_file stream handle \<longrightarrow>
       transcript stream' handle' k t = transcript stream' handle' k s) \<and>
    keep_transcript w stream handle said t = (Inr (), t)"
proof (cases "transcript stream handle 0 s = Some said")
  case True
  with assms(2) show ?thesis by (auto simp: keep_transcript_apply)
next
  case False
  with assms(2) have r: "r = Inr ()"
    and t: "st_log_lines t = st_log_lines s @ transcript_rows (now_at w (lk_ticks s)) stream handle said"
    by (auto simp: keep_transcript_apply)
  from transcript_appended [OF assms(1) t] have "transcript stream handle 0 t = Some said" .
  with r transcript_other_file [OF _ t] show ?thesis by (auto simp: keep_transcript_apply)
qed

theorem transcript_reads_back_witness:
  "transcript ''b'' ''7'' 0 (snd (keep_transcript sample_world ''b'' ''7'' (''one'' @ [CHR 0x0A] @ ''two'') empty_store)) =
     Some (''one'' @ [CHR 0x0A] @ ''two'')"
proof -
  have "\<forall>row \<in> set (st_log_lines empty_store). ln_file row = transcript_file ''b'' ''7'' \<longrightarrow>
      ln_ts row < now_at sample_world (lk_ticks empty_store)"
    by (simp add: empty_store_def lake.extend_def)
  from transcript_reads_back [OF this surjective_pairing] show ?thesis by blast
qed

text \<open>
  A stream holds every receipt once: \<open>keep_receipts\<close> appends, in the order given, exactly the
  lines the stream does not hold yet, each once, numbered on from the last one; what the stream held
  stays in front, no other stream changes, and keeping the same lines again adds nothing.
\<close>

theorem receipts_kept_once:
  assumes "keep_receipts w stream given s = (r, t)"
  shows "r = Inr () \<and>
    receipts stream t = receipts stream s @ filter (\<lambda>line. line \<notin> set (receipts stream s)) (fromkeys given) \<and>
    set given \<subseteq> set (receipts stream t) \<and>
    (distinct (receipts stream s) \<longrightarrow> distinct (receipts stream t)) \<and>
    (map rr_n (filter (\<lambda>row. rr_batch row = stream) (st_receipts s)) = [1..<Suc (length (receipts stream s))] \<longrightarrow>
     map rr_n (filter (\<lambda>row. rr_batch row = stream) (st_receipts t)) = [1..<Suc (length (receipts stream t))]) \<and>
    (\<forall>other. other \<noteq> stream \<longrightarrow> receipts other t = receipts other s) \<and>
    st_receipts (snd (keep_receipts w stream given t)) = st_receipts t"
proof -
  let ?fresh = "filter (\<lambda>line. line \<notin> set (receipts stream s)) (fromkeys given)"
  obtain rows where r: "r = Inr ()" and t: "st_receipts t = st_receipts s @ rows"
    and line: "map rr_line rows = ?fresh"
    and n: "map rr_n rows = [Suc (length (receipts stream s))..<Suc (length (receipts stream s)) + length rows]"
    and batch: "\<forall>row \<in> set rows. rr_batch row = stream"
    by (rule keep_receipts_apply [of w stream given s]) (use assms in auto)
  have mine: "filter (\<lambda>row. rr_batch row = stream) rows = rows" using batch by (simp add: filter_id_conv)
  have now: "receipts stream t = receipts stream s @ ?fresh"
    unfolding line [symmetric] by (simp add: receipts_def t mine)
  have numbered: "[1..<Suc (length (receipts stream t))] =
      [1..<Suc (length (receipts stream s))] @
      [Suc (length (receipts stream s))..<Suc (length (receipts stream s)) + length rows]"
    using upt_add_eq_append [of 1 "Suc (length (receipts stream s))" "length rows"]
    by (simp add: now flip: line)
  have others: "receipts other t = receipts other s" if "other \<noteq> stream" for other
    using that batch by (auto simp: receipts_def t filter_empty_conv)
  have all: "set given \<subseteq> set (receipts stream t)" by (auto simp: now)
  obtain u rows' where "keep_receipts w stream given t = (Inr (), u)" "st_receipts u = st_receipts t @ rows'"
    "map rr_line rows' = filter (\<lambda>line. line \<notin> set (receipts stream t)) (fromkeys given)"
    by (rule keep_receipts_apply [of w stream given t])
  moreover have "filter (\<lambda>line. line \<notin> set (receipts stream t)) (fromkeys given) = []"
    using all by (auto simp: filter_empty_conv)
  ultimately have again: "st_receipts (snd (keep_receipts w stream given t)) = st_receipts t" by simp
  have "distinct (receipts stream t)" if "distinct (receipts stream s)"
    using that by (auto simp: now)
  moreover have "map rr_n (filter (\<lambda>row. rr_batch row = stream) (st_receipts t)) = [1..<Suc (length (receipts stream t))]"
    if "map rr_n (filter (\<lambda>row. rr_batch row = stream) (st_receipts s)) = [1..<Suc (length (receipts stream s))]"
    using that by (simp only: t filter_append map_append mine n numbered)
  ultimately show ?thesis using r now all others again by blast
qed

theorem receipts_kept_once_witness:
  "receipts ''b'' (snd (keep_receipts sample_world ''b'' [''x'', ''y'', ''x''] empty_store)) = [''x'', ''y'']"
proof -
  have "receipts ''b'' empty_store = []" by (simp add: receipts_def empty_store_def lake.extend_def)
  moreover have "fromkeys [''x'', ''y'', ''x''] = [''x'', ''y'']" by code_simp
  ultimately show ?thesis
    using receipts_kept_once [OF surjective_pairing, of sample_world "''b''" "[''x'', ''y'', ''x'']" empty_store]
    by simp
qed

end
