(* ===== verification/Settlement.thy ===== *)
theory Settlement
  imports Captured Evidence
begin

text \<open>
  Settling one run (\<open>settling/monitor/settlement.py\<close>), with what it is built on: the route from a
  dispatch label to a receipts stream (\<open>tracking/base.py\<close>, \<open>batch/runner.py\<close>), the verbs of a
  dispatched run (\<open>fleet/runs.py\<close>), the reasons a scheduler gives (\<open>dispatch/schedulers/base.py\<close>)
  and the report rows (\<open>dispatch/state/monitor.py\<close>). Hosts and providers are outside the
  repository: what they answer is a parameter, indexed by how many effects happened before, and
  every effect on them is recorded in a trace.
\<close>

section \<open>What is outside\<close>

record handle =
  hd_id :: string
  hd_host :: string
  hd_root :: string
  hd_kind :: string
  hd_fetch_path :: "string option"

text \<open>
  A dispatched run as an object: \<open>Job\<close> on an ssh-family host, or \<open>ProviderJob\<close>, whose backend may
  or may not keep logs.
\<close>

record run_obj =
  ro_handle :: handle
  ro_provider :: bool
  ro_log_source :: bool

record settlement_owner =
  so_pid :: int
  so_host :: string
  so_started_at :: stamp
  so_phase :: string
  so_heartbeat :: stamp
  so_deadline :: string

record settlement_busy =
  sb_owner :: "settlement_owner option"
  sb_observed_at :: stamp
  sb_age_s :: "rat option"
  sb_last_success :: string

text \<open>What a pass does to the world beyond the lake, in order.\<close>

datatype effect =
    Read handle | Pulled handle | Unpulled handle | Released handle | Unreleased handle
  | Cancelled string string | Uncancelled string string | Asked request | Probed handle
  | Framed handle | Checked "string list" string | Reaped | Killed handle | Unkilled handle

text \<open>
  The answers of everything outside: clocks, the journal's faults, the manifest's declarations,
  hosts, providers, the artifact check, the dispatcher, and the settlement lock. A dispatch also
  records rows of its own, which it answers as registry operations.
\<close>

record outside = world +
  x_clock :: "nat \<Rightarrow> int"
  x_monotonic :: "nat \<Rightarrow> rat"
  x_bus_fault :: "nat \<Rightarrow> fault option"
  x_project :: string
  x_declares :: "string \<Rightarrow> bool"
  x_backends :: "string list"
  x_job :: "nat \<Rightarrow> string \<Rightarrow> string \<Rightarrow> fault + run_obj"
  x_listing :: "nat \<Rightarrow> handle \<Rightarrow> string list \<Rightarrow> fault + (string, job_state) dict"
  x_state :: "nat \<Rightarrow> handle \<Rightarrow> string \<Rightarrow> fault + job_state"
  x_logs :: "nat \<Rightarrow> handle \<Rightarrow> fault + string"
  x_pull :: "nat \<Rightarrow> handle \<Rightarrow> fault option"
  x_cancel :: "nat \<Rightarrow> string \<Rightarrow> string \<Rightarrow> fault option"
  x_verify :: "nat \<Rightarrow> string list \<Rightarrow> string \<Rightarrow> fault option"
  x_dispatch :: "nat \<Rightarrow> request \<Rightarrow> (fault + run_obj) \<times> registry_op list"
  x_holder :: "nat \<Rightarrow> settlement_busy option"

text \<open>One line of the settling pass's event stream (\<open>settling/events.py\<close>).\<close>

datatype job_event_kind = EV_DISPATCHED | EV_FAILED | EV_HELD | EV_OK

record job_event =
  je_at :: stamp
  je_kind :: job_event_kind
  je_host :: string
  je_handle :: string
  je_name :: string
  je_node :: string
  je_detail :: string

text \<open>
  The state of a settling process: the lake, the trace, and what the pass keeps in memory. The
  lock's record says who holds it and when a pass last ran to its end.
\<close>

record center = store +
  c_trace :: "effect list"
  c_streams :: "(string, index) dict"
  c_quiet :: "(string, string) dict"
  c_fetched :: "(string \<times> string \<times> string, string option) dict"
  c_silent :: "(string, rat \<times> string) dict"
  c_owner :: settlement_owner
  c_success :: stamp
  c_job_events :: "job_event list"

definition doing :: "effect \<Rightarrow> ('s center_scheme, unit) comp" where
  "doing e = changing (\<lambda>s. s\<lparr>c_trace := c_trace s @ [e]\<rparr>)"

definition moment :: "'s center_scheme \<Rightarrow> nat" where
  "moment s = length (c_trace s)"


section \<open>Labels, reasons and rows\<close>

definition LABEL :: string where "LABEL = ''batch:''"

definition labelled_batch :: "string \<Rightarrow> string" where
  "labelled_batch name = (if prefix LABEL name then removeprefix LABEL name else [])"

definition streamed :: "string \<Rightarrow> string \<Rightarrow> string \<times> string" where
  "streamed name handle =
     (let inside = labelled_batch name in
      if inside \<noteq> []
      then (case partition_at (CHR ''/'') inside of (stream, _, job) \<Rightarrow>
              (stream, if job \<noteq> [] then job else stream))
      else if name \<noteq> [] then (name, name) else (''run-'' @ handle, handle))"

definition is_batched :: "string \<Rightarrow> bool" where
  "is_batched name \<longleftrightarrow> labelled_batch name \<noteq> []"

definition quota_markers :: "string list" where
  "quota_markers = [''limit on resource njobs'', ''max_queued'', ''maximum number of jobs'',
     ''qosmaxjobsperuserlimit'', ''qosmaxsubmitjobperuserlimit'', ''assocmaxjobslimit'',
     ''assocmaxsubmitjoblimit'']"

definition is_quota_refusal :: "string \<Rightarrow> bool" where
  "is_quota_refusal reason = (let low = lower reason in list_ex (\<lambda>m. occurs m low) quota_markers)"

definition signal_exits :: "(int, string) dict" where
  "signal_exits =
    [(124, ''timed out (walltime exceeded)''),
     (125, ''timeout failed to start the job''),
     (126, ''the command is not executable (exit 126)''),
     (127, ''command not found (exit 127)''),
     (137, ''killed by SIGKILL (out of memory or walltime, exit 137)''),
     (139, ''crashed with SIGSEGV (segfault, exit 139)''),
     (143, ''terminated by SIGTERM (walltime or cancel, exit 143)'')]"

definition exit_reason :: "int option \<Rightarrow> string option" where
  "exit_reason exit_code = (case exit_code of None \<Rightarrow> None | Some n \<Rightarrow> map_of signal_exits n)"

definition short_reason :: "string \<Rightarrow> int option \<Rightarrow> string" where
  "short_reason verdict exit_code =
     (if verdict = word_text CANCELLED
      then ''cancelled (stopped on purpose, not by the job or the queue)''
      else if verdict = word_text VANISHED
      then ''vanished (the scheduler no longer remembers the job)''
      else (case exit_reason exit_code of
              Some known \<Rightarrow> known
            | None \<Rightarrow> (case exit_code of Some n \<Rightarrow> ''exited '' @ int_text n | None \<Rightarrow> ''failed'')))"

record finished =
  fi_handle :: string
  fi_target :: string
  fi_pulled_path :: "string option"

record failed =
  fa_handle :: string
  fa_target :: string
  fa_reason :: string
  fa_pulled_path :: "string option"

record held =
  he_handle :: string
  he_target :: string
  he_reason :: string

record resumed_row =
  re_handle :: string
  re_target :: string
  re_name :: string

record down_host =
  dh_host :: string
  dh_reason :: string

record monitor_report =
  mr_running :: nat
  mr_busy :: "settlement_busy option"
  mr_resumed :: "resumed_row list"
  mr_held :: "held list"
  mr_finished :: "finished list"
  mr_failed :: "failed list"
  mr_unreachable_hosts :: "down_host list"

datatype outcome = OFinished finished | OFailed failed

datatype held_outcome = HResumed resumed_row | HHeld held | HFailed failed

definition report_changed :: "monitor_report \<Rightarrow> bool" where
  "report_changed r \<longleftrightarrow> mr_finished r \<noteq> [] \<or> mr_failed r \<noteq> []"

definition failure :: "run_record \<Rightarrow> string \<Rightarrow> failed" where
  "failure record reason =
     \<lparr>fa_handle = run_handle record, fa_target = run_target record, fa_reason = reason,
      fa_pulled_path = None\<rparr>"

definition identity_data :: "run_record \<Rightarrow> payload" where
  "identity_data record =
     [(''handle'', JStr (run_handle record)), (''target'', JStr (run_target record)),
      (''submitted_at'', JStr (run_submitted_at record))]"


section \<open>Whether a run owes a receipt\<close>

text \<open>
  \<open>shlex.split\<close>: what state the scanner is in, the token begun, the tokens done. An unclosed quote
  or a trailing backslash raises.
\<close>

datatype shlex_state = Plain | Quoted char | Escaped "char option"

fun shlex :: "shlex_state \<Rightarrow> string option \<Rightarrow> string \<Rightarrow> string + string list" where
  "shlex Plain cur [] = Inr (case cur of None \<Rightarrow> [] | Some t \<Rightarrow> [t])"
| "shlex (Quoted q) cur [] = Inl ''No closing quotation''"
| "shlex (Escaped q) cur [] = Inl ''No escaped character''"
| "shlex Plain cur (c # cs) =
     (if c \<in> {CHR '' '', CHR 0x09, CHR 0x0A, CHR 0x0D}
      then (case cur of
              None \<Rightarrow> shlex Plain None cs
            | Some t \<Rightarrow> map_sum id ((#) t) (shlex Plain None cs))
      else if c = CHR 0x27 \<or> c = CHR 0x22
      then shlex (Quoted c) (Some (case cur of None \<Rightarrow> [] | Some t \<Rightarrow> t)) cs
      else if c = CHR 0x5C
      then shlex (Escaped None) (Some (case cur of None \<Rightarrow> [] | Some t \<Rightarrow> t)) cs
      else shlex Plain (Some (case cur of None \<Rightarrow> [c] | Some t \<Rightarrow> t @ [c])) cs)"
| "shlex (Quoted q) cur (c # cs) =
     (if c = q then shlex Plain cur cs
      else if c = CHR 0x5C \<and> q = CHR 0x22 then shlex (Escaped (Some q)) cur cs
      else shlex (Quoted q) (map_option (\<lambda>t. t @ [c]) cur) cs)"
| "shlex (Escaped q) cur (c # cs) =
     (case q of
        None \<Rightarrow> shlex Plain (map_option (\<lambda>t. t @ [c]) cur) cs
      | Some e \<Rightarrow>
          if c \<noteq> CHR 0x5C \<and> c \<noteq> e
          then shlex (Quoted e) (map_option (\<lambda>t. t @ [CHR 0x5C, c]) cur) cs
          else shlex (Quoted e) (map_option (\<lambda>t. t @ [c]) cur) cs)"

definition shlex_split :: "string \<Rightarrow> string + string list" where
  "shlex_split s = shlex Plain None s"

text \<open>\<open>token.partition("::")[0]\<close> and \<open>Path(text).name\<close>.\<close>

fun before_double_colon :: "string \<Rightarrow> string" where
  "before_double_colon [] = []"
| "before_double_colon [c] = [c]"
| "before_double_colon (c # d # cs) =
     (if c = CHR '':'' \<and> d = CHR '':'' then [] else c # before_double_colon (d # cs))"

definition path_name :: "string \<Rightarrow> string" where
  "path_name p =
     (case rev (filter (\<lambda>part. part \<noteq> [] \<and> part \<noteq> ''.'') (split_on (CHR ''/'') p)) of
        [] \<Rightarrow> [] | part # _ \<Rightarrow> part)"

definition owes_receipt :: "run_record \<Rightarrow> string \<Rightarrow> string \<Rightarrow> fault + bool" where
  "owes_receipt record output verdict =
     (case shlex_split (run_script record) of
        Inl why \<Rightarrow> Inl (ValueError why)
      | Inr tokens \<Rightarrow>
          Inr (list_ex (\<lambda>token. prefix ''test_'' (path_name (before_double_colon token))) tokens
               \<and> verdict = word_text OK \<and> \<not> covered_in output))"


section \<open>Receipts as JSON\<close>

text \<open>The text of a decoding fault is not modelled beyond its first words.\<close>

definition receipt_of :: "string \<Rightarrow> fault + json option" where
  "receipt_of line =
     (case json_loads line of
        None \<Rightarrow> Inl (ValueError ''Expecting value'')
      | Some (JObj envelope) \<Rightarrow> Inr (map_of envelope ''trial_receipt'')
      | Some _ \<Rightarrow> Inr None)"

definition artifacts_of :: "string \<Rightarrow> fault + json list" where
  "artifacts_of line =
     (let malformed = ValueError ''malformed trial receipt; raw line preserved in captured log'' in
      case receipt_of line of
        Inl e \<Rightarrow> Inl e
      | Inr (Some (JObj payload)) \<Rightarrow>
          (case map_of payload ''artifacts'' of
             None \<Rightarrow> Inr []
           | Some (JObj declared) \<Rightarrow> Inr (map snd declared)
           | Some _ \<Rightarrow> Inl malformed)
      | Inr _ \<Rightarrow> Inl malformed)"

fun all_artifacts :: "string list \<Rightarrow> fault + json list" where
  "all_artifacts [] = Inr []"
| "all_artifacts (line # lines) =
     (case artifacts_of line of
        Inl e \<Rightarrow> Inl e
      | Inr vs \<Rightarrow> (case all_artifacts lines of Inl e \<Rightarrow> Inl e | Inr ws \<Rightarrow> Inr (vs @ ws)))"

text \<open>Only receipts that are objects are associated; other lines stay in the captured log.\<close>

definition case_of :: "string \<Rightarrow> json list" where
  "case_of line =
     (case receipt_of line of
        Inr (Some (JObj payload)) \<Rightarrow>
          [JList [JStr (text_field payload ''run''),
                  JStr (if truthy_opt (map_of payload ''case_id'') then text_field payload ''case_id''
                        else text_field payload ''run_id'')]]
      | _ \<Rightarrow> [])"

definition cases :: "string list \<Rightarrow> json list" where
  "cases harvested = concat (map case_of harvested)"


section \<open>The verbs of a run\<close>

text \<open>A log that would not come is \<open>None\<close>; a provider that keeps none answers an empty one.\<close>

definition job_transcript :: "'w outside_scheme \<Rightarrow> run_obj \<Rightarrow> ('s center_scheme, string option) comp" where
  "job_transcript w job =
     (if ro_provider job \<and> \<not> ro_log_source job then ret (Some [])
      else andThen (reading (\<lambda>s. x_logs w (moment s) (ro_handle job))) (\<lambda>answer.
           andThen (doing (Read (ro_handle job))) (\<lambda>_.
           case answer of
             Inr lines \<Rightarrow> ret (Some lines)
           | Inl e \<Rightarrow>
               if is_mission e \<or> is_os e \<or> (is_unreachable e \<and> \<not> ro_provider job) then ret None
               else raising e)))"

definition job_pull :: "'w outside_scheme \<Rightarrow> run_obj \<Rightarrow> ('s center_scheme, unit) comp" where
  "job_pull w job =
     andThen (reading (\<lambda>s. x_pull w (moment s) (ro_handle job))) (\<lambda>answer.
       case answer of
         None \<Rightarrow> doing (Pulled (ro_handle job))
       | Some e \<Rightarrow> andThen (doing (Unpulled (ro_handle job))) (\<lambda>_. raising e))"

text \<open>A scheduler job releases nothing; a provider run is cancelled.\<close>

definition job_release :: "'w outside_scheme \<Rightarrow> run_obj \<Rightarrow> ('s center_scheme, unit) comp" where
  "job_release w job =
     (if \<not> ro_provider job then ret ()
      else andThen (reading (\<lambda>s. x_cancel w (moment s) (hd_kind (ro_handle job)) (hd_id (ro_handle job))))
        (\<lambda>answer. case answer of
           None \<Rightarrow> doing (Released (ro_handle job))
         | Some e \<Rightarrow> andThen (doing (Unreleased (ro_handle job))) (\<lambda>_. raising e)))"


section \<open>Settlement\<close>

text \<open>\<open>stream\<close>: the receipts of a stream, replayed on first use and then kept for the pass.\<close>

definition stream :: "string \<Rightarrow> ('s center_scheme, index) comp" where
  "stream name =
     andThen (reading (\<lambda>s. map_of (c_streams s) name)) (\<lambda>known.
       case known of
         Some index \<Rightarrow> ret index
       | None \<Rightarrow>
           andThen (reading (\<lambda>s. receipts_index (replay name s))) (\<lambda>index.
           andThen (changing (\<lambda>s. s\<lparr>c_streams := AList.update name index (c_streams s)\<rparr>)) (\<lambda>_.
           ret index)))"

text \<open>A line joins the index only once the bus took it; a bus that fails raises before either.\<close>

definition stream_publish ::
  "'w outside_scheme \<Rightarrow> string \<Rightarrow> topic \<Rightarrow> string \<Rightarrow> payload \<Rightarrow> ('s center_scheme, unit) comp" where
  "stream_publish w name topic job data =
     andThen (stream name) (\<lambda>index.
     andThen (reading (\<lambda>s. x_bus_fault w (lk_ticks s))) (\<lambda>broken.
       case broken of
         Some e \<Rightarrow> raising e
       | None \<Rightarrow>
           andThen (receipts_publish w name index topic job data) (\<lambda>kept.
           changing (\<lambda>s. s\<lparr>c_streams := AList.update name kept (c_streams s)\<rparr>))))"

definition evidence ::
  "'w outside_scheme \<Rightarrow> run_record \<Rightarrow> string list \<Rightarrow> string \<Rightarrow> string \<Rightarrow> ('s center_scheme, unit) comp" where
  "evidence w record harvested status detail =
     andThen (delivery w record status) (\<lambda>_.
       let (name, job) = streamed (run_name record) (run_handle record);
           data = identity_data record @
             [(''status'', JStr status), (''detail'', JStr detail), (''trials'', JList (cases harvested))]
       in andThen (stream name) (\<lambda>index.
            if (case receipts_get index T_EVIDENCE job None of
                  None \<Rightarrow> True | Some seen \<Rightarrow> \<not> dict_eq (ev_data seen) data)
            then trying is_os (stream_publish w name T_EVIDENCE job data) (\<lambda>_. ret ())
            else ret ()))"

definition host_answering :: "run_obj \<Rightarrow> ('s center_scheme, unit) comp" where
  "host_answering job =
     andThen (reading (\<lambda>s. map_of (c_quiet s) (hd_host (ro_handle job)))) (\<lambda>fault.
       case fault of
         None \<Rightarrow> ret ()
       | Some why \<Rightarrow> raising (MissionError (hd_host (ro_handle job) @
                       '' went quiet earlier in this pass: '' @ why)))"

definition capture ::
  "'w outside_scheme \<Rightarrow> run_record \<Rightarrow> run_obj \<Rightarrow> bool \<Rightarrow> ('s center_scheme, string list) comp" where
  "capture w record job required =
     (let (name, _) = streamed (run_name record) (run_handle record) in
      andThen (job_transcript w job) (\<lambda>output.
        case output of
          Some (c # cs) \<Rightarrow>
            andThen (returning (receipts_in (c # cs))) (\<lambda>harvested.
            andThen (keep_transcript w name (run_handle record) (c # cs)) (\<lambda>_.
            andThen (keep_receipts w name harvested) (\<lambda>_.
            ret harvested)))
        | _ \<Rightarrow>
            andThen (reading (transcript name (run_handle record) 0)) (\<lambda>saved.
            if required \<and> output = None \<and> saved = None
            then raising (MissionError ''the run's log could not be read; kept for the next pass'')
            else returning (receipts_in (case saved of None \<Rightarrow> [] | Some t \<Rightarrow> t)))))"

definition unpulled :: "run_obj \<Rightarrow> fault \<Rightarrow> ('s center_scheme, unit) comp" where
  "unpulled job fault =
     (if is_unreachable fault
      then changing (\<lambda>s. s\<lparr>c_quiet := AList.update (hd_host (ro_handle job)) (fault_text fault) (c_quiet s)\<rparr>)
      else ret ())"

definition pull :: "'w outside_scheme \<Rightarrow> run_obj \<Rightarrow> ('s center_scheme, string option) comp" where
  "pull w job =
     (let h = ro_handle job in
      case hd_fetch_path h of
        None \<Rightarrow> ret None
      | Some path \<Rightarrow>
          if path = [] then ret None
          else let key = (hd_host h, hd_root h, path) in
            andThen (reading (\<lambda>s. map_of (c_fetched s) key)) (\<lambda>known.
              case known of
                Some before \<Rightarrow> ret before
              | None \<Rightarrow>
                  andThen (changing (\<lambda>s. s\<lparr>c_fetched := AList.update key None (c_fetched s)\<rparr>)) (\<lambda>_.
                  trying_else (\<lambda>e. is_unreachable e \<or> is_process e \<or> is_mission e \<or> is_os e)
                    (job_pull w job)
                    (\<lambda>fault. andThen (unpulled job fault) (\<lambda>_. ret None))
                    (\<lambda>_. andThen (changing (\<lambda>s. s\<lparr>c_fetched := AList.update key (Some path) (c_fetched s)\<rparr>))
                       (\<lambda>_. ret (Some path))))))"

definition release :: "'w outside_scheme \<Rightarrow> run_obj \<Rightarrow> ('s center_scheme, bool) comp" where
  "release w job =
     trying_else (\<lambda>e. is_mission e \<or> is_os e) (job_release w job) (\<lambda>_. ret False) (\<lambda>_. ret True)"

definition checked :: "'w outside_scheme \<Rightarrow> string list \<Rightarrow> string \<Rightarrow> ('s center_scheme, unit) comp" where
  "checked w harvested pulled =
     andThen (reading (\<lambda>s. x_verify w (moment s) harvested pulled)) (\<lambda>answer.
     andThen (doing (Checked harvested pulled)) (\<lambda>_.
       case answer of
         None \<Rightarrow> ret ()
       | Some e \<Rightarrow>
           if (is_mission e \<or> (case e of FileNotFound _ \<Rightarrow> True | _ \<Rightarrow> False))
              \<and> prefix ''no lake around'' (fault_text e)
           then raising (Unverifiable (''receipts reference artifacts the host no longer holds ('' @
                  fault_text e @ '')''))
           else raising e))"

definition verify ::
  "'w outside_scheme \<Rightarrow> run_obj \<Rightarrow> string option \<Rightarrow> string list \<Rightarrow> bool \<Rightarrow> ('s center_scheme, unit) comp" where
  "verify w job pulled harvested owed =
     (let fetch = (case hd_fetch_path (ro_handle job) of None \<Rightarrow> False | Some p \<Rightarrow> p \<noteq> []) in
      andThen (returning (all_artifacts harvested)) (\<lambda>artifacts.
        if fetch \<and> pulled = None
        then raising (MissionError ''result transfer failed; remote evidence retained'')
        else if owed \<and> fetch \<and> harvested = []
        then raising (Unverifiable ''native trial has no captured receipt; evidence is unverified'')
        else case pulled of
               Some p \<Rightarrow>
                 if harvested \<noteq> [] then checked w harvested p
                 else if list_ex (\<lambda>v. case v of JObj _ \<Rightarrow> True | _ \<Rightarrow> False) artifacts
                 then raising (MissionError ''receipt references artifacts but no fetch was declared'')
                 else ret ()
             | None \<Rightarrow>
                 if list_ex (\<lambda>v. case v of JObj _ \<Rightarrow> True | _ \<Rightarrow> False) artifacts
                 then raising (MissionError ''receipt references artifacts but no fetch was declared'')
                 else ret ()))"

definition track ::
  "'w outside_scheme \<Rightarrow> run_record \<Rightarrow> job_state \<Rightarrow> string \<Rightarrow> ('s center_scheme, unit) comp" where
  "track w record state detail =
     (if is_batched (run_name record) then ret ()
      else let (name, job) = streamed (run_name record) (run_handle record);
               moved = identity_data record @
                 [(''state'', JStr (case js_state state of None \<Rightarrow> [] | Some t \<Rightarrow> t)),
                  (''verdict'', JStr (js_verdict state))];
               settled_data = identity_data record @
                 [(''verdict'', JStr (js_verdict state)),
                  (''exit_code'', case js_exit_code state of None \<Rightarrow> JNull | Some n \<Rightarrow> JInt n),
                  (''detail'', JStr detail)]
           in andThen (stream name) (\<lambda>index.
                if (case receipts_get index T_STATE job None of
                      None \<Rightarrow> False | Some seen \<Rightarrow> dict_eq (ev_data seen) moved)
                then ret ()
                else andThen (stream_publish w name T_STATE job moved) (\<lambda>_.
                     if settled_text (js_verdict state)
                     then stream_publish w name T_SETTLED job settled_data
                     else ret ())))"

definition submitted :: "'w outside_scheme \<Rightarrow> run_record \<Rightarrow> run_obj \<Rightarrow> ('s center_scheme, unit) comp" where
  "submitted w record run =
     (if \<not> is_batched (run_name record) then ret ()
      else let (name, job) = streamed (run_name record) (hd_id (ro_handle run)) in
           stream_publish w name T_SUBMITTED job
             ([(''handle'', JStr (hd_id (ro_handle run))), (''target'', JStr (run_target record)),
               (''kind'', JStr (hd_kind (ro_handle run))), (''command'', JStr (run_script record))]
              @ (if run_node record \<noteq> [] then [(''node'', JStr (run_node record))] else [])))"

definition refused :: "'w outside_scheme \<Rightarrow> run_record \<Rightarrow> fault \<Rightarrow> ('s center_scheme, failed option) comp" where
  "refused w record refusal =
     (if is_quota_refusal (fault_text refusal) then ret None
      else andThen (resolve w record (Some (word_text FAILED)) None (word_text FAILED)) (\<lambda>current.
           andThen (report w current (word_text FAILED)) (\<lambda>_.
           ret (Some (failure record (''held dispatch refused: '' @ fault_text refusal))))))"

text \<open>\<open>_asked\<close> answers a run, a failure, or nothing while the quota is full.\<close>

datatype asked_answer = ARun run_obj | AFailed failed | AHeld

definition dispatch :: "'w outside_scheme \<Rightarrow> request \<Rightarrow> ('s center_scheme, run_obj) comp" where
  "dispatch w request =
     andThen (reading (\<lambda>s. x_dispatch w (moment s) request)) (\<lambda>(answer, ops).
     andThen (changing (perform_all w ops)) (\<lambda>_.
     andThen (doing (Asked request)) (\<lambda>_.
     returning answer)))"

definition asked :: "'w outside_scheme \<Rightarrow> run_record \<Rightarrow> ('s center_scheme, asked_answer) comp" where
  "asked w record =
     (case run_request record of
        None \<Rightarrow> ret AHeld
      | Some request \<Rightarrow>
          trying refusal_fault (andThen (dispatch w request) (\<lambda>run. ret (ARun run)))
            (\<lambda>refusal. andThen (refused w record refusal) (\<lambda>r.
               ret (case r of None \<Rightarrow> AHeld | Some f \<Rightarrow> AFailed f))))"

definition resumed :: "'w outside_scheme \<Rightarrow> run_record \<Rightarrow> ('s center_scheme, held_outcome) comp" where
  "resumed w record =
     andThen (asked w record) (\<lambda>answer.
       case answer of
         AHeld \<Rightarrow> ret (HHeld \<lparr>he_handle = run_handle record, he_target = run_target record,
                            he_reason = run_reason record\<rparr>)
       | AFailed f \<Rightarrow> ret (HFailed f)
       | ARun run \<Rightarrow>
           andThen (forget w record) (\<lambda>_.
           andThen (submitted w record run) (\<lambda>_.
           ret (HResumed \<lparr>re_handle = hd_id (ro_handle run), re_target = run_target record,
                          re_name = run_name record\<rparr>))))"

end
