(* ===== verification/Monitor.thy ===== *)
theory Monitor
  imports Settlement
begin

text \<open>
  The durable pass over every dispatched job still owed an outcome (\<open>settling/monitor/core.py\<close>):
  the sweep that asks each target once (\<open>sweep.py\<close>), the rentals released at their deadline
  (\<open>deadlines.py\<close>), the settle of one resolved run, held dispatches asked again, and the whole pass
  under the settlement lock. The watchdog that kills a pass at its deadline is not modelled, nor
  the transient folders it clears: a killed pass is a prefix of the effects of one that is not.
\<close>

section \<open>The lock's record\<close>

definition phase_lock :: "'w outside_scheme \<Rightarrow> string \<Rightarrow> string \<Rightarrow> ('s center_scheme, unit) comp" where
  "phase_lock w doing_now deadline =
     andThen (now_text w) (\<lambda>t.
       changing (\<lambda>s. s\<lparr>c_owner := (c_owner s)\<lparr>so_phase := doing_now, so_heartbeat := t,
         so_deadline := (if deadline \<noteq> [] then deadline else so_deadline (c_owner s))\<rparr>\<rparr>))"

definition succeeded :: "'w outside_scheme \<Rightarrow> ('s center_scheme, unit) comp" where
  "succeeded w = andThen (now_text w) (\<lambda>t. changing (\<lambda>s. s\<lparr>c_success := t\<rparr>))"


section \<open>The sweep\<close>

definition COPIED :: "string list" where
  "COPIED = [''copied'', ''verified'']"

definition UNCREATED :: "(string, string) dict" where
  "UNCREATED =
     [(word_text PREPARED, ''provider creation prepared; no create attempted; cancel if abandoned''),
      (word_text SUBMITTING, ''provider creation has no confirmed handle; reconcile its exact '' @
         ''label before retrying; no automatic resubmission or release'')]"

definition uncreated :: "run_record \<Rightarrow> string" where
  "uncreated record =
     (case map_of UNCREATED (case run_verdict record of None \<Rightarrow> [] | Some v \<Rightarrow> v) of
        None \<Rightarrow> [] | Some why \<Rightarrow> why)"

definition ssh_family :: "string list" where
  "ssh_family = [''auto'', ''held'', ''local'', ''pbs'', ''slurm'', ''ssh'']"

text \<open>\<open>route\<close>: \<open>None\<close> for the ssh family, else the provider's kind; an unknown kind is refused.\<close>

definition route :: "'w outside_scheme \<Rightarrow> string \<Rightarrow> fault + string option" where
  "route w kind =
     (if kind \<in> set ssh_family then Inr None
      else if kind \<in> set (x_backends w) then Inr (Some kind)
      else Inl (MissionError (''no provider backend for kind '' @ repr_text kind @
             ''; known kinds are '' @ repr (JList (map JStr (x_backends w))))))"

text \<open>A cached record as a state (\<open>JobState.model_validate(record, from_attributes=True)\<close>).\<close>

definition state_of_record :: "run_record \<Rightarrow> job_state" where
  "state_of_record record =
     \<lparr>js_handle = run_handle record, js_label = Some (label record), js_state = run_state record,
      js_exit_code = run_exit_code record,
      js_verdict = (case run_verdict record of None \<Rightarrow> [] | Some v \<Rightarrow> v),
      js_stage = [], js_since = [], js_estimated_start = [], js_note = []\<rparr>"

record sweep =
  sw_runs :: "(run_record, run_obj) dict"
  sw_states :: "(run_record, job_state) dict"
  sw_down :: "(string, string) dict"

fun groups :: "run_record list \<Rightarrow> (string \<times> string, run_record list) dict \<Rightarrow>
    (string \<times> string, run_record list) dict" where
  "groups [] d = d"
| "groups (record # records) d =
     (if run_verdict record \<noteq> Some (word_text HELD) \<and> uncreated record = []
      then let k = (run_target record, run_kind record) in
           groups records (AList.update k ((case map_of d k of None \<Rightarrow> [] | Some rs \<Rightarrow> rs) @ [record]) d)
      else groups records d)"

definition undeclared :: "'w outside_scheme \<Rightarrow> string \<Rightarrow> run_record list \<Rightarrow> string" where
  "undeclared w target records =
     (let cancel = (\<lambda>handle. ''`'' @ x_project w @ '' job cancel '' @ handle @ '' --on '' @ target @ ''`'');
          names = join_with '', '' (map (\<lambda>r. cancel (run_handle r)) (take 4 records));
          more = (if 4 < length records
                  then '' and '' @ nat_text (length records - 4) @ '' more'' else [])
      in target @ '' is no longer declared, so it is never asked; settle its runs with '' @ names @ more)"

definition merged :: "('k, 'v) dict \<Rightarrow> ('k, 'v) dict \<Rightarrow> ('k, 'v) dict" where
  "merged old new = fold (\<lambda>(k, v). AList.update k v) new old"

text \<open>\<open>Job.states\<close>: one listing for a host, and a handle it misses asked alone.\<close>

definition job_states ::
  "'w outside_scheme \<Rightarrow> handle list \<Rightarrow> ('s center_scheme, (string, job_state) dict) comp" where
  "job_states w handles =
     (case handles of
        [] \<Rightarrow> ret []
      | shared # _ \<Rightarrow>
          let ids = fromkeys (map hd_id handles) in
          andThen (reading (\<lambda>s. x_listing w (moment s) shared ids)) (\<lambda>answer.
          andThen (doing (Probed shared)) (\<lambda>_.
          andThen (returning answer) (\<lambda>listing.
          each (\<lambda>i. case map_of listing i of
                      Some found \<Rightarrow> ret (i, found)
                    | None \<Rightarrow>
                        andThen (reading (\<lambda>s. x_state w (moment s) shared i)) (\<lambda>answer.
                        andThen (doing (Probed shared)) (\<lambda>_.
                        andThen (returning answer) (\<lambda>found. ret (i, found))))) ids))))"

definition job_poll :: "'w outside_scheme \<Rightarrow> run_obj \<Rightarrow> ('s center_scheme, job_state) comp" where
  "job_poll w job =
     andThen (reading (\<lambda>s. x_state w (moment s) (ro_handle job) (hd_id (ro_handle job)))) (\<lambda>answer.
     andThen (doing (Probed (ro_handle job))) (\<lambda>_. returning answer))"

definition sweep_settle ::
  "'w outside_scheme \<Rightarrow> string \<Rightarrow> run_record list \<Rightarrow> sweep \<Rightarrow> ('s center_scheme, sweep) comp" where
  "sweep_settle w kind records sw =
     andThen (each (\<lambda>record.
       andThen (reading (\<lambda>s. x_job w (moment s) (run_handle record) (run_target record))) (\<lambda>answer.
       andThen (returning answer) (\<lambda>job. ret (record, job)))) records) (\<lambda>rebuilt.
     let sw1 = sw\<lparr>sw_runs := merged (sw_runs sw) rebuilt,
                  sw_states := merged (sw_states sw)
                    (map (\<lambda>r. (r, state_of_record r)) (filter (\<lambda>r. settled_opt (run_verdict r)) records))\<rparr>;
         pending = filter (\<lambda>r. map_of (sw_states sw1) r = None) records
     in if pending = [] then ret sw1
        else andThen (returning (route w kind)) (\<lambda>backend.
          case backend of
            Some _ \<Rightarrow>
              andThen (each (\<lambda>record. case map_of (sw_runs sw1) record of
                         None \<Rightarrow> raising (LookupError (run_handle record))
                       | Some job \<Rightarrow> andThen (job_poll w job) (\<lambda>state. ret (record, state))) pending)
                (\<lambda>found. ret (sw1\<lparr>sw_states := merged (sw_states sw1) found\<rparr>))
          | None \<Rightarrow>
              andThen (job_states w (concat (map (\<lambda>record. case map_of (sw_runs sw1) record of
                         None \<Rightarrow> [] | Some job \<Rightarrow> [ro_handle job]) pending))) (\<lambda>found.
              andThen (each (\<lambda>record. case map_of found (run_handle record) of
                         None \<Rightarrow> raising (LookupError (run_handle record))
                       | Some state \<Rightarrow> ret (record, state)) pending) (\<lambda>states.
              ret (sw1\<lparr>sw_states := merged (sw_states sw1) states\<rparr>)))))"

text \<open>
  A target that could not be asked keeps what was already resolved of it: \<open>self.runs\<close> and
  \<open>self.states\<close> are assigned before the fault. Here the record and the cached states are added
  before the queries that can fail, as in the source.
\<close>

definition sweep_known ::
  "'w outside_scheme \<Rightarrow> run_record list \<Rightarrow> sweep \<Rightarrow> 's center_scheme \<Rightarrow> sweep" where
  "sweep_known w records sw s =
     (case each (\<lambda>record.
        andThen (reading (\<lambda>s. x_job w (moment s) (run_handle record) (run_target record))) (\<lambda>answer.
        andThen (returning answer) (\<lambda>job. ret (record, job)))) records s of
        (Inr rebuilt, _) \<Rightarrow>
          sw\<lparr>sw_runs := merged (sw_runs sw) rebuilt,
             sw_states := merged (sw_states sw)
               (map (\<lambda>r. (r, state_of_record r)) (filter (\<lambda>r. settled_opt (run_verdict r)) records))\<rparr>
      | (Inl _, _) \<Rightarrow> sw)"

definition sweep_resolve ::
  "'w outside_scheme \<Rightarrow> string \<Rightarrow> string \<Rightarrow> run_record list \<Rightarrow> sweep \<Rightarrow> ('s center_scheme, sweep) comp" where
  "sweep_resolve w target kind records sw =
     (if \<not> x_declares w target
      then ret (sw\<lparr>sw_down := AList.update target (undeclared w target records) (sw_down sw)\<rparr>)
      else andThen (reading (sweep_known w records sw)) (\<lambda>known.
           trying (\<lambda>e. is_unreachable e \<or> is_mission e \<or> is_os e)
             (sweep_settle w kind records sw)
             (\<lambda>fault. ret (known\<lparr>sw_down := AList.update target (fault_text fault) (sw_down known)\<rparr>))))"

fun sweep_groups ::
  "'w outside_scheme \<Rightarrow> (string \<times> string, run_record list) dict \<Rightarrow> sweep \<Rightarrow> ('s center_scheme, sweep) comp" where
  "sweep_groups w [] sw = ret sw"
| "sweep_groups w (((target, kind), owned) # rest) sw =
     (if map_of (sw_down sw) target = None
      then andThen (sweep_resolve w target kind owned sw) (\<lambda>sw'. sweep_groups w rest sw')
      else sweep_groups w rest sw)"

definition sweeping ::
  "'w outside_scheme \<Rightarrow> run_record list \<Rightarrow> (string, string) dict \<Rightarrow> ('s center_scheme, sweep) comp" where
  "sweeping w records down =
     sweep_groups w (groups records []) \<lparr>sw_runs = [], sw_states = [], sw_down = down\<rparr>"


section \<open>Deadlines\<close>

text \<open>\<open>Lease.expired\<close> reads the clock.\<close>

definition lease_expired :: "'w outside_scheme \<Rightarrow> lease \<Rightarrow> ('s center_scheme, bool) comp" where
  "lease_expired w l =
     (\<lambda>s. (Inr (ls_release_by l \<le> x_clock w (lk_ticks s)), s\<lparr>lk_ticks := Suc (lk_ticks s)\<rparr>))"

definition leased :: "'w outside_scheme \<Rightarrow> run_record \<Rightarrow> ('s center_scheme, (string \<times> run_record) option) comp" where
  "leased w record =
     andThen (returning (route w (run_kind record))) (\<lambda>backend.
       case backend of
         None \<Rightarrow> ret None
       | Some b \<Rightarrow> andThen (run_named (run_handle record) (Some (run_target record))) (\<lambda>current.
                    ret (Some (b, current))))"

definition closed :: "'w outside_scheme \<Rightarrow> run_record \<Rightarrow> bool \<Rightarrow> string \<Rightarrow> ('s center_scheme, unit) comp" where
  "closed w current copied detail =
     andThen (resolve w current (Some (word_text TIMEOUT)) None (word_text TIMEOUT)) (\<lambda>now.
     andThen (evidence w now [] (if copied then ''verified'' else ''unverified'') detail) (\<lambda>_.
     report w now (case run_verdict now of None \<Rightarrow> word_text TIMEOUT | Some v \<Rightarrow>
       if v = [] then word_text TIMEOUT else v)))"

definition booking_fault :: "fault \<Rightarrow> bool" where
  "booking_fault e \<longleftrightarrow> settling_fault e \<or> is_sqlite e"

definition backend_cancel :: "'w outside_scheme \<Rightarrow> string \<Rightarrow> string \<Rightarrow> ('s center_scheme, unit) comp" where
  "backend_cancel w kind h =
     andThen (reading (\<lambda>s. x_cancel w (moment s) kind h)) (\<lambda>answer.
       case answer of
         None \<Rightarrow> doing (Cancelled kind h)
       | Some e \<Rightarrow> andThen (doing (Uncancelled kind h)) (\<lambda>_. raising e))"

definition released ::
  "'w outside_scheme \<Rightarrow> run_record \<Rightarrow> run_record \<Rightarrow> string \<Rightarrow> ('s center_scheme, string) comp" where
  "released w record current backend =
     (let copied = run_evidence current \<in> set COPIED; detail = ''rental release deadline reached'' in
      andThen (trying booking_fault
        (andThen (evidence w current [] (if copied then ''copied'' else ''unverified'') detail) (\<lambda>_. ret detail))
        (\<lambda>fault. ret (detail @ ''; evidence recording failed: '' @ fault_text fault))) (\<lambda>detail.
      trying_else settling_fault (backend_cancel w backend (run_handle record))
        (\<lambda>fault. ret (detail @ ''; release failed and will be retried: '' @ fault_text fault))
        (\<lambda>_. trying booking_fault
          (andThen (closed w current copied detail) (\<lambda>_. ret detail))
          (\<lambda>fault. ret (detail @ ''; release confirmed but bookkeeping needs repair: '' @ fault_text fault)))))"

definition expire :: "'w outside_scheme \<Rightarrow> run_record \<Rightarrow> ('s center_scheme, failed option) comp" where
  "expire w record =
     trying_else (\<lambda>e. settling_fault e \<or> is_lookup e \<or> is_sqlite e) (leased w record)
       (\<lambda>fault. ret (Some (failure record
          (''deadline identity check failed; release remains pending: '' @ fault_text fault))))
       (\<lambda>answer. case answer of
          None \<Rightarrow> ret None
        | Some (backend, current) \<Rightarrow>
            if run_submitted_at current \<noteq> run_submitted_at record then ret None
            else (case run_lease current of
                    None \<Rightarrow> ret None
                  | Some l \<Rightarrow>
                      andThen (lease_expired w l) (\<lambda>due.
                        if \<not> due then ret None
                        else andThen (released w record current backend) (\<lambda>why.
                             ret (Some (failure record why))))))"

fun expired_rows :: "'w outside_scheme \<Rightarrow> run_record list \<Rightarrow> ('s center_scheme, failed list) comp" where
  "expired_rows w [] = ret []"
| "expired_rows w (record # records) =
     andThen (case run_lease record of None \<Rightarrow> ret False | Some l \<Rightarrow> lease_expired w l) (\<lambda>due.
     andThen (if due \<and> uncreated record = [] then expire w record else ret None) (\<lambda>row.
     andThen (expired_rows w records) (\<lambda>rows.
     ret ((case row of None \<Rightarrow> [] | Some r \<Rightarrow> [r]) @ rows))))"

definition expired :: "'w outside_scheme \<Rightarrow> ('s center_scheme, failed list) comp" where
  "expired w = andThen (reading (listed Tracked [] None [])) (expired_rows w)"


section \<open>Settling one resolved run\<close>

record collected =
  co_harvested :: "string list"
  co_pulled :: "string option"
  co_transcript :: string

definition collecting ::
  "'w outside_scheme \<Rightarrow> run_record \<Rightarrow> run_obj \<Rightarrow> string \<Rightarrow> ('s center_scheme, collected) comp" where
  "collecting w record job name =
     andThen (host_answering job) (\<lambda>_.
     andThen (pull w job) (\<lambda>pulled.
     andThen (host_answering job) (\<lambda>_.
     andThen (capture w record job True) (\<lambda>harvested.
     andThen (reading (transcript name (run_handle record) 0)) (\<lambda>kept.
     let output = (case kept of None \<Rightarrow> [] | Some t \<Rightarrow> t) in
     andThen (doing (Framed (ro_handle job))) (\<lambda>_.
     ret \<lparr>co_harvested = harvested, co_pulled = pulled, co_transcript = output\<rparr>))))))"

definition recovered ::
  "'w outside_scheme \<Rightarrow> run_record \<Rightarrow> run_obj \<Rightarrow> string \<Rightarrow> event option \<Rightarrow> ('s center_scheme, collected) comp" where
  "recovered w record job name previous =
     andThen (reading (transcript name (run_handle record) 0)) (\<lambda>kept.
       if previous = None \<and> kept = None
       then raising (MissionError ''copied evidence has no recoverable local receipt log'')
       else andThen (returning (receipts_in (case kept of None \<Rightarrow> [] | Some t \<Rightarrow> t))) (\<lambda>harvested.
            if (case previous of None \<Rightarrow> False | Some e \<Rightarrow> truthy_opt (map_of (ev_data e) ''trials''))
               \<and> harvested = []
            then raising (MissionError ''copied trial receipts are missing from the local log'')
            else ret \<lparr>co_harvested = harvested, co_pulled = hd_fetch_path (ro_handle job),
                      co_transcript = (case kept of None \<Rightarrow> [] | Some t \<Rightarrow> t)\<rparr>))"

definition pending_settle ::
  "'w outside_scheme \<Rightarrow> run_record \<Rightarrow> string list \<Rightarrow> fault \<Rightarrow> ('s center_scheme, outcome) comp" where
  "pending_settle w record harvested fault =
     (let detail = ''settlement pending; remote evidence retained: '' @ fault_text fault in
      andThen (evidence w record harvested ''pending'' detail) (\<lambda>_.
      ret (OFailed (failure record detail))))"

definition concluded ::
  "'w outside_scheme \<Rightarrow> run_record \<Rightarrow> run_obj \<Rightarrow> job_state \<Rightarrow> collected \<Rightarrow> string \<Rightarrow>
     ('s center_scheme, outcome) comp" where
  "concluded w record job state collected why =
     (let harvested = co_harvested collected; pulled = co_pulled collected in
      andThen (evidence w record harvested ''copied'' []) (\<lambda>_.
      andThen (release w job) (\<lambda>let_go.
      if \<not> let_go
      then let detail = ''settlement pending; release failed and will be retried'' in
           andThen (evidence w record harvested ''copied'' detail) (\<lambda>_.
           ret (OFailed (failure record detail)))
      else
        andThen (evidence w record harvested (if why \<noteq> [] then ''unverified'' else ''verified'') why) (\<lambda>_.
        let ok = (js_verdict state = word_text OK);
            detail = (if ok then (case pulled of None \<Rightarrow> [] | Some p \<Rightarrow> p)
                      else short_reason (js_verdict state) (js_exit_code state));
            row = (if ok
                   then OFinished \<lparr>fi_handle = run_handle record, fi_target = run_target record,
                                   fi_pulled_path = pulled\<rparr>
                   else OFailed \<lparr>fa_handle = run_handle record, fa_target = run_target record,
                                 fa_reason = detail, fa_pulled_path = pulled\<rparr>)
        in andThen (track w record state detail) (\<lambda>_.
           andThen (run_named (run_handle record) (Some (run_target record))) (\<lambda>current.
           andThen (report w current (js_verdict state)) (\<lambda>_.
           ret row)))))))"

definition harvested_run ::
  "'w outside_scheme \<Rightarrow> run_record \<Rightarrow> run_obj \<Rightarrow> job_state \<Rightarrow> run_record \<Rightarrow> ('s center_scheme, outcome) comp" where
  "harvested_run w record job state current =
     (let (name, key) = streamed (run_name record) (run_handle record) in
      andThen (phase_lock w (''reading the receipts of '' @ name) []) (\<lambda>_.
      andThen (stream name) (\<lambda>index.
      let previous = receipts_get index T_EVIDENCE key (Some (identity_data record));
          copied = run_evidence current \<in> set COPIED \<or>
            (case previous of None \<Rightarrow> False
             | Some e \<Rightarrow> map_of (ev_data e) ''status'' \<in> Some ` JStr ` set COPIED)
      in trying_else settling_fault
           (if copied then recovered w record job name previous else collecting w record job name)
           (\<lambda>fault. pending_settle w record [] fault)
           (\<lambda>collected.
              andThen (returning (owes_receipt record (co_transcript collected) (js_verdict state))) (\<lambda>owed.
              trying_else settling_fault
                (trying is_unverifiable
                   (andThen (verify w job (co_pulled collected) (co_harvested collected) owed) (\<lambda>_. ret []))
                   (\<lambda>fault. ret (fault_text fault)))
                (\<lambda>fault. pending_settle w record (co_harvested collected) fault)
                (\<lambda>why. concluded w record job state collected why))))))"

definition unlaunched ::
  "'w outside_scheme \<Rightarrow> run_record \<Rightarrow> run_obj \<Rightarrow> job_state \<Rightarrow> bool \<Rightarrow> ('s center_scheme, outcome) comp" where
  "unlaunched w record job state discarded =
     (let detail = (if discarded then ''explicit cancellation; evidence remains unverified''
                    else ''provisioning ended before a native launch was attempted'') in
      andThen (release w job) (\<lambda>let_go.
      if \<not> let_go
      then ret (OFailed (failure record (detail @ ''; release failed and will be retried'')))
      else
        andThen (if discarded then ret () else evidence w record [] ''not_started'' detail) (\<lambda>_.
        andThen (track w record state detail) (\<lambda>_.
        andThen (report w record (js_verdict state)) (\<lambda>_.
        ret (OFailed (failure record detail)))))))"

definition settle ::
  "'w outside_scheme \<Rightarrow> run_record \<Rightarrow> run_obj \<Rightarrow> job_state \<Rightarrow> ('s center_scheme, outcome option) comp" where
  "settle w record job state =
     andThen (phase_lock w (''settling '' @ run_target record @ ''/'' @ run_handle record) []) (\<lambda>_.
     andThen (resolve w record (js_state state) (js_exit_code state) (js_verdict state)) (\<lambda>current.
     if \<not> settled_text (js_verdict state)
     then andThen (if js_stage state = word_text RUNNING
                   then andThen (pull w job) (\<lambda>_. ret ()) else ret ()) (\<lambda>_.
          andThen (track w record state []) (\<lambda>_. ret None))
     else let discarded = (js_state state = Some (word_text CANCELLED) \<and> run_evidence current = ''unverified'')
          in if run_evidence current = ''not_started'' \<or> discarded
             then andThen (unlaunched w record job state discarded) (\<lambda>row. ret (Some row))
             else andThen (harvested_run w record job state current) (\<lambda>row. ret (Some row))))"


section \<open>The pass\<close>

type_synonym scope = "(run_record \<Rightarrow> bool) option"

definition in_scope :: "scope \<Rightarrow> run_record \<Rightarrow> bool" where
  "in_scope scope record = (case scope of None \<Rightarrow> True | Some f \<Rightarrow> f record)"

definition held_jobs :: "'w outside_scheme \<Rightarrow> scope \<Rightarrow>
    ('s center_scheme, resumed_row list \<times> held list \<times> failed list) comp" where
  "held_jobs w scope =
     andThen (reading (listed Live [] None [])) (\<lambda>live.
     andThen (each (resumed w)
        (filter (\<lambda>r. run_verdict r = Some (word_text HELD) \<and> in_scope scope r) (rev live))) (\<lambda>rows.
     ret (concat (map (\<lambda>r. case r of HResumed x \<Rightarrow> [x] | _ \<Rightarrow> []) rows),
          concat (map (\<lambda>r. case r of HHeld x \<Rightarrow> [x] | _ \<Rightarrow> []) rows),
          concat (map (\<lambda>r. case r of HFailed x \<Rightarrow> [x] | _ \<Rightarrow> []) rows))))"

definition silenced :: "'w outside_scheme \<Rightarrow> ('s center_scheme, (string, string) dict) comp" where
  "silenced w =
     (\<lambda>s. let t = x_monotonic w (lk_ticks s);
              kept = filter (\<lambda>(target, since, why). t - since < 30) (c_silent s)
          in (Inr (map (\<lambda>(target, since, why). (target, why)) kept),
              s\<lparr>lk_ticks := Suc (lk_ticks s), c_silent := kept\<rparr>))"

definition heard :: "'w outside_scheme \<Rightarrow> (string, string) dict \<Rightarrow> ('s center_scheme, unit) comp" where
  "heard w down =
     changing (\<lambda>s. s\<lparr>lk_ticks := Suc (lk_ticks s),
       c_silent := merged (map (\<lambda>(target, why). (target, x_monotonic w (lk_ticks s), why)) down) (c_silent s)\<rparr>)"

definition once_pass :: "'w outside_scheme \<Rightarrow> scope \<Rightarrow> ('s center_scheme, monitor_report) comp" where
  "once_pass w scope =
     andThen (changing (\<lambda>s. s\<lparr>c_quiet := [], c_fetched := []\<rparr>)) (\<lambda>_.
     andThen (phase_lock w ''resuming held jobs'' []) (\<lambda>_.
     andThen (held_jobs w scope) (\<lambda>(resumed_rows, waiting, refused_rows).
     andThen (reading (\<lambda>s. filter (in_scope scope) (listed Tracked [] None [] s))) (\<lambda>records.
     andThen (phase_lock w ''probing hosts'' []) (\<lambda>_.
     andThen (silenced w) (\<lambda>down.
     andThen (sweeping w records down) (\<lambda>resolved.
     andThen (heard w (sw_down resolved)) (\<lambda>_.
     andThen (each (\<lambda>record.
         case (map_of (sw_states resolved) record, map_of (sw_runs resolved) record) of
           (Some state, Some job) \<Rightarrow> settle w record job state
         | _ \<Rightarrow> raising (LookupError (run_handle record)))
       (filter (\<lambda>r. map_of (sw_states resolved) r \<noteq> None) records)) (\<lambda>outcomes.
     ret \<lparr>mr_running = length (filter (\<lambda>x. x = None) outcomes) + length waiting,
          mr_busy = None,
          mr_resumed = resumed_rows,
          mr_held = waiting,
          mr_finished = concat (map (\<lambda>x. case x of Some (OFinished f) \<Rightarrow> [f] | _ \<Rightarrow> []) outcomes),
          mr_failed = refused_rows
            @ concat (map (\<lambda>r. if uncreated r \<noteq> [] then [failure r (uncreated r)] else []) records)
            @ concat (map (\<lambda>x. case x of Some (OFailed f) \<Rightarrow> [f] | _ \<Rightarrow> []) outcomes),
          mr_unreachable_hosts = map (\<lambda>(h, why). \<lparr>dh_host = h, dh_reason = why\<rparr>) (sw_down resolved)\<rparr>)))))))))"

definition settled_pass :: "'w outside_scheme \<Rightarrow> scope \<Rightarrow> string \<Rightarrow> ('s center_scheme, monitor_report) comp" where
  "settled_pass w scope deadline =
     andThen (phase_lock w ''settling'' deadline) (\<lambda>_.
     andThen (doing Reaped) (\<lambda>_.
     andThen (once_pass w scope) (\<lambda>r.
     andThen (succeeded w) (\<lambda>_. ret r))))"

text \<open>
  \<open>_claimed\<close>: deadlines first, outside the lock; another holder ends the pass with nothing
  inspected. Taking the lock writes who holds it; the removal of that record on release is not
  modelled, since no later step of the pass reads it.
\<close>

definition acquired :: "'w outside_scheme \<Rightarrow> ('s center_scheme, unit) comp" where
  "acquired w =
     andThen (now_text w) (\<lambda>t.
     andThen (changing (\<lambda>s. s\<lparr>c_owner := (c_owner s)\<lparr>so_started_at := t, so_heartbeat := t, so_deadline := [],
        so_phase := ''launching, cancelling or settling''\<rparr>\<rparr>)) (\<lambda>_.
     phase_lock w ''launching, cancelling or settling'' []))"

definition claimed_pass :: "'w outside_scheme \<Rightarrow> scope \<Rightarrow> string \<Rightarrow> ('s center_scheme, monitor_report) comp" where
  "claimed_pass w scope deadline =
     andThen (expired w) (\<lambda>late.
     andThen (reading (\<lambda>s. x_holder w (moment s))) (\<lambda>holder.
       case holder of
         Some busy \<Rightarrow>
           ret \<lparr>mr_running = 0, mr_busy = Some busy, mr_resumed = [], mr_held = [], mr_finished = [],
                mr_failed = late, mr_unreachable_hosts = []\<rparr>
       | None \<Rightarrow>
           andThen (acquired w) (\<lambda>_.
           andThen (settled_pass w scope deadline) (\<lambda>r.
           ret (r\<lparr>mr_failed := late @ mr_failed r\<rparr>)))))"

text \<open>\<open>Events.record\<close>: one line for every job that moved, named from the registry.\<close>

definition named_event :: "job_event \<Rightarrow> ('s center_scheme, job_event) comp" where
  "named_event e =
     trying_else is_lookup (run_named (je_handle e) (Some (je_host e))) (\<lambda>_. ret e)
       (\<lambda>run. ret (e\<lparr>je_name := label run, je_node := run_node run\<rparr>))"

definition record_events :: "'w outside_scheme \<Rightarrow> monitor_report \<Rightarrow> ('s center_scheme, job_event list) comp" where
  "record_events w r =
     andThen (now_text w) (\<lambda>t.
       let row = (\<lambda>kind host h detail. \<lparr>je_at = t, je_kind = kind, je_host = host, je_handle = h,
                   je_name = [], je_node = [], je_detail = detail\<rparr>);
           moved = map (\<lambda>x. row EV_DISPATCHED (re_target x) (re_handle x) (re_name x)) (mr_resumed r)
             @ map (\<lambda>x. row EV_HELD (he_target x) (he_handle x) (he_reason x)) (mr_held r)
             @ map (\<lambda>x. row EV_OK (fi_target x) (fi_handle x)
                      (case fi_pulled_path x of None \<Rightarrow> [] | Some p \<Rightarrow> p)) (mr_finished r)
             @ map (\<lambda>x. row EV_FAILED (fa_target x) (fa_handle x) (fa_reason x)) (mr_failed r)
       in andThen (each named_event moved) (\<lambda>events.
          andThen (changing (\<lambda>s. s\<lparr>c_job_events := c_job_events s @ events\<rparr>)) (\<lambda>_. ret events)))"

definition once :: "'w outside_scheme \<Rightarrow> scope \<Rightarrow> string \<Rightarrow> ('s center_scheme, monitor_report) comp" where
  "once w scope deadline =
     andThen (finally_do (claimed_pass w scope deadline) (\<lambda>s. s\<lparr>c_streams := []\<rparr>)) (\<lambda>r.
     andThen (record_events w r) (\<lambda>_. ret r))"

end
