(* ===== verification/Verdicts.thy ===== *)
theory Verdicts
  imports Receipts Json_Text
begin

text \<open>
  What a run came to, read from recorded receipts (\<open>waiting/verdicts.py\<close>, the reading half): the
  row of one trial and its exit code, the rows a stream's events fold into, the delivery status
  that withholds a row until its evidence is verified, and the two written shapes a line may have.
  Payload values compare as the JSON they are; that Python also calls \<open>1\<close>, \<open>1.0\<close> and \<open>True\<close> equal
  is not modelled.
\<close>

section \<open>Rows and exit codes\<close>

definition IN_FLIGHT :: nat where "IN_FLIGHT = 2"
definition STALLED :: nat where "STALLED = 4"

definition EXITS :: "(string, nat) dict" where
  "EXITS =
     [(word_text OK, 0), (''passed'', 0), (word_text FAILED, 1), (''refused'', 1),
      (word_text TIMEOUT, 1), (word_text CANCELLED, 1), (word_text RUNNING, 2), (word_text HELD, 2),
      (word_text SKIPPED, 0), (''blocked'', 2), ([], 2), (word_text QUEUED, 2),
      (word_text PREPARED, 2), (word_text SUBMITTING, 2)]"

definition INCOMPLETE :: string where "INCOMPLETE = ''evidence settlement is incomplete''"
definition UNVERIFIED :: string where "UNVERIFIED = ''unverified''"

record trial_verdict =
  tv_job :: string
  tv_run :: string
  tv_handle :: string
  tv_target :: string
  tv_node :: string
  tv_state :: string
  tv_verdict :: string
  tv_settled :: string
  tv_exit_code :: "int option"
  tv_detail :: string
  tv_cause :: string
  tv_gates :: string
  tv_producer :: string
  tv_contended :: string
  tv_commit :: string
  tv_digest :: string

text \<open>\<open>TrialVerdict(job=job)\<close>: every other field at its default.\<close>

definition blank_trial :: "string \<Rightarrow> trial_verdict" where
  "blank_trial job =
     \<lparr>tv_job = job, tv_run = [], tv_handle = [], tv_target = [], tv_node = [], tv_state = [],
      tv_verdict = [], tv_settled = [], tv_exit_code = None, tv_detail = [], tv_cause = [],
      tv_gates = [], tv_producer = [], tv_contended = [], tv_commit = [], tv_digest = []\<rparr>"

definition trial_code :: "trial_verdict \<Rightarrow> nat" where
  "trial_code t = (case map_of EXITS (tv_verdict t) of None \<Rightarrow> 3 | Some n \<Rightarrow> n)"

record stream_verdict =
  sv_stream :: string
  sv_trials :: "trial_verdict list"
  sv_note :: string
  sv_stalled :: string

definition stream_code :: "stream_verdict \<Rightarrow> nat" where
  "stream_code v =
     (let codes = map trial_code (sv_trials v) in
      if 1 \<in> set codes then 1
      else if sv_stalled v \<noteq> [] then STALLED
      else if IN_FLIGHT \<in> set codes then IN_FLIGHT
      else if 3 \<in> set codes \<or> codes = [] then 3
      else 0)"


section \<open>One job's row\<close>

text \<open>A state or settled line belongs to a submission only by handle, target, submission and time.\<close>

definition matching :: "event option \<Rightarrow> event \<Rightarrow> event option" where
  "matching event submission =
     (case event of
        None \<Rightarrow> None
      | Some e \<Rightarrow>
          if ev_at e < ev_at submission then None
          else if list_ex (\<lambda>field.
              let expected = map_of (ev_data submission) field; observed = map_of (ev_data e) field
              in (field = ''handle'' \<or> (truthy_opt expected \<and> truthy_opt observed)) \<and>
                 (case expected of None \<Rightarrow> JNull | Some v \<Rightarrow> v) \<noteq> (case observed of None \<Rightarrow> JNull | Some v \<Rightarrow> v))
            [''handle'', ''target'', ''submitted_at'']
          then None else Some e)"

definition contention :: "event option \<Rightarrow> string" where
  "contention attestation =
     (case attestation of
        None \<Rightarrow> []
      | Some e \<Rightarrow>
          if truthy_opt (map_of (ev_data e) ''idle'') then []
          else ''gpu '' @ (case map_of (ev_data e) ''gpu_pct'' of None \<Rightarrow> ''0'' | Some v \<Rightarrow> py_str v)
               @ ''% busy at start'')"

definition unselected :: "string \<Rightarrow> event \<Rightarrow> trial_verdict" where
  "unselected job omitted =
     (blank_trial job)\<lparr>tv_target := text_field (ev_data omitted) ''target'',
       tv_state := word_text SKIPPED, tv_verdict := word_text SKIPPED,
       tv_detail := text_field (ev_data omitted) ''reason''\<rparr>"

text \<open>\<open>isinstance(code, int)\<close> also holds of a bool, which equals \<open>0\<close> or \<open>1\<close>.\<close>

definition int_of :: "json option \<Rightarrow> int option" where
  "int_of v = (case v of Some (JInt n) \<Rightarrow> Some n | Some (JBool b) \<Rightarrow> Some (if b then 1 else 0) | _ \<Rightarrow> None)"

definition joined ::
  "string \<Rightarrow> event \<Rightarrow> event option \<Rightarrow> event option \<Rightarrow> event option \<Rightarrow> trial_verdict" where
  "joined job answer state0 ended0 attestation =
     (let target = text_field (ev_data answer) ''target'' in
      if ev_topic answer = T_HELD \<or> ev_topic answer = T_REFUSED
      then let is_held = (ev_topic answer = T_HELD) in
        (blank_trial job)\<lparr>tv_target := target,
          tv_state := (if is_held then word_text HELD else []),
          tv_verdict := (if is_held then word_text HELD else ''refused''),
          tv_detail := text_field (ev_data answer) ''reason''\<rparr>
      else
        let state = matching state0 answer;
            ended = matching ended0 answer;
            flying = (case state of None \<Rightarrow> [] | Some e \<Rightarrow> text_field (ev_data e) ''verdict'');
            row = (blank_trial job)\<lparr>
              tv_handle := text_field (ev_data answer) ''handle'',
              tv_target := target,
              tv_node := text_field (ev_data answer) ''node'',
              tv_state := (case state of None \<Rightarrow> [] | Some e \<Rightarrow> text_field (ev_data e) ''state''),
              tv_verdict := (if flying \<noteq> [] then flying else word_text RUNNING),
              tv_contended := contention attestation\<rparr>
        in case ended of
             None \<Rightarrow> row
           | Some e \<Rightarrow>
               row\<lparr>tv_verdict := text_field (ev_data e) ''verdict'',
                   tv_exit_code := int_of (map_of (ev_data e) ''exit_code''),
                   tv_detail := text_field (ev_data e) ''detail''\<rparr>)"

text \<open>
  \<open>_eventful\<close>. A state or settled line without a target counts only when its handle was submitted
  to at most one.
\<close>

definition submitted_targets :: "event list \<Rightarrow> string \<Rightarrow> string list" where
  "submitted_targets events handle =
     fromkeys (map (\<lambda>e. text_field (ev_data e) ''target'')
       (filter (\<lambda>e. ev_topic e = T_SUBMITTED \<and> text_field (ev_data e) ''handle'' = handle) events))"

definition identified :: "event list \<Rightarrow> event list" where
  "identified events =
     filter (\<lambda>e. truthy_opt (map_of (ev_data e) ''target'') \<or>
       length (filter (\<lambda>t. t \<noteq> []) (submitted_targets events (text_field (ev_data e) ''handle''))) \<le> 1) events"

definition eventful :: "event list \<Rightarrow> trial_verdict list" where
  "eventful events =
     (let answers = offered events;
          skipped = latest [T_SKIPPED] events;
          states = latest [T_STATE] (identified events);
          settled_lines = latest [T_SETTLED] (identified events);
          attested = latest [T_ATTESTED] events
      in concat (map (\<lambda>job. case map_of answers job of
           Some answer \<Rightarrow> [joined job answer (map_of states job) (map_of settled_lines job) (map_of attested job)]
         | None \<Rightarrow> (case map_of skipped job of Some omitted \<Rightarrow> [unselected job omitted] | None \<Rightarrow> []))
         (fromkeys (map fst answers @ map fst skipped))))"


section \<open>Delivery\<close>

definition evidence_cases :: "event \<Rightarrow> (string \<times> string) list" where
  "evidence_cases event =
     (case map_of (ev_data event) ''trials'' of
        Some (JList entries) \<Rightarrow>
          concat (map (\<lambda>c. case c of JList [a, b] \<Rightarrow> [(py_str a, py_str b)] | _ \<Rightarrow> []) entries)
      | _ \<Rightarrow> [])"

definition corrected :: "trial_verdict \<Rightarrow> event option \<Rightarrow> trial_verdict" where
  "corrected trial status =
     (case status of
        None \<Rightarrow> trial
      | Some e \<Rightarrow>
          let said = map_of (ev_data e) ''status'' in
          if said = Some (JStr ''verified'') \<or> said = Some (JStr ''not_started'') then trial
          else trial\<lparr>tv_verdict := (if said = Some (JStr UNVERIFIED) then UNVERIFIED else ''blocked''),
                     tv_detail := (if truthy_opt (map_of (ev_data e) ''detail'')
                                   then text_field (ev_data e) ''detail'' else INCOMPLETE)\<rparr>)"

text \<open>A dict comprehension: a later item of the same key takes over its value, not its place.\<close>

definition dict_of :: "('a \<Rightarrow> 'k) \<Rightarrow> ('a \<Rightarrow> 'v) \<Rightarrow> 'a list \<Rightarrow> ('k, 'v) dict" where
  "dict_of key val xs = fold (\<lambda>x. AList.update (key x) (val x)) xs []"

definition statuses :: "event list \<Rightarrow> (string \<times> string \<times> string, event) dict" where
  "statuses events =
     dict_of (\<lambda>e. (text_field (ev_data e) ''handle'', text_field (ev_data e) ''target'',
                   text_field (ev_data e) ''submitted_at'')) id
       (filter (\<lambda>e. ev_topic e = T_EVIDENCE) (sort_key ev_at events))"

definition qualified_rows :: "trial_verdict list \<Rightarrow> event list \<Rightarrow> trial_verdict list" where
  "qualified_rows trials events =
     (let lines = map snd (statuses events);
          handles = dict_of (\<lambda>e. (text_field (ev_data e) ''target'', text_field (ev_data e) ''handle'')) id lines;
          named = dict_of fst snd (concat (map (\<lambda>e. map (\<lambda>c. (c, e)) (evidence_cases e)) lines))
      in map (\<lambda>t. corrected t (first_some
           [map_of handles (tv_target t, tv_handle t), map_of handles ([], tv_handle t),
            map_of named (tv_run t, tv_job t)])) trials)"


section \<open>Written lines\<close>

definition gated :: "json option \<Rightarrow> string" where
  "gated sweep =
     (case sweep of
        Some (JList entries) \<Rightarrow>
          if entries = [] then []
          else let checks = concat (map (\<lambda>entry. case entry of JObj d \<Rightarrow> [d] | _ \<Rightarrow> []) entries) in
            (case find (\<lambda>d. text_field d ''status'' \<noteq> [] \<and> text_field d ''status'' \<noteq> ''passed'') checks of
               Some d \<Rightarrow> text_field d ''status'' @ '': '' @ text_field d ''reason''
             | None \<Rightarrow> nat_text (length checks) @ '' passed'')
      | _ \<Rightarrow> [])"

definition receipted :: "json \<Rightarrow> trial_verdict" where
  "receipted payload =
     (let data = (case payload of JObj d \<Rightarrow> d | _ \<Rightarrow> []) in
      (blank_trial (if truthy_opt (map_of data ''case_id'') then text_field data ''case_id''
                    else text_field data ''run_id''))
        \<lparr>tv_run := text_field data ''run'',
         tv_node := text_field data ''node'',
         tv_verdict := (if text_field data ''outcome'' \<noteq> [] then text_field data ''outcome'' else word_text OK),
         tv_settled := text_field data ''verdict'',
         tv_detail := text_field data ''reason'',
         tv_gates := gated (map_of data ''gates''),
         tv_producer := text_field data ''producer''\<rparr>)"

text \<open>A blank line, broken JSON and any value but a non-empty object are passed over.\<close>

definition payload_of :: "string \<Rightarrow> payload list" where
  "payload_of line =
     (if strip line = [] then []
      else (case json_loads line of Some (JObj (kv # kvs)) \<Rightarrow> [kv # kvs] | _ \<Rightarrow> []))"

text \<open>
  \<open>_parsed\<close>. \<open>validate\<close> stands for \<open>Event.model_validate\<close>, pydantic's reading of an envelope.
\<close>

definition parsed_events :: "(payload \<Rightarrow> event option) \<Rightarrow> payload list \<Rightarrow> event list" where
  "parsed_events validate payloads =
     concat (map (\<lambda>p. case map_of p ''trial_receipt'' of
       Some _ \<Rightarrow> []
     | None \<Rightarrow> (case validate p of None \<Rightarrow> [] | Some e \<Rightarrow> [e])) payloads)"

definition parsed :: "(payload \<Rightarrow> event option) \<Rightarrow> string list \<Rightarrow> event list \<Rightarrow> trial_verdict list" where
  "parsed validate lines corrections =
     (let payloads = concat (map payload_of lines);
          events = parsed_events validate payloads;
          trials = concat (map (\<lambda>p. case map_of p ''trial_receipt'' of
                     Some r \<Rightarrow> [receipted r] | None \<Rightarrow> []) payloads)
      in qualified_rows (eventful events @ trials) (events @ corrections))"

end
