(* ===== verification/Waiting.thy ===== *)
theory Waiting
  imports Monitor Verdicts
begin

text \<open>
  What a wait knows of a live job (\<open>waiting/pulse.py\<close>, \<open>waiting/vigil.py\<close>) and why a failed one
  failed (\<open>waiting/diagnosis.py\<close>): the look at every running job's output, the memory of when it
  last grew, what landed since the last look, which jobs linger after their session and which have
  stalled, and the last meaningful line of a captured log.
\<close>

section \<open>What is outside\<close>

record reading =
  rd_output :: "string option"
  rd_gpu_pct :: "int option"

text \<open>A receipts store on disk, as \<open>trials/store/dataset.py\<close> opens it.\<close>

record dataset =
  ds_root :: string
  ds_newest :: string
  ds_runs :: string
  ds_rows :: "string \<Rightarrow> json list"

text \<open>
  Further answers from outside: pydantic's reading of an envelope, a scheduler's cancel, the local
  files, one host's logs and cards over a connection, the wall clock and the monotonic one, the text
  a held lock prints, the deadline of a pass, and whether the settlement claim came in time.
\<close>

record asking = outside +
  y_validate :: "payload \<Rightarrow> event option"
  y_kill :: "nat \<Rightarrow> handle \<Rightarrow> fault option"
  y_dataset :: "string \<Rightarrow> dataset option"
  y_local :: "string \<Rightarrow> string"
  y_file :: "string \<Rightarrow> string option"
  y_hosted :: "nat \<Rightarrow> string \<Rightarrow> run_record list \<Rightarrow> fault + (run_record, reading) dict"
  y_wall :: "nat \<Rightarrow> rat"
  y_clock :: "nat \<Rightarrow> rat"
  y_busy_note :: "settlement_busy \<Rightarrow> string"
  y_deadline :: "nat \<Rightarrow> string"
  y_claimed :: "nat \<Rightarrow> bool"

text \<open>One row of the lake's \<open>pulse\<close>: an output's length and when it last grew.\<close>

record pulse_row =
  pl_key :: string
  pl_size :: int
  pl_grew :: rat

record waiting = center +
  wt_pulse :: "pulse_row list"


section \<open>Pulses\<close>

record pulse =
  pu_handle :: string
  pu_target :: string
  pu_progress :: progress
  pu_quiet_s :: "int option"
  pu_gpu_pct :: "int option"

definition pulse_key :: "run_record \<Rightarrow> string" where
  "pulse_key record = run_target record @ ''/'' @ run_handle record @ ''/'' @ run_submitted_at record"

definition recalled :: "string list \<Rightarrow> 's waiting_scheme \<Rightarrow> string \<Rightarrow> (int \<times> rat) option" where
  "recalled keys s key =
     (if key \<in> set keys
      then map_of (rev (map (\<lambda>row. (pl_key row, (pl_size row, pl_grew row))) (wt_pulse s))) key
      else None)"

text \<open>\<open>int(x)\<close> drops the fraction, towards zero.\<close>

definition int_trunc :: "rat \<Rightarrow> int" where
  "int_trunc x = (if 0 \<le> x then \<lfloor>x\<rfloor> else - \<lfloor>- x\<rfloor>)"

definition hosted ::
  "'w asking_scheme \<Rightarrow> string \<Rightarrow> run_record list \<Rightarrow> ('s waiting_scheme, (run_record, reading) dict) comp" where
  "hosted w target records =
     trying (\<lambda>e. is_unreachable e \<or> is_mission e \<or> is_os e)
       (andThen (reading (\<lambda>s. y_hosted w (moment s) target records)) returning)
       (\<lambda>_. ret [])"

fun probed_apart :: "'w asking_scheme \<Rightarrow> run_record list \<Rightarrow>
    (string, run_record list) dict \<Rightarrow> (run_record, reading) dict \<Rightarrow>
    ('s waiting_scheme, (string, run_record list) dict \<times> (run_record, reading) dict) comp" where
  "probed_apart w [] owners readings = ret (owners, readings)"
| "probed_apart w (record # records) owners readings =
     andThen (returning (route w (run_kind record))) (\<lambda>backend.
       case backend of
         None \<Rightarrow>
           let k = run_target record in
           probed_apart w records
             (AList.update k ((case map_of owners k of None \<Rightarrow> [] | Some rs \<Rightarrow> rs) @ [record]) owners) readings
       | Some _ \<Rightarrow>
           andThen (reading (\<lambda>s. x_job w (moment s) (run_handle record) (run_target record))) (\<lambda>answer.
           andThen (returning answer) (\<lambda>job.
           andThen (job_transcript w job) (\<lambda>seen.
           probed_apart w records owners
             (AList.update record \<lparr>rd_output = Some (case seen of None \<Rightarrow> [] | Some t \<Rightarrow> t),
                rd_gpu_pct = None\<rparr> readings)))))"

fun probed_hosts :: "'w asking_scheme \<Rightarrow> (string, run_record list) dict \<Rightarrow>
    (run_record, reading) dict \<Rightarrow> ('s waiting_scheme, (run_record, reading) dict) comp" where
  "probed_hosts w [] readings = ret readings"
| "probed_hosts w ((target, owned) # owners) readings =
     andThen (hosted w target owned) (\<lambda>found. probed_hosts w owners (merged readings found))"

definition probe :: "'w asking_scheme \<Rightarrow> run_record list \<Rightarrow> ('s waiting_scheme, (run_record, reading) dict) comp" where
  "probe w records =
     andThen (probed_apart w records [] []) (\<lambda>(owners, readings). probed_hosts w owners readings)"

text \<open>One record's pulse, and the row it adds when the output's length changed.\<close>

definition pulse_of ::
  "rat \<Rightarrow> (string \<Rightarrow> (int \<times> rat) option) \<Rightarrow> run_record \<Rightarrow> reading \<Rightarrow> (pulse \<times> pulse_row list) option" where
  "pulse_of t held record r =
     (case rd_output r of
        None \<Rightarrow> None
      | Some output \<Rightarrow>
          if output = [] then None
          else
            let key = pulse_key record;
                (size0, grew0) = (case held key of None \<Rightarrow> (-1, t) | Some sg \<Rightarrow> sg);
                moved = (size0 \<noteq> int (length output));
                grew = (if moved then t else grew0)
            in Some (\<lparr>pu_handle = run_handle record, pu_target = run_target record,
                      pu_progress = read_progress output,
                      pu_quiet_s = (if held key = None then None else Some (int_trunc (t - grew))),
                      pu_gpu_pct = rd_gpu_pct r\<rparr>,
                     if moved then [\<lparr>pl_key = key, pl_size = int (length output), pl_grew = t\<rparr>] else []))"

definition taken :: "'w asking_scheme \<Rightarrow> run_record list \<Rightarrow> ('s waiting_scheme, (run_record, pulse) dict) comp" where
  "taken w records =
     (if records = [] then ret []
      else
        andThen (probe w records) (\<lambda>readings.
        andThen (\<lambda>s. (Inr (y_wall w (lk_ticks s)), s\<lparr>lk_ticks := Suc (lk_ticks s)\<rparr>)) (\<lambda>t.
        andThen (reading (recalled (map (\<lambda>(r, _). pulse_key r) readings))) (\<lambda>held.
        let found = concat (map (\<lambda>(r, d). case pulse_of t held r d of None \<Rightarrow> [] | Some p \<Rightarrow> [(r, p)]) readings) in
        andThen (changing (\<lambda>s. s\<lparr>wt_pulse := wt_pulse s @ concat (map (\<lambda>(r, p). snd p) found)\<rparr>)) (\<lambda>_.
        ret (map (\<lambda>(r, p). (r, fst p)) found))))))"


section \<open>The vigil\<close>

definition LOOK_SECONDS :: rat where "LOOK_SECONDS = 30"
definition STALL_SECONDS :: rat where "STALL_SECONDS = 1200"
definition LINGER_SECONDS :: int where "LINGER_SECONDS = 120"
definition IDLE_PCT :: int where "IDLE_PCT = 5"

record patience =
  pt_timeout :: rat
  pt_stall :: rat
  pt_interval :: rat

record linger =
  lg_handle :: string
  lg_target :: string
  lg_session :: int

record look =
  lk_lingering :: "linger list"
  lk_stalled :: string

text \<open>
  A wait's own memory: how much of each job it said, when it last looked (\<open>None\<close> is minus infinity),
  the lines it said, and how often it read the monotonic clock.
\<close>

record vigil =
  vg_stall :: rat
  vg_said :: "(string, nat) dict"
  vg_last :: "rat option"
  vg_lines :: "string list"
  vg_clock :: nat

definition vigil_cells :: "pulse list \<Rightarrow> string" where
  "vigil_cells pulses =
     (if list_ex (\<lambda>p. pr_total (pu_progress p) = None) pulses then ''?''
      else int_text (sum_list (map (\<lambda>p. case pr_total (pu_progress p) of None \<Rightarrow> 0 | Some n \<Rightarrow> n) pulses)))"

definition heartbeat :: "pulse list \<Rightarrow> string" where
  "heartbeat seen =
     (let quiet = concat (map (\<lambda>p. case pu_quiet_s p of None \<Rightarrow> [] | Some q \<Rightarrow> [q]) seen);
          cards = concat (map (\<lambda>p. case pu_gpu_pct p of None \<Rightarrow> [] | Some g \<Rightarrow> [g]) seen);
          parts = [nat_text (length seen) @ '' running'',
                   nat_text (sum_list (map (\<lambda>p. progress_done (pu_progress p)) seen)) @ ''/'' @ vigil_cells seen @ '' cells'',
                   nat_text (sum_list (map (\<lambda>p. progress_failed (pu_progress p)) seen)) @ '' failed'']
            @ (case quiet of [] \<Rightarrow> [] | q # qs \<Rightarrow> [''output '' @ int_text (fold min qs q) @ ''s ago''])
            @ (case cards of [] \<Rightarrow> [] | g # gs \<Rightarrow> [''gpu '' @ int_text (fold max gs g) @ ''%''])
      in ''heartbeat: '' @ join_with '', '' parts)"

definition landed :: "pulse \<Rightarrow> vigil \<Rightarrow> vigil" where
  "landed p v =
     (let cells = pr_cells (pu_progress p);
          already = (case map_of (vg_said v) (pu_handle p) of None \<Rightarrow> 0 | Some n \<Rightarrow> n)
      in v\<lparr>vg_lines := vg_lines v @ map (\<lambda>(cell, outcome). pu_handle p @ '' '' @ outcome @ '' '' @ cell) (drop already cells),
           vg_said := AList.update (pu_handle p) (length cells) (vg_said v)\<rparr>)"

definition stuck :: "vigil \<Rightarrow> pulse \<Rightarrow> bool" where
  "stuck v p \<longleftrightarrow>
     (case pu_quiet_s p of None \<Rightarrow> False | Some q \<Rightarrow> 0 < vg_stall v \<and> vg_stall v \<le> of_int q) \<and>
     (case pu_gpu_pct p of None \<Rightarrow> True | Some g \<Rightarrow> g \<le> IDLE_PCT) \<and> pr_session (pu_progress p) = None"

definition silence :: "pulse \<Rightarrow> string" where
  "silence p =
     pu_handle p @ '' on '' @ pu_target p @ '' printed nothing for '' @
     (case pu_quiet_s p of None \<Rightarrow> ''None'' | Some q \<Rightarrow> int_text q) @ ''s'' @
     (case pu_gpu_pct p of None \<Rightarrow> [] | Some g \<Rightarrow> '' and its busiest card at '' @ int_text g @ ''%'')"

definition lingering_of :: "pulse \<Rightarrow> linger list" where
  "lingering_of p =
     (case pr_session (pu_progress p) of
        None \<Rightarrow> []
      | Some session \<Rightarrow>
          if LINGER_SECONDS \<le> (case pu_quiet_s p of None \<Rightarrow> 0 | Some q \<Rightarrow> q)
          then [\<lparr>lg_handle = pu_handle p, lg_target = pu_target p, lg_session = session\<rparr>] else [])"

definition looking ::
  "'w asking_scheme \<Rightarrow> vigil \<Rightarrow> run_record list \<Rightarrow> ('s waiting_scheme, look \<times> vigil) comp" where
  "looking w v records =
     (let nothing = \<lparr>lk_lingering = [], lk_stalled = []\<rparr>;
          v1 = v\<lparr>vg_clock := Suc (vg_clock v)\<rparr>
      in if (case vg_last v of None \<Rightarrow> False | Some before \<Rightarrow> y_clock w (vg_clock v) - before < LOOK_SECONDS)
         then ret (nothing, v1)
         else
           let v2 = v1\<lparr>vg_last := Some (y_clock w (vg_clock v1)), vg_clock := Suc (vg_clock v1)\<rparr> in
           andThen (taken w records) (\<lambda>found.
             let pulses = map snd found in
             if pulses = [] then ret (nothing, v2)
             else
               let v3 = fold landed pulses v2;
                   v4 = v3\<lparr>vg_lines := vg_lines v3 @ [heartbeat pulses]\<rparr>
               in ret (\<lparr>lk_lingering = concat (map lingering_of pulses),
                        lk_stalled = join_with ''; '' (map silence (filter (stuck v4) pulses))\<rparr>, v4)))"


section \<open>Why a run failed\<close>

definition TAIL :: nat where "TAIL = 200"
definition WIDTH :: nat where "WIDTH = 240"

text \<open>\<open>^exit=-?\d+$\<close> on a stripped line.\<close>

definition is_trailer :: "string \<Rightarrow> bool" where
  "is_trailer line \<longleftrightarrow>
     prefix ''exit='' line \<and>
     (let rest = removeprefix ''-'' (removeprefix ''exit='' line) in rest \<noteq> [] \<and> list_all is_digit rest)"

definition cause_of :: "string \<Rightarrow> string" where
  "cause_of text =
     (case find (\<lambda>line. strip line \<noteq> [] \<and> \<not> list_ex is_space (take 1 line) \<and> \<not> is_trailer (strip line))
             (rev (splitlines (printed text))) of
        None \<Rightarrow> []
      | Some line \<Rightarrow> take WIDTH (strip line))"

definition failure_cause :: "run_record \<Rightarrow> 's store_scheme \<Rightarrow> string" where
  "failure_cause record s =
     (let (stream, _) = streamed (run_name record) (run_handle record) in
      cause_of (case transcript stream (run_handle record) TAIL s of None \<Rightarrow> [] | Some t \<Rightarrow> t))"

definition tail_lines :: "run_record \<Rightarrow> nat \<Rightarrow> 's store_scheme \<Rightarrow> string list" where
  "tail_lines record final s =
     (let (stream, _) = streamed (run_name record) (run_handle record) in
      splitlines (printed (case transcript stream (run_handle record) final s of None \<Rightarrow> [] | Some t \<Rightarrow> t)))"

end
