(* ===== verification/Outcomes.thy ===== *)
theory Outcomes
  imports Waiting
begin

text \<open>
  The verbs over one run's outcome (\<open>waiting/verdicts.py\<close>, the acting half): the answer read for a
  handle, a stream or a file with the registry's row under it, the stop of a run with its evidence
  kept first, the cancel under the settlement claim, and the wait that settles through the
  monitor's own pass until its target is settled, its patience is out, or its job has stalled.
\<close>

section \<open>The registry under the receipts\<close>

definition record_of :: "string \<Rightarrow> string \<Rightarrow> ('s center_scheme, run_record) comp" where
  "record_of handle host =
     trying is_lookup (run_named handle (if host = [] then None else Some host))
       (\<lambda>missing. raising (MissionError (''nothing to wait on: '' @ fault_text missing)))"

text \<open>Fail closed on the registry's checkpoint, even if its next line was never published.\<close>

definition delivery_row :: "trial_verdict \<Rightarrow> run_record \<Rightarrow> trial_verdict" where
  "delivery_row trial record =
     (if run_evidence record \<notin> {''pending'', ''copied'', UNVERIFIED} then trial
      else let unverified = (run_evidence record = UNVERIFIED) in
        trial\<lparr>tv_verdict := (if unverified then UNVERIFIED else ''blocked''),
              tv_detail := (if unverified then ''evidence is unverified'' else INCOMPLETE)\<rparr>)"

definition opt_text :: "string option \<Rightarrow> string \<Rightarrow> string" where
  "opt_text v other = (case v of None \<Rightarrow> other | Some t \<Rightarrow> if t = [] then other else t)"

definition registered_row :: "run_record \<Rightarrow> string \<Rightarrow> trial_verdict" where
  "registered_row record job =
     delivery_row ((blank_trial job)\<lparr>tv_handle := run_handle record, tv_target := run_target record,
       tv_node := run_node record, tv_state := opt_text (run_state record) [],
       tv_verdict := opt_text (run_verdict record) (word_text RUNNING),
       tv_exit_code := run_exit_code record, tv_commit := run_commit record,
       tv_digest := run_digest record\<rparr>) record"

definition explained :: "trial_verdict \<Rightarrow> run_record \<Rightarrow> 's store_scheme \<Rightarrow> trial_verdict" where
  "explained trial record s =
     (if trial_code trial \<noteq> 1 then trial else trial\<lparr>tv_cause := failure_cause record s\<rparr>)"

definition floor_row :: "run_record \<Rightarrow> string \<Rightarrow> 's store_scheme \<Rightarrow> trial_verdict" where
  "floor_row record job s = explained (registered_row record job) record s"

definition joined_registry :: "trial_verdict \<Rightarrow> ('s center_scheme, trial_verdict) comp" where
  "joined_registry trial =
     trying_else is_lookup
       (run_named (tv_handle trial) (if tv_target trial = [] then None else Some (tv_target trial)))
       (\<lambda>_. ret trial)
       (\<lambda>record.
          let outcome = (\<lambda>t. if trial_code trial = IN_FLIGHT
                then t\<lparr>tv_state := opt_text (run_state record) (tv_state trial),
                       tv_verdict := opt_text (run_verdict record) (tv_verdict trial),
                       tv_exit_code := run_exit_code record\<rparr> else t);
              row = outcome (trial\<lparr>tv_commit := run_commit record, tv_digest := run_digest record\<rparr>)
          in reading (explained (delivery_row row record) record))"

definition swept :: "trial_verdict list \<Rightarrow> ('s center_scheme, trial_verdict list) comp" where
  "swept trials = each (\<lambda>t. if tv_handle t \<noteq> [] then joined_registry t else ret t) trials"

text \<open>\<open>__events\<close>: the lines of one submission; a line without a target only if the handle had one.\<close>

definition submission_events :: "event list \<Rightarrow> run_record \<Rightarrow> event list" where
  "submission_events events record =
     (let h = Some (JStr (run_handle record));
          targets = map (\<lambda>e. text_field (ev_data e) ''target'')
            (filter (\<lambda>e. ev_topic e = T_SUBMITTED \<and> map_of (ev_data e) ''handle'' = h) events)
      in filter (\<lambda>e. map_of (ev_data e) ''handle'' = h \<and> run_submitted_at record \<le> ev_at e \<and>
           (case map_of (ev_data e) ''submitted_at'' of None \<Rightarrow> True
            | Some v \<Rightarrow> v = JStr (run_submitted_at record)) \<and>
           (map_of (ev_data e) ''target'' = Some (JStr (run_target record)) \<or>
            (\<not> truthy_opt (map_of (ev_data e) ''target'') \<and> set targets = {run_target record}))) events)"

definition harvest :: "'w asking_scheme \<Rightarrow> string \<Rightarrow> 's store_scheme \<Rightarrow> trial_verdict list" where
  "harvest w name s = parsed (y_validate w) (receipts name s) []"

definition handled :: "'w asking_scheme \<Rightarrow> string \<Rightarrow> string \<Rightarrow> ('s center_scheme, stream_verdict) comp" where
  "handled w handle host =
     andThen (trying is_lookup (run_named handle (if host = [] then None else Some host))
       (\<lambda>missing. raising (MissionError (repr_text handle @
          '' is not a receipts file, a stream, or a recorded handle: '' @ fault_text missing)))) (\<lambda>record.
     let (name, job) = streamed (run_name record) (run_handle record) in
     andThen (reading (\<lambda>s. submission_events (replay name s) record)) (\<lambda>events.
     let mine = filter (\<lambda>t. tv_handle t = run_handle record) (eventful events);
         named = concat (map evidence_cases (filter (\<lambda>e. ev_topic e = T_EVIDENCE) events))
     in andThen (reading (\<lambda>s. filter (\<lambda>t. (tv_run t, tv_job t) \<in> set named) (harvest w name s))) (\<lambda>harvested.
        andThen (swept mine) (\<lambda>rows.
        andThen (reading (floor_row record job)) (\<lambda>floor.
        ret \<lparr>sv_stream = name,
             sv_trials = qualified_rows ((if rows = [] then [floor] else rows) @ harvested) events,
             sv_note = [], sv_stalled = []\<rparr>)))))"

definition silent_note :: "string \<Rightarrow> event list \<Rightarrow> trial_verdict list \<Rightarrow> string" where
  "silent_note name events trials =
     (if trials \<noteq> [] then []
      else if events = [] then ''stream '' @ name @ '' has recorded nothing yet''
      else ''stream '' @ name @ '' holds '' @ nat_text (length events) @
        '' event(s), none of which settles a trial yet: a trial settles on its job.settled event or on a '' @
        ''`trial_receipt` line its log prints'')"

definition unreadable_note :: "string \<Rightarrow> string \<Rightarrow> trial_verdict list \<Rightarrow> string" where
  "unreadable_note path text trials =
     (let ls = filter (\<lambda>line. strip line \<noteq> []) (splitlines text) in
      if trials \<noteq> [] then []
      else if ls = [] then path @ '' is empty: nothing has been recorded for this run yet''
      else path @ '' holds '' @ nat_text (length ls) @
        '' line(s), none of which is evidence this verb reads. It reads the batch event envelope and '' @
        ''the `trial_receipt` line, so a harness writing another shape settles here as soon as it '' @
        ''prints one of those two per trial'')"

definition journaled ::
  "'w asking_scheme \<Rightarrow> string \<Rightarrow> event list \<Rightarrow> trial_verdict list \<Rightarrow> ('s center_scheme, stream_verdict) comp" where
  "journaled w target events harvested =
     (let recorded_rows = eventful events;
          seen = map (\<lambda>t. (tv_target t, tv_handle t)) recorded_rows
      in andThen (reading (\<lambda>s. concat (map (\<lambda>record.
             let (name, job) = streamed (run_name record) (run_handle record) in
             if name = target \<and> (run_target record, run_handle record) \<notin> set seen
             then [floor_row record job s] else []) (listed Tracked [] None [] s)))) (\<lambda>missing.
         andThen (swept recorded_rows) (\<lambda>rows.
         let found = rows @ missing @ harvested in
         ret \<lparr>sv_stream = target, sv_trials = qualified_rows found events,
              sv_note = silent_note target events found, sv_stalled = []\<rparr>)))"

definition stored :: "'w asking_scheme \<Rightarrow> string \<Rightarrow> string \<Rightarrow> string \<Rightarrow> stream_verdict option" where
  "stored w path name run =
     (case y_dataset w path of
        None \<Rightarrow> None
      | Some store \<Rightarrow>
          let chosen = (if run \<noteq> [] then run else ds_newest store);
              trials = map receipted (ds_rows store chosen)
          in Some \<lparr>sv_stream = name @ '' run '' @ chosen, sv_trials = trials,
                   sv_note = (if trials \<noteq> [] then []
                     else ds_root store @ '' holds no receipts for run '' @ repr_text chosen @
                          ''; it holds '' @ ds_runs store),
                   sv_stalled = []\<rparr>)"

text \<open>A receipts store or file on this machine answers before any stream.\<close>

definition of_local :: "'w asking_scheme \<Rightarrow> string \<Rightarrow> string \<Rightarrow> stream_verdict option" where
  "of_local w target run =
     (let path = y_local w target in
      case stored w path target run of
        Some found \<Rightarrow> Some found
      | None \<Rightarrow>
          (case y_file w path of
             None \<Rightarrow> None
           | Some text \<Rightarrow>
               let rows = parsed (y_validate w) (splitlines text) [] in
               Some \<lparr>sv_stream = target, sv_trials = rows, sv_note = unreadable_note path text rows,
                     sv_stalled = []\<rparr>))"

definition of_target ::
  "'w asking_scheme \<Rightarrow> string \<Rightarrow> string \<Rightarrow> string \<Rightarrow> ('s center_scheme, stream_verdict) comp" where
  "of_target w target host run =
     (case of_local w target run of
        Some found \<Rightarrow> ret found
      | None \<Rightarrow>
          andThen (reading (replay target)) (\<lambda>events.
          andThen (reading (harvest w target)) (\<lambda>harvested.
          if events \<noteq> [] \<or> harvested \<noteq> [] then journaled w target events harvested
          else handled w target host)))"


section \<open>Stopping a run\<close>

text \<open>A fresh \<open>Settlement\<close>, as each of these verbs makes its own.\<close>

definition fresh_settlement :: "('s center_scheme, unit) comp" where
  "fresh_settlement = changing (\<lambda>s. s\<lparr>c_streams := [], c_quiet := [], c_fetched := []\<rparr>)"

definition outcome_of :: "run_record \<Rightarrow> string \<Rightarrow> int option \<Rightarrow> string \<times> int option \<times> string" where
  "outcome_of record ended exit_code =
     (let verdict = (case run_verdict record of
            Some v \<Rightarrow> if settled_text v then v else ended | None \<Rightarrow> ended);
          code = (if exit_code = None then run_exit_code record else exit_code);
          word = (if ended = word_text CANCELLED then word_text CANCELLED else word_text FINISHED)
      in (word, code, verdict))"

definition mark_unverified ::
  "'w asking_scheme \<Rightarrow> run_record \<Rightarrow> string list \<Rightarrow> fault \<Rightarrow> ('s center_scheme, unit) comp" where
  "mark_unverified w record harvested fault =
     evidence w record harvested UNVERIFIED (''cancelled: '' @ fault_text fault)"

text \<open>Only the two blocks under \<open>try\<close> are guarded, and \<open>owes_receipt\<close> stands inside the second.\<close>

definition preserved :: "'w asking_scheme \<Rightarrow> run_record \<Rightarrow> run_obj \<Rightarrow> ('s center_scheme, string list) comp" where
  "preserved w record run =
     trying_else settling_fault (capture w record run False)
       (\<lambda>fault. andThen (mark_unverified w record [] fault) (\<lambda>_. ret []))
       (\<lambda>harvested.
          trying_else settling_fault
            (andThen (pull w run) (\<lambda>pulled.
             andThen (returning (owes_receipt record [] (word_text OK))) (\<lambda>owed.
             verify w run pulled harvested owed)))
            (\<lambda>fault. andThen (mark_unverified w record harvested fault) (\<lambda>_. ret harvested))
            (\<lambda>_. andThen (evidence w record harvested ''copied'' []) (\<lambda>_. ret harvested)))"

definition job_kill :: "'w asking_scheme \<Rightarrow> run_obj \<Rightarrow> ('s center_scheme, unit) comp" where
  "job_kill w run =
     andThen (reading (\<lambda>s.
       if ro_provider run then x_cancel w (moment s) (hd_kind (ro_handle run)) (hd_id (ro_handle run))
       else y_kill w (moment s) (ro_handle run))) (\<lambda>answer.
       case answer of
         None \<Rightarrow> doing (Killed (ro_handle run))
       | Some e \<Rightarrow> andThen (doing (Unkilled (ro_handle run))) (\<lambda>_. raising e))"

definition killed :: "'w asking_scheme \<Rightarrow> run_obj \<Rightarrow> ('s center_scheme, string) comp" where
  "killed w run =
     (let target = hd_host (ro_handle run) in
      andThen (reading (\<lambda>s. opt_text (map_of (c_quiet s) target) [])) (\<lambda>quiet0.
      andThen (if quiet0 \<noteq> [] then ret quiet0
               else trying_else is_unreachable (job_kill w run) (\<lambda>fault. ret (fault_text fault)) (\<lambda>_. ret []))
        (\<lambda>quiet.
      ret (if quiet = [] then []
           else ''; '' @ target @ '' did not answer, so the job was not stopped there''))))"

definition stopped_detail :: "string \<Rightarrow> int option \<Rightarrow> string" where
  "stopped_detail ended exit_code =
     (if ended = word_text CANCELLED then short_reason (word_text CANCELLED) None
      else ''pytest session ended with exit '' @ (case exit_code of None \<Rightarrow> ''None'' | Some n \<Rightarrow> int_text n)
           @ ''; the lingering process was stopped'')"

definition state_with :: "string \<Rightarrow> string option \<Rightarrow> int option \<Rightarrow> string \<Rightarrow> job_state" where
  "state_with handle st code verdict =
     \<lparr>js_handle = handle, js_label = None, js_state = st, js_exit_code = code, js_verdict = verdict,
      js_stage = [], js_since = [], js_estimated_start = [], js_note = []\<rparr>"

definition stop_released ::
  "'w asking_scheme \<Rightarrow> run_record \<Rightarrow> string \<Rightarrow> int option \<Rightarrow> ('s center_scheme, unit) comp" where
  "stop_released w record ended exit_code =
     andThen (reading (\<lambda>s. x_job w (moment s) (run_handle record) (run_target record))) (\<lambda>answer.
     andThen (returning answer) (\<lambda>run.
     andThen fresh_settlement (\<lambda>_.
     andThen (preserved w record run) (\<lambda>harvested.
     let (word, code, verdict) = outcome_of record ended exit_code;
         state = state_with (run_handle record) (Some word) code verdict
     in andThen (killed w run) (\<lambda>unheard.
        andThen (resolve w record (Some word) code verdict) (\<lambda>kept.
        andThen (release w run) (\<lambda>let_go.
        if \<not> let_go then ret ()
        else
          andThen (run_named (run_handle record) (Some (run_target record))) (\<lambda>current.
          andThen (if run_evidence current = ''copied'' then evidence w record harvested ''verified'' [] else ret ()) (\<lambda>_.
          andThen (track w record state (stopped_detail ended code @ unheard)) (\<lambda>_.
          report w kept verdict))))))))))"

definition abandon :: "'w asking_scheme \<Rightarrow> run_record \<Rightarrow> ('s center_scheme, unit) comp" where
  "abandon w record =
     (let detail = ''cancelled: '' @ run_target record @ '' is no longer declared, so its output is lost'';
          cancelled = word_text CANCELLED
      in andThen fresh_settlement (\<lambda>_.
         andThen (evidence w record [] UNVERIFIED detail) (\<lambda>_.
         andThen (resolve w record (Some cancelled) None cancelled) (\<lambda>kept.
         let verdict = opt_text (run_verdict kept) cancelled in
         andThen (track w record (state_with (run_handle record) (run_state kept) (run_exit_code kept) verdict) detail) (\<lambda>_.
         report w kept verdict)))))"

definition unheld :: "'w asking_scheme \<Rightarrow> run_record \<Rightarrow> ('s center_scheme, unit) comp" where
  "unheld w record =
     (let cancelled = word_text CANCELLED in
      andThen (resolve w record (Some cancelled) None cancelled) (\<lambda>current. report w current cancelled))"

definition unprepared :: "'w asking_scheme \<Rightarrow> run_record \<Rightarrow> ('s center_scheme, unit) comp" where
  "unprepared w record =
     trying_else is_value (prepared w record (word_text CANCELLED) None)
       (\<lambda>_. raising (MissionError (''creation '' @ run_creation record @
          '' changed during cancellation; reconcile its provider label before retrying'')))
       (\<lambda>_. ret ())"

definition unconfirmed :: "run_record \<Rightarrow> ('s center_scheme, unit) comp" where
  "unconfirmed record =
     raising (MissionError (''creation '' @ run_creation record @
       '' has no confirmed provider handle; reconcile its provider label before cancellation; '' @
       ''absence from one listing is not proof''))"

definition unreached :: "'w asking_scheme \<Rightarrow> run_record \<Rightarrow> ('s center_scheme, bool) comp" where
  "unreached w record =
     (let verdict = opt_text (run_verdict record) [] in
      if verdict = word_text SUBMITTING then andThen (unconfirmed record) (\<lambda>_. ret True)
      else if verdict = word_text PREPARED then andThen (unprepared w record) (\<lambda>_. ret True)
      else if verdict = word_text HELD then andThen (unheld w record) (\<lambda>_. ret True)
      else if settled_opt (run_verdict record) \<and> run_reported record = run_verdict record then ret True
      else if \<not> x_declares w (run_target record) then andThen (abandon w record) (\<lambda>_. ret True)
      else ret False)"

definition stop ::
  "'w asking_scheme \<Rightarrow> string \<Rightarrow> string \<Rightarrow> string \<Rightarrow> int option \<Rightarrow> ('s center_scheme, stream_verdict) comp" where
  "stop w handle host ended exit_code =
     andThen (record_of handle host) (\<lambda>record.
     andThen (unreached w record) (\<lambda>over.
     andThen (if over then ret () else stop_released w record ended exit_code) (\<lambda>_.
     handled w handle host)))"

text \<open>The claim is held for the body and let go of after it, whatever it raised.\<close>

definition cancel :: "'w asking_scheme \<Rightarrow> string \<Rightarrow> string \<Rightarrow> ('s center_scheme, stream_verdict) comp" where
  "cancel w handle host =
     andThen (reading (\<lambda>s. y_claimed w (moment s))) (\<lambda>mine.
       if \<not> mine
       then raising (MissionError (''another mainboard process has held settlement for 120s, a sweep or a '' @
              ''dispatch still landing; nothing was cancelled, ask again when it ends''))
       else andThen (acquired w) (\<lambda>_. stop w handle host (word_text CANCELLED) None))"

definition conclude :: "'w asking_scheme \<Rightarrow> string \<Rightarrow> string \<Rightarrow> int \<Rightarrow> ('s center_scheme, stream_verdict) comp" where
  "conclude w handle host session =
     andThen (reading (\<lambda>s. y_claimed w (moment s))) (\<lambda>mine.
       if \<not> mine then handled w handle host
       else andThen (acquired w) (\<lambda>_.
            stop w handle host (if session = 0 then word_text OK else word_text FAILED) (Some session)))"

definition captured :: "'w asking_scheme \<Rightarrow> string \<Rightarrow> string \<Rightarrow> ('s center_scheme, string) comp" where
  "captured w handle host =
     andThen (record_of handle host) (\<lambda>record.
     let (name, _) = streamed (run_name record) (run_handle record) in
     andThen (reading (transcript name (run_handle record) 0)) (\<lambda>kept.
       case kept of
         Some text \<Rightarrow> ret text
       | None \<Rightarrow>
           andThen (reading (\<lambda>s. x_job w (moment s) (run_handle record) (run_target record))) (\<lambda>answer.
           andThen (returning answer) (\<lambda>job.
           andThen (job_transcript w job) (\<lambda>live. ret (opt_text live []))))))"

end
