(* ===== verification/Wait.thy ===== *)
theory Wait
  imports Outcomes
begin

text \<open>
  The blocking wait (\<open>waiting/verdicts.py\<close>): each pass settles what ended through the monitor, says
  what changed, follows a held dispatch that went out to its new handle, concludes a run whose test
  session ended, and stops on a stall. The loop is not bounded in the code, so it runs on fuel here:
  an answer of \<open>None\<close> is a wait that is still waiting. Sleeping is not modelled; the clock is.
\<close>

record watched =
  wd_handle :: string
  wd_host :: string
  wd_stream :: bool
  wd_silent :: "string list"

definition watched_scope :: "watched \<Rightarrow> ('s center_scheme, run_record \<Rightarrow> bool) comp" where
  "watched_scope wd =
     (if wd_stream wd
      then ret (\<lambda>record. fst (streamed (run_name record) (run_handle record)) = wd_handle wd)
      else andThen (record_of (wd_handle wd) (wd_host wd)) (\<lambda>selected.
           ret (\<lambda>record. run_handle record = run_handle selected \<and> run_target record = run_target selected \<and>
                        run_submitted_at record = run_submitted_at selected)))"

definition pass_once :: "'w asking_scheme \<Rightarrow> watched \<Rightarrow> ('s center_scheme, monitor_report) comp" where
  "pass_once w wd =
     andThen (watched_scope wd) (\<lambda>scope.
     andThen (reading (\<lambda>s. y_deadline w (lk_ticks s))) (\<lambda>deadline.
     once w (Some scope) deadline))"

text \<open>\<open>__refreshed\<close> and \<open>refresh\<close>: one pass for this target alone, then its answer.\<close>

definition refresh ::
  "'w asking_scheme \<Rightarrow> string \<Rightarrow> string \<Rightarrow> string \<Rightarrow> ('s center_scheme, stream_verdict) comp" where
  "refresh w target host run =
     (case of_local w target run of
        Some found \<Rightarrow> ret found
      | None \<Rightarrow>
          andThen (reading (\<lambda>s. replay target s \<noteq> [] \<or> harvest w target s \<noteq> [])) (\<lambda>is_stream.
          let wd = \<lparr>wd_handle = target, wd_host = host, wd_stream = is_stream, wd_silent = []\<rparr> in
          andThen (pass_once w wd) (\<lambda>swept_report.
            case mr_resumed swept_report of
              resumed_one # _ \<Rightarrow>
                if \<not> is_stream then of_target w (re_handle resumed_one) (re_target resumed_one) run
                else of_target w target host run
            | [] \<Rightarrow> of_target w target host run)))"

fun announce_down :: "'w asking_scheme \<Rightarrow> down_host list \<Rightarrow> watched \<Rightarrow> vigil \<Rightarrow> watched \<times> vigil" where
  "announce_down w [] wd v = (wd, v)"
| "announce_down w (down # downs) wd v =
     (if dh_host down \<in> set (wd_silent wd) then announce_down w downs wd v
      else announce_down w downs (wd\<lparr>wd_silent := wd_silent wd @ [dh_host down]\<rparr>)
        (v\<lparr>vg_lines := vg_lines v @ [if x_declares w (dh_host down)
             then dh_host down @ '' is not answering: '' @ dh_reason down else dh_reason down]\<rparr>))"

definition settled_answer :: "'w asking_scheme \<Rightarrow> watched \<Rightarrow> ('s center_scheme, stream_verdict option) comp" where
  "settled_answer w wd =
     (if wd_stream wd
      then andThen (of_target w (wd_handle wd) [] []) (\<lambda>answered.
           ret (if stream_code answered = IN_FLIGHT then None else Some answered))
      else andThen (record_of (wd_handle wd) (wd_host wd)) (\<lambda>record.
           if settled_opt (run_reported record)
           then andThen (handled w (wd_handle wd) (wd_host wd)) (\<lambda>answered. ret (Some answered))
           else ret None))"

definition standing :: "'w asking_scheme \<Rightarrow> watched \<Rightarrow> ('s center_scheme, stream_verdict) comp" where
  "standing w wd =
     (if wd_stream wd then of_target w (wd_handle wd) [] [] else handled w (wd_handle wd) (wd_host wd))"

definition looked ::
  "'w asking_scheme \<Rightarrow> watched \<Rightarrow> vigil \<Rightarrow> ('s waiting_scheme, stream_verdict option \<times> vigil) comp" where
  "looked w wd v =
     andThen (watched_scope wd) (\<lambda>scope.
     andThen (reading (\<lambda>s. filter (\<lambda>r. run_verdict r = Some (word_text RUNNING) \<and> scope r) (listed Live [] None [] s))) (\<lambda>records.
     andThen (looking w v records) (\<lambda>(seen, v').
     andThen (each (\<lambda>l. conclude w (lg_handle l) (lg_target l) (lg_session l)) (lk_lingering seen)) (\<lambda>_.
     if lk_stalled seen \<noteq> []
     then andThen (standing w wd) (\<lambda>answer. ret (Some (answer\<lparr>sv_stalled := lk_stalled seen\<rparr>), v'))
     else ret (None, v')))))"

definition wait_pass ::
  "'w asking_scheme \<Rightarrow> watched \<Rightarrow> vigil \<Rightarrow>
     ('s waiting_scheme, stream_verdict option \<times> watched \<times> vigil) comp" where
  "wait_pass w wd v =
     andThen (pass_once w wd) (\<lambda>swept_report.
       case mr_busy swept_report of
         Some busy \<Rightarrow> ret (None, wd, v\<lparr>vg_lines := vg_lines v @ [y_busy_note w busy]\<rparr>)
       | None \<Rightarrow>
           let wd1 = (if wd_stream wd then wd
                 else (case mr_resumed swept_report of
                         [] \<Rightarrow> wd
                       | one # _ \<Rightarrow> wd\<lparr>wd_handle := re_handle one, wd_host := re_target one\<rparr>));
               (wd2, v2) = announce_down w (mr_unreachable_hosts swept_report) wd1 v
           in andThen (settled_answer w wd2) (\<lambda>over.
              if over \<noteq> None then ret (None, wd2, v2)
              else andThen (looked w wd2 v2) (\<lambda>(answer, v3). ret (answer, wd2, v3))))"

fun wait_loop ::
  "'w asking_scheme \<Rightarrow> rat option \<Rightarrow> nat \<Rightarrow> watched \<Rightarrow> vigil \<Rightarrow>
     ('s waiting_scheme, stream_verdict option) comp" where
  "wait_loop w deadline 0 wd v = ret None"
| "wait_loop w deadline (Suc fuel) wd v =
     andThen (settled_answer w wd) (\<lambda>over.
       case over of
         Some answer \<Rightarrow> ret (Some answer)
       | None \<Rightarrow>
           let due = (case deadline of None \<Rightarrow> False | Some d \<Rightarrow> d \<le> y_clock w (vg_clock v));
               v1 = (if deadline = None then v else v\<lparr>vg_clock := Suc (vg_clock v)\<rparr>)
           in if due then andThen (standing w wd) (\<lambda>answer. ret (Some answer))
              else andThen (wait_pass w wd v1) (\<lambda>(answer, wd', v').
                case answer of
                  Some stalled \<Rightarrow> ret (Some stalled)
                | None \<Rightarrow> wait_loop w deadline fuel wd' v'))"

text \<open>The receipts of a local path are read once; a target with events is a stream.\<close>

definition wait ::
  "'w asking_scheme \<Rightarrow> nat \<Rightarrow> string \<Rightarrow> string \<Rightarrow> string \<Rightarrow> patience \<Rightarrow>
     ('s waiting_scheme, stream_verdict option) comp" where
  "wait w fuel handle host run pt =
     (case of_local w handle run of
        Some found \<Rightarrow> ret (Some found)
      | None \<Rightarrow>
          andThen (reading (\<lambda>s. replay handle s \<noteq> [])) (\<lambda>is_stream.
          let timed = (pt_timeout pt \<noteq> 0);
              deadline = (if timed then Some (y_clock w 0 + pt_timeout pt) else None);
              wd = \<lparr>wd_handle = handle, wd_host = host, wd_stream = is_stream, wd_silent = []\<rparr>;
              v = \<lparr>vg_stall = pt_stall pt, vg_said = [], vg_last = None, vg_lines = [],
                   vg_clock = (if timed then 1 else 0)\<rparr>
          in wait_loop w deadline fuel wd v))"

end
