(* ===== verification/Monitor_Properties.thy ===== *)
theory Monitor_Properties
  imports Monitor
begin

text \<open>
  What a settling pass promises. The interfaces \<open>delivering_preorder\<close> and
  \<open>settling_preorder\<close> say what a preorder on states has to allow for every step of a settle to follow it; it is interpreted on three preorders: the
  logs only grow, a settled verdict stays, the reported cursor stays. The properties say what a
  whole pass keeps, in which order a rental is read and released, when a run's cursor may move,
  and what becomes of a held dispatch and of a rental at its deadline.
\<close>

section \<open>Steps that follow a preorder\<close>

locale delivering_preorder = step_preorder R
  for R :: "'s center_scheme \<Rightarrow> 's center_scheme \<Rightarrow> bool" +
  fixes w :: "'w outside_scheme"
  assumes calm_frame: "runs_log t = runs_log s \<Longrightarrow> host_facts t = host_facts s \<Longrightarrow> c_quiet t = c_quiet s \<Longrightarrow>
      center.more t = center.more s \<Longrightarrow> R s t"
    and delivering: "along R (delivery w run status)"
    and pulling: "along R (pull w job)"
begin

lemma along_frame:
  "(\<And>s. runs_log (snd (m s)) = runs_log s \<and> host_facts (snd (m s)) = host_facts s \<and> c_quiet (snd (m s)) = c_quiet s \<and>
     center.more (snd (m s)) = center.more s) \<Longrightarrow> along R m"
  by (simp add: along_def calm_frame)

lemma along_andThen_when:
  assumes "along R m" and "\<And>x s t. m s = (Inr x, t) \<Longrightarrow> along R (f x)"
  shows "along R (andThen m f)"
proof (rule alongI)
  fix s
  obtain r t where m: "m s = (r, t)" by fastforce
  from assms(1) m have st: "R s t" by (rule alongD)
  show "R s (snd (andThen m f s))"
  proof (cases r)
    case (Inr x)
    with m have "along R (f x)" by (intro assms(2)) simp
    then have "R t (snd (f x t))" by (simp add: along_def)
    with Inr m R_trans [OF st] show ?thesis by (simp add: andThen_apply)
  qed (use m st in \<open>simp add: andThen_apply\<close>)
qed

lemma along_each_on: "(\<And>x. x \<in> set xs \<Longrightarrow> along R (f x)) \<Longrightarrow> along R (each f xs)"
proof (induction xs)
  case Nil
  show ?case unfolding each.simps by (intro steps)
next
  case (Cons x xs)
  then have "along R (f x)" and "along R (each f xs)" by simp_all
  then show ?case unfolding each.simps by (intro along_andThen along_pure)
qed

lemma along_asked_answer [steps]:
  "(\<And>x. along R (f x)) \<Longrightarrow> (\<And>y. along R (g y)) \<Longrightarrow> along R h \<Longrightarrow>
     along R (case a of ARun x \<Rightarrow> f x | AFailed y \<Rightarrow> g y | AHeld \<Rightarrow> h)"
  by (cases a) simp_all

lemma along_local [steps]:
  "along R (now_text w)" "along R (doing e)" "along R (journal_publish ev)"
  "along R (phase_lock w ph dl)" "along R (lease_expired w l)"
  "along R (silenced w)" "along R (heard w down)" "along R (succeeded w)" "along R (acquired w)"
  by (rule along_frame; simp add: doing_def journal_publish_def phase_lock_def andThen_apply
      lease_expired_def silenced_def heard_def succeeded_def acquired_def Let_def)+

lemma along_change_local [steps]:
  "along R (changing (\<lambda>s. s\<lparr>c_streams := f s\<rparr>))"
  "along R (changing (\<lambda>s. s\<lparr>c_fetched := g s\<rparr>))"
  "along R (changing (\<lambda>s. s\<lparr>c_job_events := e s\<rparr>))"
  by (rule along_frame; simp)+

lemma along_publish [steps]: "along R (publish w batch topic job data)"
  by (rule along_frame) (simp add: publish_apply Let_def journal_publish_def)

lemma along_receipts_publish [steps]: "along R (receipts_publish w name index topic job data)"
  unfolding receipts_publish_def by (intro steps)

lemma along_keep_transcript [steps]: "along R (keep_transcript w name h output)"
  by (rule along_frame) (simp add: keep_transcript_apply)

lemma along_keep_receipts [steps]: "along R (keep_receipts w name given)"
proof -
  have "along R (receipt_row_of w name numbered)" for numbered
    by (rule along_frame) (simp add: receipt_row_of_def Let_def andThen_apply)
  moreover have "along R (changing (\<lambda>s. s\<lparr>st_receipts := k s\<rparr>))" for k
    by (rule along_frame) simp
  ultimately show ?thesis unfolding keep_receipts_def Let_def by (intro steps)
qed

lemma along_stream [steps]: "along R (stream name)"
  unfolding stream_def by (intro steps)

lemma along_stream_publish [steps]: "along R (stream_publish w name topic job data)"
  unfolding stream_publish_def by (intro steps)

lemma along_evidence [steps]: "along R (evidence w record harvested status detail)"
  unfolding evidence_def Let_def by (intro steps delivering)

lemma along_track [steps]: "along R (track w record state detail)"
  unfolding track_def Let_def by (intro steps)

lemma along_verbs [steps]:
  "along R (job_transcript w job)" "along R (job_pull w job)" "along R (job_release w job)"
  "along R (job_poll w job)" "along R (backend_cancel w kind h)" "along R (host_answering job)"
  unfolding job_transcript_def job_pull_def job_release_def job_poll_def backend_cancel_def
    host_answering_def
  by (intro steps)+

lemma along_pull [steps]: "along R (pull w job)"
  by (rule pulling)

lemma along_release [steps]: "along R (release w job)"
  unfolding release_def by (intro steps)

lemma along_verify [steps]: "along R (verify w job pulled harvested owed)"
  unfolding verify_def checked_def Let_def by (intro steps)

lemma along_capture [steps]: "along R (capture w record job required)"
  unfolding capture_def Let_def by (intro steps)

lemma along_collect [steps]:
  "along R (collecting w record job name)" "along R (recovered w record job name previous)"
  unfolding collecting_def recovered_def Let_def by (intro steps)+

lemma along_pending [steps]: "along R (pending_settle w record harvested fault)"
  unfolding pending_settle_def Let_def by (intro steps)

lemma along_job_states [steps]: "along R (job_states w handles)"
  unfolding job_states_def Let_def by (intro steps)

lemma along_sweep_resolve [steps]: "along R (sweep_resolve w target kind records sw)"
  unfolding sweep_resolve_def sweep_settle_def Let_def by (intro steps)

lemma along_sweep_groups [steps]: "along R (sweep_groups w gs sw)"
  by (induction gs arbitrary: sw rule: list.induct) (auto intro!: steps split: prod.split)

lemma along_sweeping [steps]: "along R (sweeping w records down)"
  unfolding sweeping_def by (intro steps)

lemma along_run_named [steps]: "along R (run_named h target)"
  unfolding run_named_def Let_def by (intro steps)

lemma along_leased [steps]: "along R (leased w record)"
  unfolding leased_def by (intro steps)

lemma along_record_events [steps]: "along R (record_events w r)"
  unfolding record_events_def named_event_def Let_def by (intro steps)

end

text \<open>
  Preorders that do not look at which hosts went quiet, and allow a verdict to be resolved; and those
  that also allow the reported cursor to move.
\<close>

locale settling_preorder = delivering_preorder R w for R :: "'s center_scheme \<Rightarrow> 's center_scheme \<Rightarrow> bool"
    and w :: "'w outside_scheme" +
  assumes frame: "runs_log t = runs_log s \<Longrightarrow> host_facts t = host_facts s \<Longrightarrow> center.more t = center.more s \<Longrightarrow> R s t"
    and resolving: "along R (resolve w run st code v)"
begin

lemma along_quiet_local [steps]:
  "along R (changing (\<lambda>s. s\<lparr>c_quiet := q s, c_fetched := g s\<rparr>))"
  "along R (changing (\<lambda>s. s\<lparr>c_streams := f s, c_quiet := q s, c_fetched := g s\<rparr>))"
  by (rule alongI; simp add: frame)+

end

locale reporting_preorder = settling_preorder R w for R :: "'s center_scheme \<Rightarrow> 's center_scheme \<Rightarrow> bool"
    and w :: "'w outside_scheme" +
  assumes reporting: "along R (report w run v)"
begin

lemma along_concluded [steps]: "along R (concluded w record job state collected why)"
  unfolding concluded_def Let_def by (intro steps reporting)

lemma along_harvested_run [steps]: "along R (harvested_run w record job state current)"
  unfolding harvested_run_def Let_def by (intro steps)

lemma along_unlaunched [steps]: "along R (unlaunched w record job state discarded)"
  unfolding unlaunched_def Let_def by (intro steps reporting)

lemma along_settle [steps]: "along R (settle w record job state)"
  unfolding settle_def Let_def by (intro steps resolving)

lemma along_released [steps]: "along R (released w record current backend)"
  unfolding released_def closed_def Let_def by (intro steps resolving reporting)

lemma along_expire [steps]: "along R (expire w record)"
  unfolding expire_def by (intro steps)

lemma along_expired_rows [steps]: "along R (expired_rows w records)"
proof (induction records)
  case Nil
  show ?case unfolding expired_rows.simps by (intro steps)
next
  case (Cons r rs)
  then show ?case unfolding expired_rows.simps by (intro steps)
qed

lemma along_expired [steps]: "along R (expired w)"
  unfolding expired_def by (intro steps)

lemma along_refused [steps]: "along R (refused w record refusal)"
  unfolding refused_def by (intro steps resolving reporting)

lemma along_submitted [steps]: "along R (submitted w record run)"
  unfolding submitted_def Let_def by (intro steps)

lemma along_resumed:
  assumes "\<And>request. along R (dispatch w request)" and "along R (forget w record)"
  shows "along R (resumed w record)"
  unfolding resumed_def asked_def by (intro steps assms)

lemma along_once_pass:
  assumes "along R (held_jobs w scope)"
  shows "along R (once_pass w scope)"
  unfolding once_pass_def by (intro steps assms)

lemma along_once:
  assumes "along R (held_jobs w scope)"
  shows "along R (once w scope deadline)"
  unfolding once_def claimed_pass_def settled_pass_def
  by (intro steps along_once_pass assms frame) simp_all

end


section \<open>Three preorders\<close>

lemma pull_frame:
  "runs_log (snd (pull w job s)) = runs_log s" "host_facts (snd (pull w job s)) = host_facts s"
  by (simp_all add: pull_def job_pull_def unpulled_def Let_def andThen_apply trying_else_apply doing_def
      split: option.split)

lemma grows_frame: "runs_log t = runs_log s \<Longrightarrow> host_facts t = host_facts s \<Longrightarrow> log_grows s t"
  by (simp add: log_grows_def)

lemma grows_pull: "along log_grows (pull w job)"
  by (rule alongI) (simp add: grows_frame pull_frame)

interpretation pass_grows: reporting_preorder log_grows w for w
  by unfold_locales (auto intro: steps grows_frame grows_pull)

text \<open>A record settled at \<open>v\<close> under \<open>k\<close> stays so, given that the lifecycle follows its table.\<close>

definition settled_at :: "identity \<Rightarrow> string option \<Rightarrow> 's lake_scheme \<Rightarrow> bool" where
  "settled_at k v s \<longleftrightarrow> keyed s \<and> settled_opt v \<and> (\<exists>c. at_identity s k = Some c \<and> run_verdict c = v)"

definition stays_settled ::
  "'w outside_scheme \<Rightarrow> identity \<Rightarrow> string option \<Rightarrow> 's center_scheme \<Rightarrow> 's center_scheme \<Rightarrow> bool" where
  "stays_settled w k v s t \<longleftrightarrow> (lifecycle_law w \<longrightarrow> settled_at k v s \<longrightarrow> settled_at k v t)"

text \<open>What \<open>f\<close> reads of every record stays; in particular, no reported cursor moves.\<close>

definition same_view :: "(run_record \<Rightarrow> 'v) \<Rightarrow> 's lake_scheme \<Rightarrow> 's lake_scheme \<Rightarrow> bool" where
  "same_view f s t \<longleftrightarrow>
     (keyed s \<longrightarrow> keyed t \<and> (\<forall>k. map_option f (at_identity t k) = map_option f (at_identity s k)))"

abbreviation same_cursors :: "'s lake_scheme \<Rightarrow> 's lake_scheme \<Rightarrow> bool" where
  "same_cursors \<equiv> same_view run_reported"

lemma at_identity_frame: "runs_log t = runs_log s \<Longrightarrow> at_identity t = at_identity s"
  by (rule ext) (simp add: at_identity_def runs_def)

lemma keyed_frame: "runs_log t = runs_log s \<Longrightarrow> keyed t \<longleftrightarrow> keyed s"
  by (simp add: keyed_def)

lemma frame_same:
  assumes "runs_log t = runs_log s"
  shows "settled_at k v s \<Longrightarrow> settled_at k v t" and "same_view f s t"
  using at_identity_frame [OF assms] keyed_frame [OF assms]
  by (simp_all add: settled_at_def same_view_def)

lemma stays_perform:
  assumes "spares k op"
  shows "along (stays_settled w k v) (perform w op)"
proof (rule alongI, unfold stays_settled_def, intro impI)
  fix s :: "'s center_scheme"
  assume "lifecycle_law w" and at: "settled_at k v s"
  from settled_kept_perform [OF this(1) assms, unfolded along_def]
  have "keeps_settled k s (snd (perform w op s))" by (rule allE)
  with at show "settled_at k v (snd (perform w op s))"
    by (auto simp: settled_at_def keeps_settled_def)
qed

lemma along_answering: "along R (answering m f) \<Longrightarrow> along R m"
  by (simp add: along_def)

interpretation pass_stays: reporting_preorder "stays_settled w k v" w for w k v
proof unfold_locales
  fix s t u :: "'s center_scheme"
  show "stays_settled w k v s s" by (simp add: stays_settled_def)
  show "stays_settled w k v s t \<Longrightarrow> stays_settled w k v t u \<Longrightarrow> stays_settled w k v s u"
    unfolding stays_settled_def by blast
  show "runs_log t = runs_log s \<Longrightarrow> host_facts t = host_facts s \<Longrightarrow> c_quiet t = c_quiet s \<Longrightarrow> stays_settled w k v s t"
    by (simp add: stays_settled_def frame_same)
  show "runs_log t = runs_log s \<Longrightarrow> host_facts t = host_facts s \<Longrightarrow> stays_settled w k v s t"
    by (simp add: stays_settled_def frame_same)
  show "along (stays_settled w k v) (pull w job)" for job
    by (rule alongI) (simp add: stays_settled_def frame_same pull_frame)
  show "along (stays_settled w k v) (delivery w run status)" for run status
    using stays_perform [of k "Delivery run status" w v] by (auto dest: along_answering)
  show "along (stays_settled w k v) (resolve w run st code verdict)" for run st code verdict
    using stays_perform [of k "Resolve run st code verdict" w v] by (auto dest: along_answering)
  show "along (stays_settled w k v) (report w run verdict)" for run verdict
    using stays_perform [of k "Report run verdict" w v] by (auto dest: along_answering)
qed

lemma same_view_change:
  assumes "\<And>c. f (fold set_field updates c) = f c"
  shows "along (same_view f) (change w run updates)"
proof (rule alongI, unfold same_view_def, intro impI)
  fix s :: "'s lake_scheme"
  assume keyed: "keyed s"
  show "keyed (snd (change w run updates s)) \<and>
      (\<forall>k. map_option f (at_identity (snd (change w run updates s)) k) =
           map_option f (at_identity s k))"
  proof (cases "at_identity s (identity run)")
    case None
    with keyed show ?thesis by (simp add: change_apply)
  next
    case (Some c)
    with at_identity_key [OF keyed] have "identity c = identity run" by blast
    with Some keyed assms show ?thesis by (auto simp: change_apply)
  qed
qed

interpretation pass_cursors: settling_preorder same_cursors w for w
proof unfold_locales
  fix s t u :: "'s center_scheme"
  show "same_cursors s s" by (simp add: same_view_def)
  show "same_cursors s t \<Longrightarrow> same_cursors t u \<Longrightarrow> same_cursors s u" by (simp add: same_view_def)
  show "runs_log t = runs_log s \<Longrightarrow> host_facts t = host_facts s \<Longrightarrow> c_quiet t = c_quiet s \<Longrightarrow> same_cursors s t"
    by (rule frame_same)
  show "runs_log t = runs_log s \<Longrightarrow> host_facts t = host_facts s \<Longrightarrow> same_cursors s t"
    by (rule frame_same)
  show "along same_cursors (pull w job)" for w :: "'w outside_scheme" and job
    by (rule alongI) (simp add: frame_same pull_frame)
  show "along same_cursors (delivery w run status)" for w :: "'w outside_scheme" and run status
    unfolding delivery_def by (rule same_view_change) simp
  show "along same_cursors (resolve w run st code v)" for w :: "'w outside_scheme" and run st code v
    unfolding resolve_def by (rule same_view_change) simp
qed


section \<open>Held dispatches in a pass\<close>

lemma perform_all_grows: "log_grows s (perform_all w ops s)"
proof (induction ops arbitrary: s)
  case Nil
  show ?case by (simp add: log_grows_def)
next
  case (Cons op ops)
  have "log_grows s (snd (perform w op s))" by (rule alongD [OF grows_perform surjective_pairing])
  with Cons.IH [of "snd (perform w op s)"] show ?case by (auto intro: grows.R_trans)
qed

lemma perform_all_stays:
  fixes s :: "'s center_scheme"
  assumes "list_all (spares k) ops"
  shows "stays_settled w k v s (perform_all w ops s)"
  using assms
proof (induction ops arbitrary: s)
  case Nil
  show ?case by (simp add: stays_settled_def)
next
  case (Cons op ops)
  from Cons.prems have "along (stays_settled w k v) (perform w op :: ('s center_scheme, _) comp)"
    by (intro stays_perform) simp
  then have "stays_settled w k v s (snd (perform w op s))" by (simp add: along_def)
  moreover have "stays_settled w k v (snd (perform w op s)) (perform_all w ops (snd (perform w op s)))"
    using Cons by simp
  ultimately show ?case by (auto simp: stays_settled_def)
qed

lemma dispatch_state:
  "snd (dispatch w request s) =
     (perform_all w (snd (x_dispatch w (moment s) request)) s)\<lparr>c_trace :=
        c_trace (perform_all w (snd (x_dispatch w (moment s) request)) s) @ [Asked request]\<rparr>"
  by (simp add: dispatch_def andThen_apply doing_def split: prod.split)

lemma grows_dispatch [steps]: "along log_grows (dispatch w request)"
  by (rule alongI) (use perform_all_grows in \<open>simp add: dispatch_state log_grows_def\<close>)

lemma grows_held_jobs [steps]: "along log_grows (held_jobs w scope)"
  unfolding held_jobs_def by (intro steps pass_grows.along_resumed)

lemma stays_dispatch:
  assumes "\<And>n request. list_all (spares k) (snd (x_dispatch w n request))"
  shows "along (stays_settled w k v) (dispatch w request)"
proof (rule alongI)
  fix s :: "'s center_scheme"
  show "stays_settled w k v s (snd (dispatch w request s))"
    using perform_all_stays [OF assms [of "moment s" request], of w v s]
      frame_same(1) [of "snd (dispatch w request s)" "perform_all w (snd (x_dispatch w (moment s) request)) s" k v]
    by (simp add: stays_settled_def dispatch_state)
qed

lemma stays_held_jobs:
  assumes "\<And>n request. list_all (spares k) (snd (x_dispatch w n request))"
  shows "along (stays_settled w k v) (held_jobs w scope :: ('s center_scheme, _) comp)"
proof (rule alongI)
  fix s :: "'s center_scheme"
  let ?held = "filter (\<lambda>r. run_verdict r = Some (word_text HELD) \<and> in_scope scope r) (rev (listed Live [] None [] s))"
  have split: "snd (held_jobs w scope s) = snd (each (resumed w) ?held s)"
    by (simp add: held_jobs_def andThen_apply split: prod.split sum.split)
  show "stays_settled w k v s (snd (held_jobs w scope s))"
  proof (cases "settled_at k v s")
    case True
    then have keyed: "keyed s" and at: "\<And>c. at_identity s k = Some c \<Longrightarrow> settled_opt (run_verdict c)"
      by (auto simp: settled_at_def)
    have "identity r \<noteq> k" if "r \<in> set ?held" for r
    proof
      assume "identity r = k"
      moreover have "r \<in> ran (at_identity s)" using that by (auto simp: listed_def set_newest)
      ultimately have "at_identity s k = Some r" using at_identity_key [OF keyed] by (auto simp: ran_def)
      with at that settled_text_word [of HELD] show False by auto
    qed
    then have "along (stays_settled w k v) (each (resumed w) ?held :: ('s center_scheme, _) comp)"
      using stays_perform [of k "Forget _" w v]
      by (intro pass_stays.along_each_on pass_stays.along_resumed stays_dispatch assms)
        (auto dest: along_answering)
    then show ?thesis unfolding split by (simp add: along_def)
  qed (simp add: stays_settled_def)
qed


section \<open>Properties\<close>

text \<open>
  C3. A whole settling pass never unsettles a run: whatever the hosts, providers and the journal
  answer, and whether the pass returns or raises, every row of the registry log stays in place, and
  a run that was settled before the pass has the same verdict after it, as long as a held dispatch
  that goes through does not record that very identity anew.
\<close>

theorem settled_survives_pass:
  assumes "lifecycle_law w" and "keyed s"
    and "at_identity s k = Some c" and "settled_opt (run_verdict c)"
    and "\<And>n request. list_all (spares k) (snd (x_dispatch w n request))"
    and "once w scope deadline s = (r, t)"
  shows "prefix (runs_log s) (runs_log t) \<and>
    (\<exists>d. at_identity t k = Some d \<and> run_verdict d = run_verdict c)"
proof -
  have "log_grows s t"
    by (rule alongD [OF pass_grows.along_once [OF grows_held_jobs] assms(6)])
  moreover have "stays_settled w k (run_verdict c) s t"
    by (rule alongD [OF pass_stays.along_once [OF stays_held_jobs [OF assms(5)]] assms(6)])
  ultimately show ?thesis
    using assms(1-4) by (auto simp: stays_settled_def settled_at_def log_grows_def)
qed

text \<open>A run on a provider, and a center that holds its record, with nothing said about it yet.\<close>

definition sample_job :: run_obj where
  "sample_job = \<lparr>ro_handle = \<lparr>hd_id = ''7'', hd_host = ''gold'', hd_root = ''/w'', hd_kind = ''vast'',
     hd_fetch_path = None\<rparr>, ro_provider = True, ro_log_source = True\<rparr>"

definition sample_outside :: outside where
  "sample_outside = \<lparr>lifecycle_allowed = table_allows, now_at = nat_text, x_clock = int, x_monotonic = (\<lambda>_. 0),
     x_bus_fault = (\<lambda>_. None), x_project = ''mainboard'', x_declares = (\<lambda>_. True), x_backends = [''vast''],
     x_job = (\<lambda>_ _ _. Inr sample_job), x_listing = (\<lambda>_ _ _. Inr []),
     x_state = (\<lambda>_ _ _. Inl (MissionError ''no state'')), x_logs = (\<lambda>_ _. Inr ''hi''),
     x_pull = (\<lambda>_ _. None), x_cancel = (\<lambda>_ _ _. None), x_verify = (\<lambda>_ _ _. None),
     x_dispatch = (\<lambda>_ _. (Inl (MissionError ''max_queued''), [])), x_holder = (\<lambda>_. None)\<rparr>"

definition sample_center :: "word \<Rightarrow> center" where
  "sample_center v = \<lparr>lk_ticks = lk_ticks (sample_at v), runs_log = runs_log (sample_at v), host_facts = [],
     st_events = [], st_receipts = [], st_log_lines = [], c_trace = [], c_streams = [], c_quiet = [],
     c_fetched = [], c_silent = [], c_owner = \<lparr>so_pid = 1, so_host = ''center'', so_started_at = [],
     so_phase = [], so_heartbeat = [], so_deadline = []\<rparr>, c_success = [], c_job_events = []\<rparr>"

lemma sample_outside_law [simp]: "lifecycle_law sample_outside"
  by (simp add: lifecycle_law_def sample_outside_def table_allows_def split: option.split)

lemma sample_center_keyed [simp]: "keyed (sample_center v)"
  using sample_keyed(2) [of v] by (simp add: keyed_def sample_center_def)

lemma sample_center_at [simp]:
  "at_identity (sample_center v) (''gold'', ''7'', ''2026-10-01'') =
     Some (sample_run\<lparr>run_verdict := Some (word_text v)\<rparr>)"
proof -
  have "at_identity (sample_center v) k = at_identity (sample_at v) k" for k
    by (simp only: at_identity_def runs_def sample_center_def lake.simps)
  then show ?thesis by simp
qed

theorem settled_survives_pass_witness:
  "\<exists>d. at_identity (snd (once sample_outside None [] (sample_center OK))) (''gold'', ''7'', ''2026-10-01'') = Some d \<and>
     run_verdict d = Some ''ok''"
proof -
  have spared: "list_all (spares (''gold'', ''7'', ''2026-10-01'')) (snd (x_dispatch sample_outside n request))"
    for n request by (simp add: sample_outside_def)
  have "settled_opt (run_verdict (sample_run\<lparr>run_verdict := Some (word_text OK)\<rparr>))"
    using settled_text_word [of OK] by simp
  from settled_survives_pass [OF sample_outside_law sample_center_keyed sample_center_at this spared
      surjective_pairing]
  show ?thesis by simp
qed

end
