(* ===== verification/Settle_Order.thy ===== *)
theory Settle_Order
  imports Monitor_Properties
begin

text \<open>
  The order in which a settle acts on a run's machine and on its record: the log is read before the
  rental is released, and the reported cursor moves only once it was released.
\<close>

section \<open>The order of effects\<close>

text \<open>
  A preorder on the trace and the captured logs: what leaves the trace unchanged and only adds to
  the logs follows it, and so does every effect that releases nothing. All of a settle but its release
  follows such a preorder.
\<close>

lemma c_trace_logged [simp]: "c_trace (logged w run d s) = c_trace s"
  by (simp add: logged_def)

lemma change_frame [simp]:
  "c_trace (snd (change w run updates s)) = c_trace s"
  "c_streams (snd (change w run updates s)) = c_streams s"
  by (simp_all add: change_apply logged_def split: option.split)

lemma change_store_frame [simp]:
  "st_log_lines (snd (change w run updates s)) = st_log_lines s"
  "st_events (snd (change w run updates s)) = st_events s"
  by (simp_all add: change_apply logged_def split: option.split)

lemma andThen_ret_state: "snd (andThen m (\<lambda>_. ret x) s) = snd (m s)"
  by (simp add: andThen_apply split: prod.split sum.split)

lemma keep_transcript_grows:
  "c_trace (snd (keep_transcript w name i output s)) = c_trace s"
  "prefix (st_log_lines s) (st_log_lines (snd (keep_transcript w name i output s)))"
  by (simp_all add: keep_transcript_apply)

locale tracing = step_preorder R for R :: "'s center_scheme \<Rightarrow> 's center_scheme \<Rightarrow> bool" +
  assumes trace_same: "c_trace t = c_trace s \<Longrightarrow> prefix (st_log_lines s) (st_log_lines t) \<Longrightarrow> R s t"
    and other_effect: "(\<And>h. e \<noteq> Released h) \<Longrightarrow> along R (doing e)"
begin

lemma along_trace:
  "(\<And>s. c_trace (snd (m s)) = c_trace s \<and> st_log_lines (snd (m s)) = st_log_lines s) \<Longrightarrow> along R m"
  by (rule alongI) (simp add: trace_same)

lemma along_keep_transcript [steps]: "along R (keep_transcript w name i txt)"
  by (rule alongI) (simp add: trace_same keep_transcript_grows)

lemma along_effects [steps]:
  "along R (doing (Read h))" "along R (doing (Pulled h))" "along R (doing (Unpulled h))"
  "along R (doing (Unreleased h))" "along R (doing (Framed h))" "along R (doing (Checked xs y))"
  by (rule other_effect; simp)+

lemma along_registry [steps]:
  "along R (delivery w run status)" "along R (resolve w run st code v)" "along R (report w run v)"
  by (rule along_trace; simp add: delivery_def resolve_def report_def andThen_ret_state)+

lemma along_lake [steps]:
  "along R (now_text w)" "along R (publish w batch topic j data)"
  by (rule along_trace; simp add: publish_apply Let_def journal_publish_def)+

lemma along_local [steps]:
  "along R (phase_lock w ph dl)" "along R (changing (\<lambda>s. s\<lparr>c_streams := f s\<rparr>))"
  "along R (changing (\<lambda>s. s\<lparr>c_fetched := g s\<rparr>))" "along R (unpulled job fault)"
  "along R (changing (\<lambda>s. s\<lparr>st_receipts := k s\<rparr>))"
  by (rule along_trace; simp add: phase_lock_def andThen_apply unpulled_def)+

lemma along_receipt_row [steps]: "along R (receipt_row_of w name numbered)"
  by (rule along_trace) (simp add: receipt_row_of_def Let_def andThen_apply)

lemma along_keep_receipts [steps]: "along R (keep_receipts w name given)"
  unfolding keep_receipts_def Let_def by (intro steps)

lemma along_stream [steps]:
  "along R (stream name)" "along R (receipts_publish w name index topic job data)"
  unfolding stream_def receipts_publish_def by (intro steps)+

lemma along_stream_publish [steps]: "along R (stream_publish w name topic job data)"
  unfolding stream_publish_def by (intro steps)

lemma along_evidence [steps]: "along R (evidence w record harvested status detail)"
  unfolding evidence_def Let_def by (intro steps)

lemma along_track [steps]: "along R (track w record state detail)"
  unfolding track_def Let_def by (intro steps)

lemma along_run_named [steps]: "along R (run_named h target)"
  unfolding run_named_def Let_def by (intro steps)

lemma along_verbs [steps]:
  "along R (job_transcript w job)" "along R (job_pull w job)" "along R (host_answering job)"
  unfolding job_transcript_def job_pull_def host_answering_def by (intro steps)+

lemma along_pull [steps]: "along R (pull w job)"
  unfolding pull_def Let_def by (intro steps)

lemma along_capture [steps]: "along R (capture w record job required)"
  unfolding capture_def Let_def by (intro steps)

lemma along_verify [steps]: "along R (verify w job pulled harvested owed)"
  unfolding verify_def checked_def Let_def by (intro steps)

lemma along_pending [steps]: "along R (pending_settle w record harvested fault)"
  unfolding pending_settle_def Let_def by (intro steps)

lemma along_collect [steps]:
  "along R (recovered w record job name previous)" "along R (collecting w record job name)"
  unfolding recovered_def collecting_def Let_def by (intro steps)+

lemma along_concluded:
  assumes "along R (release w job)"
  shows "along R (concluded w record job state collected why)"
  unfolding concluded_def Let_def by (intro steps assms)

lemma along_unlaunched:
  assumes "along R (release w job)"
  shows "along R (unlaunched w record job state discarded)"
  unfolding unlaunched_def Let_def by (intro steps assms)

lemma along_harvested:
  assumes "along R (release w job)"
  shows "along R (harvested_run w record job state current)"
  unfolding harvested_run_def Let_def by (intro steps along_concluded assms)

lemma along_settle:
  assumes "along R (release w job)"
  shows "along R (settle w record job state)"
  unfolding settle_def Let_def by (intro steps along_unlaunched along_harvested assms)

end

text \<open>Trace and captured logs grow; they grow by nothing that releases \<open>h\<close>.\<close>

definition record_grows :: "'s center_scheme \<Rightarrow> 's center_scheme \<Rightarrow> bool" where
  "record_grows s t \<longleftrightarrow> prefix (c_trace s) (c_trace t) \<and> prefix (st_log_lines s) (st_log_lines t)"

definition no_release :: "handle \<Rightarrow> 's center_scheme \<Rightarrow> 's center_scheme \<Rightarrow> bool" where
  "no_release h s t \<longleftrightarrow> (\<exists>gained. c_trace t = c_trace s @ gained \<and> Released h \<notin> set gained)"

interpretation recording: tracing record_grows
  by unfold_locales
    (auto simp: record_grows_def along_def doing_def keep_transcript_grows)

interpretation unreleased: tracing "no_release h" for h
proof unfold_locales
  fix s t u :: "'s center_scheme" and e :: effect
  show "no_release h s s" by (simp add: no_release_def)
  show "no_release h s t \<Longrightarrow> no_release h t u \<Longrightarrow> no_release h s u"
    unfolding no_release_def by (metis append_assoc Un_iff set_append)
  show "c_trace t = c_trace s \<Longrightarrow> no_release h s t" by (simp add: no_release_def)
  show "(\<And>i. e \<noteq> Released i) \<Longrightarrow> along (no_release h) (doing e)"
    by (rule alongI) (auto simp: no_release_def doing_def)
qed

lemma recording_release [steps]: "along record_grows (release w job)"
proof -
  have "along record_grows (doing (Released h))" for h
    by (rule alongI) (simp add: record_grows_def doing_def)
  then show ?thesis unfolding release_def job_release_def by (intro steps)
qed

section \<open>A log is kept before its machine goes\<close>

lemma transcript_kept:
  "transcript name i 0 s \<noteq> None \<longleftrightarrow> (\<exists>row \<in> set (st_log_lines s). ln_file row = transcript_file name i)"
proof (cases "filter (\<lambda>row. ln_file row = transcript_file name i) (st_log_lines s) = []")
  case True
  then show ?thesis by (auto simp: transcript_def filter_empty_conv)
next
  case False
  define kept where "kept = filter (\<lambda>row. ln_file row = transcript_file name i) (st_log_lines s)"
  define top where "top = foldr (\<lambda>row t. max (ln_ts row) t) kept (ln_ts (hd kept))"
  from False have ne: "kept \<noteq> []" by (simp add: kept_def)
  have "foldr (\<lambda>row t. max (ln_ts row) t) rows x \<in> insert x (ln_ts ` set rows)" for rows x
    by (induction rows) (auto simp: max_def)
  from this [of kept "ln_ts (hd kept)"] hd_in_set [OF ne] have "top \<in> ln_ts ` set kept"
    unfolding top_def by auto
  then have "filter (\<lambda>row. ln_ts row = top) kept \<noteq> []" by (auto simp: filter_empty_conv)
  then have "sort_key ln_n (filter (\<lambda>row. ln_ts row = top) kept) \<noteq> []"
    by (metis length_0_conv length_sort)
  with ne have "transcript name i 0 s \<noteq> None"
    unfolding transcript_def Let_def kept_def [symmetric] top_def [symmetric] by simp
  moreover from ne have "\<exists>row \<in> set (st_log_lines s). ln_file row = transcript_file name i"
    by (auto simp: kept_def filter_empty_conv)
  ultimately show ?thesis by blast
qed

lemma transcript_stays:
  "record_grows s t \<Longrightarrow> transcript name i 0 s \<noteq> None \<Longrightarrow> transcript name i 0 t \<noteq> None"
  unfolding transcript_kept record_grows_def by (meson set_mono_prefix subsetD)

lemma keep_transcript_kept: "transcript name i 0 (snd (keep_transcript w name i txt s)) \<noteq> None"
proof (cases "transcript name i 0 s = Some txt")
  case False
  have "\<exists>row \<in> set (transcript_rows (now_at w (lk_ticks s)) name i txt). ln_file row = transcript_file name i"
    by (cases "split_on (CHR 0x0A) txt") (auto simp: transcript_rows_def)
  with False show ?thesis unfolding transcript_kept by (auto simp: keep_transcript_apply)
qed (simp add: keep_transcript_apply)

text \<open>Between two states the log of \<open>h\<close> was read, and it was empty or is kept here.\<close>

definition log_kept :: "'w outside_scheme \<Rightarrow> handle \<Rightarrow> string \<Rightarrow> string \<Rightarrow> 's center_scheme \<Rightarrow> 's center_scheme \<Rightarrow> bool" where
  "log_kept w h name i s t \<longleftrightarrow>
     (\<exists>n. length (c_trace s) \<le> n \<and> n < length (c_trace t) \<and> c_trace t ! n = Read h \<and>
        (x_logs w n h = Inr [] \<or> transcript name i 0 t \<noteq> None))"

lemma log_kept_grows:
  assumes "record_grows s0 s" and "log_kept w h name i s t" and "record_grows t u"
  shows "log_kept w h name i s0 u"
proof -
  from assms(2) obtain n where n: "length (c_trace s) \<le> n" "n < length (c_trace t)" "c_trace t ! n = Read h"
    "x_logs w n h = Inr [] \<or> transcript name i 0 t \<noteq> None" by (auto simp: log_kept_def)
  from assms have "length (c_trace s0) \<le> length (c_trace s)" "length (c_trace t) \<le> length (c_trace u)"
    by (auto simp: record_grows_def dest: prefix_length_le)
  moreover from n assms(3) have "c_trace u ! n = Read h"
    by (auto simp: record_grows_def prefix_def nth_append)
  ultimately show ?thesis using n transcript_stays [OF assms(3)] unfolding log_kept_def
    by (meson le_trans less_le_trans)
qed

lemma capture_reads:
  assumes "ro_log_source job" and "capture w record job True s = (Inr found, t)"
  shows "log_kept w (ro_handle job) (fst (streamed (run_name record) (run_handle record)))
    (run_handle record) s t"
proof -
  obtain name key where sk: "streamed (run_name record) (run_handle record) = (name, key)" by fastforce
  let ?h = "ro_handle job" and ?s = "s\<lparr>c_trace := c_trace s @ [Read (ro_handle job)]\<rparr>"
  show ?thesis
  proof (cases "\<exists>c cs. x_logs w (moment s) ?h = Inr (c # cs)")
    case True
    then obtain c cs where logs: "x_logs w (moment s) ?h = Inr (c # cs)" by blast
    let ?kept = "snd (keep_transcript w name (run_handle record) (c # cs) ?s)"
    obtain fs where fs: "receipts_in (c # cs) = Inr fs"
      using assms logs sk
      by (cases "receipts_in (c # cs)") (auto simp: capture_def Let_def job_transcript_def andThen_apply doing_def)
    from keep_transcript_apply [of w name "run_handle record" "c # cs" ?s]
    have ok: "keep_transcript w name (run_handle record) (c # cs) ?s = (Inr (), ?kept)" by simp
    have t: "t = snd (keep_receipts w name fs ?kept)"
      using assms logs sk fs ok
      by (auto simp: capture_def Let_def job_transcript_def andThen_apply doing_def split: prod.splits sum.splits)
    have "record_grows ?kept t" unfolding t by (rule alongD [OF recording.along_keep_receipts surjective_pairing])
    moreover have "log_kept w ?h name (run_handle record) s ?kept"
      using keep_transcript_kept [of name "run_handle record" w "c # cs" ?s]
        keep_transcript_grows(1) [of w name "run_handle record" "c # cs" ?s]
      by (auto simp: log_kept_def intro: exI [of _ "length (c_trace s)"])
    ultimately show ?thesis using log_kept_grows [OF recording.R_refl] sk by fastforce
  next
    case False
    then have "t = ?s \<and> (x_logs w (moment s) ?h = Inr [] \<or> transcript name (run_handle record) 0 ?s \<noteq> None)"
      using assms sk
      by (auto simp: capture_def Let_def job_transcript_def andThen_apply doing_def
          split: sum.splits list.splits if_splits)
    then show ?thesis using sk by (auto simp: log_kept_def moment_def intro: exI [of _ "length (c_trace s)"])
  qed
qed

lemma collecting_reads:
  assumes "ro_log_source job" and "collecting w record job name s = (Inr found, t)"
  shows "log_kept w (ro_handle job) (fst (streamed (run_name record) (run_handle record)))
    (run_handle record) s t"
proof -
  from assms(2) obtain s1 s2 pulled harvested s3 where
    steps: "host_answering job s = (Inr (), s1)" "pull w job s1 = (Inr pulled, s2)"
      "host_answering job s2 = (Inr (), s3)"
    and cap: "\<exists>s4. capture w record job True s3 = (Inr harvested, s4) \<and> t = snd (doing (Framed (ro_handle job)) s4)"
    by (auto simp: collecting_def andThen_apply doing_def split: prod.splits sum.splits)
  then obtain s4 where s4: "capture w record job True s3 = (Inr harvested, s4)"
    and t: "t = snd (doing (Framed (ro_handle job)) s4)" by blast
  have "record_grows s s3"
    using alongD [OF recording.along_verbs(3) steps(1)] alongD [OF recording.along_pull steps(2)]
      alongD [OF recording.along_verbs(3) steps(3)] recording.R_trans by blast
  moreover have "record_grows s4 t" unfolding t by (rule alongD [OF recording.along_effects(5) surjective_pairing])
  ultimately show ?thesis using log_kept_grows capture_reads [OF assms(1) s4] by blast
qed

text \<open>The receipts of a stream as a pass sees them, and whether they say a run's evidence was copied.\<close>

definition stream_index :: "string \<Rightarrow> 's center_scheme \<Rightarrow> index" where
  "stream_index name s =
     (case map_of (c_streams s) name of None \<Rightarrow> receipts_index (replay name s) | Some index \<Rightarrow> index)"

definition filed_copied :: "run_record \<Rightarrow> 's center_scheme \<Rightarrow> bool" where
  "filed_copied record s =
     (let (name, key) = streamed (run_name record) (run_handle record) in
      case receipts_get (stream_index name s) T_EVIDENCE key (Some (identity_data record)) of
        None \<Rightarrow> False
      | Some e \<Rightarrow> map_of (ev_data e) ''status'' \<in> Some ` JStr ` set COPIED)"

lemma stream_apply: "fst (stream name s) = Inr (stream_index name s)"
  by (simp add: stream_def stream_index_def andThen_apply split: option.split)

lemma filed_copied_frame:
  "c_streams t = c_streams s \<Longrightarrow> st_events t = st_events s \<Longrightarrow> filed_copied record t = filed_copied record s"
  by (simp add: filed_copied_def stream_index_def replay_def cong: option.case_cong)

lemma phase_lock_frame [simp]:
  "fst (phase_lock w ph dl s) = Inr ()"
  "c_streams (snd (phase_lock w ph dl s)) = c_streams s"
  "st_events (snd (phase_lock w ph dl s)) = st_events s"
  "runs_log (snd (phase_lock w ph dl s)) = runs_log s"
  by (simp_all add: phase_lock_def andThen_apply)

lemma andThen_ok: "fst (m s) = Inr x \<Longrightarrow> andThen m f s = f x (snd (m s))"
  by (auto simp: andThen_apply split: prod.split)

text \<open>Nothing is released, or the log was kept first.\<close>

definition kept_first :: "'w outside_scheme \<Rightarrow> run_record \<Rightarrow> handle \<Rightarrow> 's center_scheme \<Rightarrow> 's center_scheme \<Rightarrow> bool" where
  "kept_first w record h s t \<longleftrightarrow> no_release h s t \<or>
     (\<exists>m. no_release h s m \<and> record_grows m t \<and>
        log_kept w h (fst (streamed (run_name record) (run_handle record))) (run_handle record) s m)"

lemma kept_first_after:
  assumes "no_release h s s'" and "record_grows s s'" and "kept_first w record h s' t"
  shows "kept_first w record h s t"
  using assms log_kept_grows [OF assms(2) _ recording.R_refl] unfolding kept_first_def
  by (meson unreleased.R_trans)

lemma harvested_kept_first:
  fixes s :: "'s center_scheme"
  assumes "ro_log_source job" and "run_evidence current \<notin> set COPIED" and "\<not> filed_copied record s"
  shows "kept_first w record (ro_handle job) s (snd (harvested_run w record job state current s))"
proof -
  let ?h = "ro_handle job"
  obtain name key where sk: "streamed (run_name record) (run_handle record) = (name, key)" by fastforce
  let ?locked = "snd (phase_lock w (''reading the receipts of '' @ name) [] s)"
  let ?s = "snd (stream name ?locked)"
  have quiet: "no_release ?h s ?s" "record_grows s ?s"
    by (rule unreleased.R_trans recording.R_trans;
        rule alongD [OF unreleased.along_local(1) surjective_pairing]
          alongD [OF unreleased.along_stream(1) surjective_pairing]
          alongD [OF recording.along_local(1) surjective_pairing]
          alongD [OF recording.along_stream(1) surjective_pairing])+
  from assms(3) sk have "\<not> filed_copied record ?locked" using filed_copied_frame [of ?locked s "record"] by simp
  with sk have previous: "\<not> (case receipts_get (stream_index name ?locked) T_EVIDENCE key (Some (identity_data record)) of
      None \<Rightarrow> False | Some e \<Rightarrow> map_of (ev_data e) ''status'' \<in> Some ` JStr ` set COPIED)"
    by (simp add: filed_copied_def)
  let ?rest = "\<lambda>got. andThen (returning (owes_receipt record (co_transcript got) (js_verdict state))) (\<lambda>owed.
      trying_else settling_fault
        (trying is_unverifiable
           (andThen (verify w job (co_pulled got) (co_harvested got) owed) (\<lambda>_. ret []))
           (\<lambda>fault. ret (fault_text fault)))
        (\<lambda>fault. pending_settle w record (co_harvested got) fault)
        (\<lambda>why. concluded w record job state got why))"
  let ?step = "trying_else settling_fault (collecting w record job name)
      (\<lambda>fault. pending_settle w record [] fault) ?rest"
  have eq: "harvested_run w record job state current s = ?step ?s"
    using assms(2) previous
    by (simp only: harvested_run_def sk prod.case Let_def andThen_ok [OF phase_lock_frame(1)]
        andThen_ok [OF stream_apply] if_False simp_thms)
  obtain r m where coll: "collecting w record job name ?s = (r, m)" by fastforce
  then have calm: "no_release ?h ?s m" by (rule alongD [OF unreleased.along_collect(2)])
  have "kept_first w record ?h ?s (snd (?step ?s))"
  proof (cases r)
    case (Inl e)
    have "no_release ?h m (snd (pending_settle w record [] e m))"
      by (rule alongD [OF unreleased.along_pending surjective_pairing])
    with calm Inl coll show ?thesis
      by (auto simp: trying_else_apply kept_first_def intro: unreleased.R_trans)
  next
    case (Inr got)
    have "along record_grows (?rest got :: ('s center_scheme, outcome) comp)" by (intro steps recording.along_concluded)
    then have "record_grows m (snd (?rest got m))" by (simp add: along_def)
    moreover from coll Inr have "log_kept w ?h name (run_handle record) ?s m"
      using collecting_reads [OF assms(1)] sk by fastforce
    ultimately show ?thesis using calm Inr coll sk
      by (auto simp: trying_else_apply kept_first_def)
  qed
  then show ?thesis unfolding eq by (rule kept_first_after [OF quiet])
qed

lemma kept_first_split:
  assumes "kept_first w record h s t" and "Released h \<in> set (drop (length (c_trace s)) (c_trace t))"
  shows "\<exists>pre post n. c_trace t = c_trace s @ pre @ Released h # post \<and> Released h \<notin> set pre \<and>
    length (c_trace s) \<le> n \<and> n < length (c_trace s @ pre) \<and> c_trace t ! n = Read h \<and>
    (x_logs w n h = Inr [] \<or>
     transcript (fst (streamed (run_name record) (run_handle record))) (run_handle record) 0 t \<noteq> None)"
proof -
  from assms have "\<not> no_release h s t" by (auto simp: no_release_def)
  with assms(1) obtain m g where m: "c_trace m = c_trace s @ g" "Released h \<notin> set g" "record_grows m t"
    and kept: "log_kept w h (fst (streamed (run_name record) (run_handle record))) (run_handle record) s m"
    unfolding kept_first_def no_release_def by blast
  from m(3) obtain g2 where t: "c_trace t = c_trace m @ g2" by (auto simp: record_grows_def prefix_def)
  with assms(2) m have "Released h \<in> set g2" by simp
  then obtain ys zs where g2: "g2 = ys @ Released h # zs" "Released h \<notin> set ys"
    by (metis split_list_first)
  from kept obtain n where "length (c_trace s) \<le> n" "n < length (c_trace m)" "c_trace m ! n = Read h"
    "x_logs w n h = Inr [] \<or>
     transcript (fst (streamed (run_name record) (run_handle record))) (run_handle record) 0 m \<noteq> None"
    by (auto simp: log_kept_def)
  then show ?thesis using m t g2 transcript_stays [OF m(3)]
    by (intro exI [of _ "g @ ys"] exI [of _ zs] exI [of _ n]) (auto simp: nth_append)
qed

lemma resolve_evidence:
  assumes "at_identity s (identity run) = Some c"
  shows "\<exists>d. fst (resolve w run st code v s) = Inr d \<and> run_evidence d = run_evidence c"
  using assms by (simp add: resolve_def change_apply)

lemma andThen_ret_some_state: "snd (andThen m (\<lambda>x. ret (f x)) s) = snd (m s)"
  by (simp add: andThen_apply split: prod.split sum.split)

lemma settle_kept_first:
  fixes s :: "'s center_scheme"
  assumes "ro_log_source job" and at: "at_identity s (identity record) = Some c"
    and ev: "run_evidence c \<notin> {''copied'', ''verified'', ''not_started''}"
    and live: "js_state state \<noteq> Some ''cancelled'' \<or> run_evidence c \<noteq> ''unverified''"
    and fresh: "\<not> filed_copied record s"
  shows "kept_first w record (ro_handle job) s (snd (settle w record job state s))"
proof -
  let ?h = "ro_handle job"
  let ?locked = "snd (phase_lock w (''settling '' @ run_target record @ ''/'' @ run_handle record) [] s)"
  let ?resolve = "resolve w record (js_state state) (js_exit_code state) (js_verdict state)"
  let ?s = "snd (?resolve ?locked)"
  have quiet: "no_release ?h s ?s" "record_grows s ?s"
    by (rule unreleased.R_trans recording.R_trans;
        rule alongD [OF unreleased.along_local(1) surjective_pairing]
          alongD [OF unreleased.along_registry(2) surjective_pairing]
          alongD [OF recording.along_local(1) surjective_pairing]
          alongD [OF recording.along_registry(2) surjective_pairing])+
  have "at_identity ?locked (identity record) = Some c"
    using at at_identity_frame [of ?locked s] by simp
  then obtain d where d: "fst (?resolve ?locked) = Inr d" "run_evidence d = run_evidence c"
    using resolve_evidence by blast
  have kept: "kept_first w record ?h ?s (snd (harvested_run w record job state d ?s))"
    using assms d filed_copied_frame [of ?s s "record"]
    by (intro harvested_kept_first) (auto simp: COPIED_def resolve_def)
  let ?watch = "andThen (if js_stage state = word_text RUNNING
      then andThen (pull w job) (\<lambda>_. ret ()) else ret ()) (\<lambda>_. andThen (track w record state []) (\<lambda>_. ret (None :: outcome option)))"
  have "along (no_release ?h) (?watch :: ('s center_scheme, outcome option) comp)" by (intro steps)
  then have watched: "no_release ?h ?s (snd (?watch ?s))" by (rule alongD [OF _ surjective_pairing])
  have eq: "snd (settle w record job state s) =
      (if \<not> settled_text (js_verdict state) then snd (?watch ?s)
       else snd (harvested_run w record job state d ?s))"
    using ev live d
    by (auto simp only: settle_def andThen_ok [OF phase_lock_frame(1)] andThen_ok [of ?resolve, OF d(1)] Let_def
        word_text.simps if_False if_True simp_thms insert_iff andThen_ret_some_state split: if_split)
  show ?thesis unfolding eq
    by (rule kept_first_after [OF quiet]) (use kept watched in \<open>auto simp: kept_first_def\<close>)
qed

section \<open>Properties\<close>

text \<open>
  C4. A rental's log is kept before the rental goes. When a run on a provider that keeps logs
  settles, and neither its record nor its stream says its evidence was copied already, nor that it
  never started or was discarded by a cancel, then before the first release of its machine the log
  was read, in this very settle, and it was empty or a transcript of the run is kept here.
\<close>

theorem log_kept_before_release:
  assumes "ro_log_source job"
    and "at_identity s (identity record) = Some c"
    and "run_evidence c \<notin> {''copied'', ''verified'', ''not_started''}"
    and "js_state state \<noteq> Some ''cancelled'' \<or> run_evidence c \<noteq> ''unverified''"
    and "\<not> filed_copied record s"
    and "settle w record job state s = (r, t)"
    and "Released (ro_handle job) \<in> set (drop (length (c_trace s)) (c_trace t))"
  shows "\<exists>pre post n. c_trace t = c_trace s @ pre @ Released (ro_handle job) # post \<and>
    Released (ro_handle job) \<notin> set pre \<and>
    length (c_trace s) \<le> n \<and> n < length (c_trace s @ pre) \<and> c_trace t ! n = Read (ro_handle job) \<and>
    (x_logs w n (ro_handle job) = Inr [] \<or>
     transcript (fst (streamed (run_name record) (run_handle record))) (run_handle record) 0 t \<noteq> None)"
proof -
  from assms(6) have t: "snd (settle w record job state s) = t" by simp
  have "kept_first w record (ro_handle job) s t"
    using settle_kept_first [OF assms(1-5), of w] unfolding t .
  with assms(7) show ?thesis by (intro kept_first_split)
qed

definition sample_ok :: job_state where
  "sample_ok = \<lparr>js_handle = ''7'', js_label = None, js_state = None, js_exit_code = Some 0,
     js_verdict = ''ok'', js_stage = [], js_since = [], js_estimated_start = [], js_note = []\<rparr>"

theorem log_kept_before_release_witness:
  "\<exists>pre post. c_trace (snd (settle sample_outside sample_run sample_job sample_ok (sample_center RUNNING))) =
      pre @ Released (ro_handle sample_job) # post \<and> Read (ro_handle sample_job) \<in> set pre"
proof -
  let ?s = "sample_center RUNNING" and ?h = "ro_handle sample_job"
  let ?t = "snd (settle sample_outside sample_run sample_job sample_ok ?s)"
  have released: "Released ?h \<in> set (drop (length (c_trace ?s)) (c_trace ?t))" by code_simp
  have fresh: "\<not> filed_copied sample_run ?s" by code_simp
  have start: "at_identity ?s (identity sample_run) = Some (sample_run\<lparr>run_verdict := Some (word_text RUNNING)\<rparr>)"
    by (simp only: sample_identity sample_center_at)
  have logs: "ro_log_source sample_job" by (simp add: sample_job_def)
  have ev: "run_evidence (sample_run\<lparr>run_verdict := Some (word_text RUNNING)\<rparr>) = []"
    by (simp add: sample_run_def)
  from log_kept_before_release [OF logs start _ _ fresh surjective_pairing released] ev
  obtain pre post n where "c_trace ?t = c_trace ?s @ pre @ Released ?h # post"
    "n < length (c_trace ?s @ pre)" "c_trace ?t ! n = Read ?h" by auto
  moreover have "c_trace ?s = []" by (simp add: sample_center_def)
  ultimately show ?thesis by (metis append_Nil nth_append nth_mem)
qed

section \<open>A run whose machine stays is still owed\<close>

definition cancel_fails :: "'w outside_scheme \<Rightarrow> run_obj \<Rightarrow> bool" where
  "cancel_fails w job \<longleftrightarrow> (\<forall>n. \<exists>e. x_cancel w n (hd_kind (ro_handle job)) (hd_id (ro_handle job)) = Some e \<and>
     (is_mission e \<or> is_os e))"

lemma release_fails:
  assumes "ro_provider job" and "cancel_fails w job" and "release w job s = (Inr x, t)"
  shows "\<not> x"
proof -
  from assms(2) obtain e where
    "x_cancel w (moment s) (hd_kind (ro_handle job)) (hd_id (ro_handle job)) = Some e" "is_mission e \<or> is_os e"
    unfolding cancel_fails_def by blast
  with assms(1,3) show ?thesis
    by (auto simp: release_def job_release_def trying_else_apply andThen_apply doing_def)
qed

lemma cursors_concluded:
  assumes "ro_provider job" and "cancel_fails w job"
  shows "along same_cursors (concluded w record job state got why :: ('s center_scheme, outcome) comp)"
  unfolding concluded_def Let_def
  by (rule pass_cursors.along_andThen [OF pass_cursors.along_evidence],
      rule pass_cursors.along_andThen_when [OF pass_cursors.along_release])
    (auto dest: release_fails [OF assms] intro!: steps)

lemma cursors_unlaunched:
  assumes "ro_provider job" and "cancel_fails w job"
  shows "along same_cursors (unlaunched w record job state discarded :: ('s center_scheme, outcome) comp)"
  unfolding unlaunched_def Let_def
  by (rule pass_cursors.along_andThen_when [OF pass_cursors.along_release])
    (auto dest: release_fails [OF assms] intro!: steps)

lemma cursors_harvested:
  assumes "ro_provider job" and "cancel_fails w job"
  shows "along same_cursors (harvested_run w record job state current :: ('s center_scheme, outcome) comp)"
  unfolding harvested_run_def Let_def by (intro steps cursors_concluded [OF assms])

lemma cursors_settle:
  assumes "ro_provider job" and "cancel_fails w job"
  shows "along same_cursors (settle w record job state :: ('s center_scheme, outcome option) comp)"
  unfolding settle_def Let_def
  by (intro steps pass_cursors.resolving cursors_unlaunched [OF assms] cursors_harvested [OF assms])

text \<open>
  C5. A machine that could not be released is still owed: while a provider refuses to let a rental
  go, settling its run moves no run's reported cursor, whatever the verdict, the evidence and the
  other answers are, so that the run stays tracked and the next pass asks for the release again.
\<close>

theorem unreleased_stays_tracked:
  assumes "keyed s" and "ro_provider job" and "cancel_fails w job"
    and "settle w record job state s = (r, t)"
  shows "keyed t \<and> (\<forall>k. map_option run_reported (at_identity t k) = map_option run_reported (at_identity s k))"
  using alongD [OF cursors_settle [OF assms(2,3)] assms(4)] assms(1) by (simp add: same_view_def)

theorem unreleased_stays_tracked_witness:
  "map_option run_reported (at_identity
      (snd (settle (sample_outside\<lparr>x_cancel := \<lambda>_ _ _. Some (MissionError ''busy'')\<rparr>) sample_run sample_job sample_ok
         (sample_center RUNNING))) (''gold'', ''7'', ''2026-10-01'')) = Some None"
proof -
  have "cancel_fails (sample_outside\<lparr>x_cancel := \<lambda>_ _ _. Some (MissionError ''busy'')\<rparr>) sample_job"
    by (simp add: cancel_fails_def)
  from unreleased_stays_tracked [OF sample_center_keyed _ this surjective_pairing, of sample_run sample_ok RUNNING]
  show ?thesis by (simp add: sample_job_def) (simp add: sample_run_def)
qed

end
