(* ===== verification/Deadline_Properties.thy ===== *)
theory Deadline_Properties
  imports Settle_Order
begin

text \<open>
  What becomes of a rental at its deadline and of a held dispatch: the rental is released and closed
  under the verdict it earned or as a timeout, or it stays tracked; the placeholder of a held
  dispatch goes only once the dispatch went through, and settles only on a refusal that is not the
  quota; and the lines a run's stream gains do not repeat.
\<close>

section \<open>Evidence and the registry\<close>

lemma stream_frame:
  "c_trace (snd (stream name s)) = c_trace s" "runs_log (snd (stream name s)) = runs_log s"
  "lk_ticks (snd (stream name s)) = lk_ticks s"
  by (simp_all add: stream_def andThen_apply split: option.split)

lemma stream_publish_frame:
  "c_trace (snd (stream_publish w name topic job data s)) = c_trace s"
  "runs_log (snd (stream_publish w name topic job data s)) = runs_log s"
  "fst (stream_publish w name topic job data s) =
     (case x_bus_fault w (lk_ticks s) of None \<Rightarrow> Inr () | Some e \<Rightarrow> Inl e)"
  by (simp_all add: stream_publish_def andThen_ok [OF stream_apply] andThen_apply receipts_publish_def
      publish_apply journal_publish_def Let_def stream_frame split: option.split)

text \<open>The bus fails only as a file does.\<close>

definition bus_is_os :: "'w outside_scheme \<Rightarrow> bool" where
  "bus_is_os w \<longleftrightarrow> (\<forall>n e. x_bus_fault w n = Some e \<longrightarrow> is_os e)"

lemma publish_or_skip:
  fixes s :: "'s center_scheme"
  assumes t_def: "t = (\<lambda>index. if f index then trying is_os (stream_publish w name topic job data) (\<lambda>_. ret ())
      else ret ())"
  shows "runs_log (snd (andThen (stream name) t s)) = runs_log s"
    and "c_trace (snd (andThen (stream name) t s)) = c_trace s"
    and "bus_is_os w \<Longrightarrow> fst (andThen (stream name) t s) = Inr ()"
proof -
  let ?i = "stream_index name s" and ?s = "snd (stream name s)"
  obtain r u where ru: "stream_publish w name topic job data ?s = (r, u)" by fastforce
  with stream_publish_frame [of w name topic job data ?s] have
    "c_trace u = c_trace s" "runs_log u = runs_log s" and r: "r = (case x_bus_fault w (lk_ticks s) of None \<Rightarrow> Inr () | Some e \<Rightarrow> Inl e)"
    by (simp_all add: stream_frame)
  then show "runs_log (snd (andThen (stream name) t s)) = runs_log s"
    "c_trace (snd (andThen (stream name) t s)) = c_trace s"
    by (simp_all add: t_def andThen_ok [OF stream_apply] trying_apply ru stream_frame split: sum.split)
  show "fst (andThen (stream name) t s) = Inr ()" if "bus_is_os w"
    using that r by (auto simp: t_def andThen_ok [OF stream_apply] trying_apply ru bus_is_os_def split: sum.split option.splits)
qed

lemma evidence_registry:
  assumes "at_identity s (identity run) = Some c" and "identity c = identity run"
  shows "at_identity (snd (evidence w run hs status detail s)) =
      (at_identity s)(identity run \<mapsto> c\<lparr>run_evidence := status\<rparr>)"
    and "keyed s \<Longrightarrow> keyed (snd (evidence w run hs status detail s))"
    and "c_trace (snd (evidence w run hs status detail s)) = c_trace s"
    and "bus_is_os w \<Longrightarrow> fst (evidence w run hs status detail s) = Inr ()"
proof -
  obtain name key where sk: "streamed (run_name run) (run_handle run) = (name, key)" by fastforce
  let ?u = "snd (delivery w run status s)"
  have d: "fst (delivery w run status s) = Inr (c\<lparr>run_evidence := status\<rparr>)"
    and u: "?u = logged w (c\<lparr>run_evidence := status\<rparr>) False s"
    using assms by (simp_all add: delivery_def change_apply)
  let ?t = "snd (evidence w run hs status detail s)"
  note published = publish_or_skip [OF refl, where w = w and name = name and job = key and s = ?u]
  have frame: "runs_log ?t = runs_log ?u" "c_trace ?t = c_trace ?u"
    "bus_is_os w \<Longrightarrow> fst (evidence w run hs status detail s) = Inr ()"
    by (simp_all only: evidence_def andThen_ok [of "delivery w run status", OF d] sk Let_def prod.case published)
  then show "c_trace ?t = c_trace s" "bus_is_os w \<Longrightarrow> fst (evidence w run hs status detail s) = Inr ()"
    by (simp_all add: u)
  show "at_identity ?t = (at_identity s)(identity run \<mapsto> c\<lparr>run_evidence := status\<rparr>)"
    using at_identity_frame [OF frame(1)] assms(2) by (simp add: u)
  show "keyed ?t" if "keyed s" using keyed_frame [OF frame(1)] that by (simp add: u)
qed

section \<open>Rentals at their deadline\<close>

lemma report_apply:
  assumes "at_identity s (identity run) = Some c"
  shows "report w run v s = (Inr (), logged w (c\<lparr>run_reported := Some v\<rparr>) False s)"
  using assms by (simp add: report_def andThen_apply change_apply)

text \<open>What \<open>resolve\<close> leaves of a record at its deadline: a timeout, unless its verdict is final.\<close>

definition timed_out :: "'w outside_scheme \<Rightarrow> run_record \<Rightarrow> run_record" where
  "timed_out w c =
     (if reaches w (run_verdict c) ''timeout''
      then c\<lparr>run_state := Some ''timeout'', run_exit_code := None, run_verdict := Some ''timeout''\<rparr> else c)"

lemma timed_out_simps [simp]:
  "identity (timed_out w c) = identity c" "run_evidence (timed_out w c) = run_evidence c"
  by (simp_all add: timed_out_def identity_def)

lemma resolve_timeout:
  assumes "at_identity s (identity run) = Some c" and "identity c = identity run"
  obtains t where "resolve w run (Some (word_text TIMEOUT)) None (word_text TIMEOUT) s = (Inr (timed_out w c), t)"
    and "at_identity t = (at_identity s)(identity run \<mapsto> timed_out w c)" and "keyed s \<Longrightarrow> keyed t"
    and "c_trace t = c_trace s"
  using assms by (cases "reaches w (run_verdict c) ''timeout''")
    (fastforce simp: resolve_def change_apply timed_out_def identity_def)+

lemma timed_out_verdict:
  assumes "run_verdict c \<noteq> Some []"
  obtains v where "run_verdict (timed_out w c) = Some v" and "v \<noteq> []"
proof (cases "reaches w (run_verdict c) ''timeout''")
  case True
  then show ?thesis by (intro that [of "''timeout''"]) (simp_all add: timed_out_def)
next
  case False
  then obtain v where "run_verdict c = Some v" by (cases "run_verdict c") (auto simp: reaches_def)
  with False assms show ?thesis by (intro that [of v]) (simp_all add: timed_out_def)
qed

lemma closed_apply:
  assumes "at_identity s (identity run) = Some c" and "identity c = identity run" and "bus_is_os w"
    and "run_verdict c \<noteq> Some []"
  obtains t where "closed w run copied detail s = (Inr (), t)" and "c_trace t = c_trace s"
    and "at_identity t = (at_identity s)(identity run \<mapsto> (timed_out w c)
      \<lparr>run_evidence := (if copied then ''verified'' else ''unverified''),
       run_reported := run_verdict (timed_out w c)\<rparr>)"
proof -
  let ?now = "timed_out w c" and ?status = "if copied then ''verified'' else ''unverified''"
  obtain v where v: "run_verdict ?now = Some v" "v \<noteq> []" using assms(4) by (rule timed_out_verdict)
  obtain s1 where res: "resolve w run (Some (word_text TIMEOUT)) None (word_text TIMEOUT) s = (Inr ?now, s1)"
    and s1: "at_identity s1 = (at_identity s)(identity run \<mapsto> ?now)" "c_trace s1 = c_trace s"
    using resolve_timeout [OF assms(1,2)] by metis
  obtain r s2 where evi: "evidence w ?now [] ?status detail s1 = (r, s2)" by fastforce
  have "at_identity s1 (identity ?now) = Some ?now" by (simp add: s1 assms(2))
  from evidence_registry [OF this refl, of w "[]" ?status detail] evi assms(3)
  have s2: "r = Inr ()" "c_trace s2 = c_trace s1"
    "at_identity s2 = (at_identity s1)(identity run \<mapsto> ?now\<lparr>run_evidence := ?status\<rparr>)"
    by (simp_all add: assms(2))
  let ?t = "logged w (?now\<lparr>run_evidence := ?status, run_reported := Some v\<rparr>) False s2"
  have "report w ?now v s2 = (Inr (), ?t)" using report_apply [of s2 ?now _ w v] by (simp add: s2 assms(2))
  with res evi s2(1) v have "closed w run copied detail s = (Inr (), ?t)"
    by (simp only: closed_def andThen_apply prod.case sum.case option.case if_False)
  moreover have "identity (?now\<lparr>run_evidence := ?status, run_reported := Some v\<rparr>) = identity run"
    using timed_out_simps(1) [of w c] assms(2) by (simp add: identity_def)
  ultimately show ?thesis using s1 s2 v by (intro that [of ?t]) (simp_all split: if_splits)
qed

text \<open>
  C22. A rental due for release is let go of or stays owed, and never changes its earned verdict.
  When the provider refuses, the run's evidence is marked and nothing else of the registry changes,
  its cursor in particular, so that it is asked again. When the provider lets go, the run is closed
  in the same step: its evidence is final, its verdict is the settled one it had, or a timeout, and
  its cursor is moved to that verdict. No other run's record changes, and the only effect on the
  provider is the one cancel.
\<close>

theorem deadline_releases_or_retries:
  assumes "lifecycle_law w" and "keyed s" and "at_identity s (identity current) = Some current"
    and "run_verdict current \<noteq> Some []" and "bus_is_os w"
    and "released w record current backend s = (r, t)"
    and "x_cancel w (moment s) backend (run_handle record) = answer"
    and "\<And>e. answer = Some e \<Longrightarrow> settling_fault e"
  shows "(\<forall>k. k \<noteq> identity current \<longrightarrow> at_identity t k = at_identity s k) \<and>
    (case answer of
       Some e \<Rightarrow> (\<exists>why. r = Inr why) \<and> c_trace t = c_trace s @ [Uncancelled backend (run_handle record)] \<and>
         at_identity t (identity current) = Some (current\<lparr>run_evidence :=
           (if run_evidence current \<in> {''copied'', ''verified''} then ''copied'' else ''unverified'')\<rparr>)
     | None \<Rightarrow> r = Inr ''rental release deadline reached'' \<and>
         c_trace t = c_trace s @ [Cancelled backend (run_handle record)] \<and>
         (\<exists>d. at_identity t (identity current) = Some d \<and> run_reported d = run_verdict d \<and>
            run_evidence d = (if run_evidence current \<in> {''copied'', ''verified''} then ''verified'' else ''unverified'') \<and>
            run_verdict d = (if settled_opt (run_verdict current) \<or> \<not> reaches w (run_verdict current) ''timeout''
                             then run_verdict current else Some ''timeout'')))"
proof -
  define copied where "copied = (run_evidence current \<in> set COPIED)"
  let ?detail = "''rental release deadline reached''" and ?status = "if copied then ''copied'' else ''unverified''"
  let ?c = "current\<lparr>run_evidence := ?status\<rparr>" and ?h = "run_handle record"
  obtain s1 where evi: "evidence w current [] ?status ?detail s = (Inr (), s1)"
    using evidence_registry(4) [OF assms(3) refl assms(5), of "[]" ?status ?detail] by (metis prod.collapse)
  from evidence_registry [OF assms(3) refl, of w "[]" ?status ?detail] evi assms(2)
  have s1: "at_identity s1 = (at_identity s)(identity current \<mapsto> ?c)" "keyed s1" "c_trace s1 = c_trace s"
    by simp_all
  have ident: "identity ?c = identity current" by (simp add: identity_def)
  have final: "run_verdict (timed_out w ?c) =
      (if settled_opt (run_verdict current) \<or> \<not> reaches w (run_verdict current) ''timeout''
       then run_verdict current else Some ''timeout'')"
    using reaches_settled [OF assms(1), of "run_verdict current" "''timeout''"] by (auto simp: timed_out_def)
  show ?thesis
  proof (cases answer)
    case (Some e)
    let ?why = "?detail @ ''; release failed and will be retried: '' @ fault_text e"
    have "released w record current backend s =
        (Inr ?why, s1\<lparr>c_trace := c_trace s1 @ [Uncancelled backend ?h]\<rparr>)"
      using evi assms(7,8) Some s1(3)
      by (simp only: released_def Let_def copied_def [symmetric] trying_apply andThen_apply prod.case sum.case
          trying_else_apply backend_cancel_def reading_apply ret_apply doing_def changing_apply raising_apply
          moment_def option.case if_True)
    with assms(6) have rt: "r = Inr ?why" "t = s1\<lparr>c_trace := c_trace s1 @ [Uncancelled backend ?h]\<rparr>" by simp_all
    have "at_identity t = at_identity s1" unfolding rt by (rule at_identity_frame) simp
    then show ?thesis using Some rt s1 by (simp add: copied_def COPIED_def)
  next
    case None
    let ?u = "s1\<lparr>c_trace := c_trace s1 @ [Cancelled backend ?h]\<rparr>"
    have u: "at_identity ?u = at_identity s1" by (rule at_identity_frame) simp
    have verdict: "run_verdict ?c \<noteq> Some []" using assms(4) by simp
    have "at_identity ?u (identity current) = Some ?c" unfolding u by (simp add: s1)
    then obtain v where v: "closed w current copied ?detail ?u = (Inr (), v)" "c_trace v = c_trace ?u"
      "at_identity v = (at_identity ?u)(identity current \<mapsto> (timed_out w ?c)
        \<lparr>run_evidence := (if copied then ''verified'' else ''unverified''),
         run_reported := run_verdict (timed_out w ?c)\<rparr>)"
      by (rule closed_apply [OF _ ident assms(5) verdict, where copied = copied and detail = ?detail])
    have "released w record current backend s = (Inr ?detail, v)"
      using evi assms(7) None s1(3) v(1)
      by (simp only: released_def Let_def copied_def [symmetric] trying_apply andThen_apply prod.case sum.case
          trying_else_apply backend_cancel_def reading_apply ret_apply doing_def changing_apply raising_apply
          moment_def option.case if_True)
    with assms(6) have "r = Inr ?detail" "t = v" by simp_all
    with None v u s1 final show ?thesis by (simp add: copied_def COPIED_def)
  qed
qed

text \<open>A rental let go of at its deadline, whose run had ended well before.\<close>

theorem deadline_releases_or_retries_witness:
  "c_trace (snd (released sample_outside sample_run (sample_run\<lparr>run_verdict := Some ''ok''\<rparr>) ''vast'' (sample_center OK))) =
     [Cancelled ''vast'' ''7''] \<and>
   (\<exists>d. at_identity (snd (released sample_outside sample_run (sample_run\<lparr>run_verdict := Some ''ok''\<rparr>) ''vast'' (sample_center OK)))
      (''gold'', ''7'', ''2026-10-01'') = Some d \<and> run_verdict d = Some ''ok'' \<and> run_reported d = Some ''ok'')"
proof -
  let ?c = "sample_run\<lparr>run_verdict := Some ''ok''\<rparr>" and ?s = "sample_center OK"
  have start: "at_identity ?s (identity ?c) = Some ?c"
    using sample_center_at [of OK] by (simp add: sample_identity)
  have bus: "bus_is_os sample_outside" by (simp add: bus_is_os_def sample_outside_def)
  have verdict: "run_verdict ?c \<noteq> Some []" and settled: "settled_opt (run_verdict ?c)"
    using settled_text_word [of OK] by simp_all
  have answer: "x_cancel sample_outside (moment ?s) ''vast'' (run_handle sample_run) = None"
    by (simp add: sample_outside_def)
  note facts = deadline_releases_or_retries [OF sample_outside_law sample_center_keyed start verdict bus
      surjective_pairing answer]
  have "run_handle sample_run = ''7''" "c_trace ?s = []" "identity ?c = (''gold'', ''7'', ''2026-10-01'')"
    by (simp_all add: sample_run_def sample_center_def identity_def)
  with facts settled show ?thesis by auto
qed

end
