(* ===== verification/Verdict_Properties.thy ===== *)
theory Verdict_Properties
  imports Verdicts
begin

text \<open>
  What the rows of a stream promise a completion check: the exit code is zero only when every row is
  clean, every job has one row, which follows the newest answer about it, a settlement of an
  earlier submission never settles a later one, and a row is withheld while its evidence is.
\<close>

section \<open>Lemmas\<close>

lemma map_of_dict_of: "map_of (dict_of key val xs) = map_of (rev (map (\<lambda>x. (key x, val x)) xs))"
proof (induction xs rule: rev_induct)
  case (snoc x xs)
  then show ?case by (simp add: dict_of_def update_conv)
qed (simp add: dict_of_def)

lemma distinct_dict_of: "distinct (map fst (dict_of key val xs))"
  by (induction xs rule: rev_induct) (simp_all add: dict_of_def distinct_update)

lemma dict_of_source:
  assumes "map_of (dict_of key val xs) k = Some v"
  obtains x where "x \<in> set xs" and "key x = k" and "val x = v"
  using assms by (auto simp: map_of_dict_of dest!: map_of_SomeD)

lemma dict_of_dom: "map_of (dict_of key val xs) k = None \<longleftrightarrow> (\<forall>x \<in> set xs. key x \<noteq> k)"
  by (force simp: map_of_dict_of map_of_eq_None_iff)

text \<open>The item a sorted comprehension keeps for a key is one of the newest of that key.\<close>

lemma dict_of_last:
  assumes "sorted (map rank xs)" and "map_of (dict_of key id xs) k = Some v" and "x \<in> set xs" and "key x = k"
  shows "rank x \<le> rank v"
  using assms
proof (induction xs arbitrary: v rule: rev_induct)
  case (snoc y ys)
  show ?case
  proof (cases "key y = k")
    case True
    with snoc.prems have "v = y" by (simp add: map_of_dict_of)
    with snoc.prems show ?thesis by (auto simp: sorted_append)
  next
    case False
    with snoc show ?thesis by (auto simp: map_of_dict_of sorted_append)
  qed
qed simp

lemma joined_job [simp]: "tv_job (joined job a st en att) = job"
  by (simp add: joined_def Let_def blank_trial_def split: option.split)

lemma unselected_job [simp]: "tv_job (unselected job e) = job"
  by (simp add: unselected_def blank_trial_def)






lemma trial_code_cases:
  "trial_code t = 0 \<longleftrightarrow> tv_verdict t \<in> {''ok'', ''passed'', ''skipped''}"
  "trial_code t = 1 \<longleftrightarrow> tv_verdict t \<in> {''failed'', ''refused'', ''timeout'', ''cancelled''}"
  "trial_code t = 2 \<longleftrightarrow> tv_verdict t \<in> {''running'', ''held'', ''blocked'', [], ''queued'', ''prepared'', ''submitting''}"
  "trial_code t \<le> 3"
  by (auto simp: trial_code_def EXITS_def)


section \<open>Properties\<close>

text \<open>
  A completion check never fabricates success. The exit code of a stream is 0 exactly when it
  has rows, no wait stalled on it, and every row reads ok, passed or skipped; it is 1 exactly when
  some row failed, was refused, timed out or was cancelled, whatever else is in flight; it is 4, a
  stall, only in the absence of a failure, 2 only when nothing failed or stalled and some row is
  still in flight; and it is one of 0 to 4.
\<close>

theorem completion_code:
  "(stream_code v = 0 \<longleftrightarrow> sv_trials v \<noteq> [] \<and> sv_stalled v = [] \<and>
      list_all (\<lambda>t. tv_verdict t \<in> {''ok'', ''passed'', ''skipped''}) (sv_trials v)) \<and>
   (stream_code v = 1 \<longleftrightarrow>
      list_ex (\<lambda>t. tv_verdict t \<in> {''failed'', ''refused'', ''timeout'', ''cancelled''}) (sv_trials v)) \<and>
   (stream_code v = 4 \<longleftrightarrow> stream_code v \<noteq> 1 \<and> sv_stalled v \<noteq> []) \<and>
   (stream_code v = 2 \<longleftrightarrow> stream_code v \<noteq> 1 \<and> sv_stalled v = [] \<and>
      list_ex (\<lambda>t. tv_verdict t \<in> {''running'', ''held'', ''blocked'', [], ''queued'', ''prepared'', ''submitting''})
        (sv_trials v)) \<and>
   stream_code v \<le> 4"
proof -
  let ?ts = "sv_trials v"
  have four: "n = 0 \<or> n = 1 \<or> n = 2 \<or> n = 3" if "n \<in> trial_code ` set ?ts" for n
  proof -
    from that have "n \<le> 3" using trial_code_cases(4) by auto
    then show ?thesis by presburger
  qed
  have all0: "list_all (\<lambda>t. tv_verdict t \<in> {''ok'', ''passed'', ''skipped''}) ?ts \<longleftrightarrow>
      trial_code ` set ?ts \<subseteq> {0}"
    by (simp only: list_all_iff trial_code_cases(1) [symmetric]) auto
  have ex1: "list_ex (\<lambda>t. tv_verdict t \<in> {''failed'', ''refused'', ''timeout'', ''cancelled''}) ?ts \<longleftrightarrow>
      1 \<in> trial_code ` set ?ts"
    by (simp only: list_ex_iff trial_code_cases(2) [symmetric]) (force intro: rev_image_eqI)
  have ex2: "list_ex (\<lambda>t. tv_verdict t \<in> {''running'', ''held'', ''blocked'', [], ''queued'', ''prepared'', ''submitting''}) ?ts \<longleftrightarrow>
      2 \<in> trial_code ` set ?ts"
    by (simp only: list_ex_iff trial_code_cases(3) [symmetric]) (force intro: rev_image_eqI)
  have clean: "trial_code ` set ?ts \<subseteq> {0} \<longleftrightarrow> 1 \<notin> trial_code ` set ?ts \<and> 2 \<notin> trial_code ` set ?ts \<and> 3 \<notin> trial_code ` set ?ts"
    (is "_ \<longleftrightarrow> ?none")
  proof
    assume none: ?none
    show "trial_code ` set ?ts \<subseteq> {0}"
    proof
      fix n
      assume "n \<in> trial_code ` set ?ts"
      with four [OF this] none show "n \<in> {0}" by blast
    qed
  qed (auto dest: subsetD)
  show ?thesis
    unfolding all0 ex1 ex2 clean stream_code_def Let_def STALLED_def IN_FLIGHT_def set_map map_is_Nil_conv
    by (cases "1 \<in> trial_code ` set ?ts"; cases "sv_stalled v = []"; cases "2 \<in> trial_code ` set ?ts";
        cases "3 \<in> trial_code ` set ?ts"; cases "?ts = []") (simp_all only: simp_thms if_True if_False; simp)+
qed





lemma qualified_status:
  assumes "e \<in> set events" and "ev_topic e = T_EVIDENCE"
    and "text_field (ev_data e) ''handle'' = tv_handle t" and "text_field (ev_data e) ''target'' = tv_target t"
    and newest: "\<And>x. x \<in> set events \<Longrightarrow> ev_topic x = T_EVIDENCE \<Longrightarrow>
      text_field (ev_data x) ''handle'' = tv_handle t \<Longrightarrow> text_field (ev_data x) ''target'' = tv_target t \<Longrightarrow>
      text_field (ev_data x) ''submitted_at'' = text_field (ev_data e) ''submitted_at'' \<and> (x = e \<or> ev_at x < ev_at e)"
  shows "map_of (dict_of (\<lambda>e. (text_field (ev_data e) ''target'', text_field (ev_data e) ''handle'')) id
      (map snd (statuses events))) (tv_target t, tv_handle t) = Some e"
proof -
  let ?key = "\<lambda>e. (text_field (ev_data e) ''handle'', text_field (ev_data e) ''target'',
      text_field (ev_data e) ''submitted_at'')"
  let ?lines = "filter (\<lambda>e. ev_topic e = T_EVIDENCE) (sort_key ev_at events)"
  have kept: "x = e" if "(?key e, x) \<in> set (statuses events)" for x
  proof -
    from that have x: "map_of (dict_of ?key id ?lines) (?key e) = Some x"
      by (simp add: statuses_def distinct_dict_of)
    then have "x \<in> set events" "ev_topic x = T_EVIDENCE" "?key x = ?key e" by (auto elim: dict_of_source)
    moreover have "sorted (map ev_at ?lines)" by (simp add: sorted_filter)
    from dict_of_last [OF this x, of e] assms(1,2) have "ev_at e \<le> ev_at x" by simp
    ultimately show ?thesis using newest [of x] assms(3,4) by auto
  qed
  have only: "x = e" if x: "x \<in> set (map snd (statuses events))"
    and k: "text_field (ev_data x) ''handle'' = tv_handle t" "text_field (ev_data x) ''target'' = tv_target t" for x
  proof -
    from x obtain k where "map_of (dict_of ?key id ?lines) k = Some x" by (auto simp: statuses_def distinct_dict_of)
    then have "x \<in> set events" "ev_topic x = T_EVIDENCE" "k = ?key x" by (auto elim: dict_of_source)
    then show ?thesis
      using kept [of x] newest [of x] assms(3,4) x k \<open>map_of _ k = Some x\<close>
      by (auto simp: statuses_def dest: map_of_SomeD)
  qed
  have "map_of (dict_of ?key id ?lines) (?key e) \<noteq> None"
    using assms(1,2) by (auto simp: dict_of_dom)
  then have "e \<in> set (map snd (statuses events))"
    using kept by (force simp: statuses_def dest: map_of_SomeD)
  then have "map_of (dict_of (\<lambda>e. (text_field (ev_data e) ''target'', text_field (ev_data e) ''handle'')) id
      (map snd (statuses events))) (tv_target t, tv_handle t) \<noteq> None" (is "?found \<noteq> None")
    using assms(3,4) unfolding dict_of_dom by blast
  then obtain x where x: "?found = Some x" by auto
  with only show ?thesis by (auto elim!: dict_of_source)
qed

text \<open>
  C11. A row is withheld while its evidence is. When \<open>e\<close> is the newest delivery line about a row's
  handle and target, and they name one submission, then the row stands as it was read if \<open>e\<close> says
  verified or not started; otherwise it reads unverified or blocked, its code is 3 or 2, and no
  stream that has it answers 0.
\<close>

theorem evidence_withholds_row:
  assumes "i < length trials" and "e \<in> set events" and "ev_topic e = T_EVIDENCE"
    and "text_field (ev_data e) ''handle'' = tv_handle (trials ! i)"
    and "text_field (ev_data e) ''target'' = tv_target (trials ! i)"
    and "\<And>x. x \<in> set events \<Longrightarrow> ev_topic x = T_EVIDENCE \<Longrightarrow>
      text_field (ev_data x) ''handle'' = tv_handle (trials ! i) \<Longrightarrow>
      text_field (ev_data x) ''target'' = tv_target (trials ! i) \<Longrightarrow>
      text_field (ev_data x) ''submitted_at'' = text_field (ev_data e) ''submitted_at'' \<and> (x = e \<or> ev_at x < ev_at e)"
  shows "if map_of (ev_data e) ''status'' \<in> {Some (JStr ''verified''), Some (JStr ''not_started'')}
    then qualified_rows trials events ! i = trials ! i
    else tv_verdict (qualified_rows trials events ! i) \<in> {''unverified'', ''blocked''} \<and>
      trial_code (qualified_rows trials events ! i) \<in> {2, 3} \<and>
      (\<forall>v. sv_trials v = qualified_rows trials events \<longrightarrow> stream_code v \<noteq> 0)"
proof -
  let ?row = "qualified_rows trials events ! i"
  have row: "?row = corrected (trials ! i) (Some e)"
    by (simp only: qualified_rows_def Let_def nth_map [OF assms(1)] qualified_status [OF assms(2-6)] first_some.simps)
  have "stream_code v \<noteq> 0" if "sv_trials v = qualified_rows trials events" "trial_code ?row \<in> {2, 3}" for v
  proof -
    have "?row \<in> set (sv_trials v)" using that(1) assms(1) by (simp add: qualified_rows_def Let_def)
    with that(2) show ?thesis
      by (auto simp: stream_code_def Let_def STALLED_def IN_FLIGHT_def image_iff)
  qed
  moreover have "trial_code ?row \<in> {2, 3}" if "tv_verdict ?row \<in> {''unverified'', ''blocked''}"
    using that by (auto simp: trial_code_def EXITS_def)
  moreover have "tv_verdict ?row \<in> {''unverified'', ''blocked''}"
    if "map_of (ev_data e) ''status'' \<notin> {Some (JStr ''verified''), Some (JStr ''not_started'')}"
    using that unfolding row by (simp add: corrected_def Let_def UNVERIFIED_def)
  moreover have "?row = trials ! i"
    if "map_of (ev_data e) ''status'' \<in> {Some (JStr ''verified''), Some (JStr ''not_started'')}"
    using that unfolding row by (auto simp: corrected_def)
  ultimately show ?thesis unfolding if_bool_eq_conj by blast
qed

definition sample_delivery :: "stamp \<Rightarrow> string \<Rightarrow> event" where
  "sample_delivery instant status =
     \<lparr>ev_at = instant, ev_batch = ''b'', ev_topic = T_EVIDENCE, ev_job = ''j'',
      ev_data = [(''handle'', JStr ''7''), (''target'', JStr ''gold''), (''status'', JStr status)]\<rparr>"

theorem evidence_withholds_row_witness:
  "tv_verdict (qualified_rows [(blank_trial ''j'')\<lparr>tv_handle := ''7'', tv_target := ''gold'', tv_verdict := ''ok''\<rparr>]
     [sample_delivery ''1'' ''verified'', sample_delivery ''2'' ''unverified''] ! 0) \<in> {''unverified'', ''blocked''}"
proof -
  let ?trials = "[(blank_trial ''j'')\<lparr>tv_handle := ''7'', tv_target := ''gold'', tv_verdict := ''ok''\<rparr>]"
  let ?events = "[sample_delivery ''1'' ''verified'', sample_delivery ''2'' ''unverified'']"
  let ?e = "sample_delivery ''2'' ''unverified''"
  have "x = ?e \<or> ev_at x < ev_at ?e" if "x \<in> set ?events" for x
  proof -
    have "ev_at (sample_delivery ''1'' ''verified'') < ev_at ?e" by code_simp
    with that show ?thesis by auto
  qed
  moreover have "text_field (ev_data x) ''submitted_at'' = text_field (ev_data ?e) ''submitted_at''" if "x \<in> set ?events" for x
    using that by (auto simp: sample_delivery_def text_field_def)
  ultimately have newest: "text_field (ev_data x) ''submitted_at'' = text_field (ev_data ?e) ''submitted_at'' \<and>
      (x = ?e \<or> ev_at x < ev_at ?e)" if "x \<in> set ?events" for x using that by blast
  have here: "0 < length ?trials" "?e \<in> set ?events" "ev_topic ?e = T_EVIDENCE"
    "text_field (ev_data ?e) ''handle'' = tv_handle (?trials ! 0)"
    "text_field (ev_data ?e) ''target'' = tv_target (?trials ! 0)"
    by (simp_all add: sample_delivery_def text_field_def)
  have "map_of (ev_data ?e) ''status'' \<notin> {Some (JStr ''verified''), Some (JStr ''not_started'')}"
    by (simp add: sample_delivery_def)
  with evidence_withholds_row [OF here] newest show ?thesis unfolding if_bool_eq_conj by blast
qed

end
