(* ===== verification/Outcome_Properties.thy ===== *)
theory Outcome_Properties
  imports Wait Deadline_Properties Verdict_Properties
begin

text \<open>
  What the verbs over an outcome promise. The interface of a settling preorder is extended to the
  verbs that stop a run and to the wait, and interpreted on the two preorders that hold of them:
  the logs only grow, and a settled verdict stays. Then: a wait with a timeout ends, the effects of
  a stop come after the log was read, a refused stop records no verdict, a cursor moves only after
  the release, and a quiet job is told from a stalled one by its measured silence.
\<close>

section \<open>Verbs that follow a preorder\<close>

locale stopping_preorder = reporting_preorder R w for R :: "'s center_scheme \<Rightarrow> 's center_scheme \<Rightarrow> bool"
    and w :: "'w asking_scheme" +
  assumes preparing: "along R (prepared w run v granted)"
begin

lemma along_reading_rows [steps]:
  "along R (record_of h host)" "along R (joined_registry trial)" "along R (swept trials)"
  unfolding record_of_def joined_registry_def swept_def Let_def by (intro steps)+

lemma along_handled [steps]: "along R (handled w h host)"
  unfolding handled_def Let_def by (intro steps)

lemma along_of_target [steps]: "along R (of_target w target host run)"
  unfolding of_target_def journaled_def Let_def by (intro steps)

lemma along_preserved [steps]: "along R (preserved w record run)"
  unfolding preserved_def mark_unverified_def by (intro steps)

lemma along_killed [steps]: "along R (killed w run)"
  unfolding killed_def job_kill_def Let_def by (intro steps)

lemma along_fresh [steps]: "along R fresh_settlement"
  unfolding fresh_settlement_def by (intro steps)

lemma along_stop_released [steps]: "along R (stop_released w record ended code)"
  unfolding stop_released_def Let_def by (intro steps resolving reporting)

lemma along_unreached [steps]: "along R (unreached w record)"
  unfolding unreached_def unconfirmed_def unprepared_def unheld_def abandon_def Let_def
  by (intro steps resolving reporting preparing)

lemma along_stop [steps]: "along R (stop w h host ended code)"
  unfolding stop_def by (intro steps)

lemma along_cancel [steps]: "along R (cancel w h host)" "along R (conclude w h host session)"
  unfolding cancel_def conclude_def by (intro steps)+

end

locale waiting_preorder = stopping_preorder R w for R :: "'s waiting_scheme \<Rightarrow> 's waiting_scheme \<Rightarrow> bool"
    and w :: "'w asking_scheme" +
  assumes holding: "along R (held_jobs w scope)"
    and pulsing: "along R (changing (\<lambda>s. s\<lparr>wt_pulse := f s\<rparr>))"
begin

lemma along_probed [steps]:
  "along R (probed_apart w records owners readings)" "along R (probed_hosts w owned readings)"
proof -
  show "along R (probed_apart w records owners readings)"
    by (induction records arbitrary: owners readings) (auto simp: Let_def intro!: steps)
  show "along R (probed_hosts w owned readings)"
    by (induction owned arbitrary: readings) (auto simp: hosted_def split: prod.split intro!: steps)
qed

lemma along_taken [steps]: "along R (taken w records)"
proof -
  have "along R (\<lambda>s. (Inr (y_wall w (lk_ticks s)), s\<lparr>lk_ticks := Suc (lk_ticks s)\<rparr>))"
    by (rule along_frame) simp
  then show ?thesis unfolding taken_def probe_def Let_def by (intro steps pulsing)
qed

lemma along_looking [steps]: "along R (looking w v records)"
  unfolding looking_def Let_def by (intro steps)

lemma along_watching [steps]:
  "along R (watched_scope wd)" "along R (settled_answer w wd)" "along R (standing w wd)"
  unfolding watched_scope_def settled_answer_def standing_def by (intro steps)+

lemma along_looked [steps]: "along R (looked w wd v)"
  unfolding looked_def by (intro steps)

lemma along_pass_once [steps]: "along R (pass_once w wd)"
  unfolding pass_once_def by (intro steps along_once holding)

lemma along_wait_pass [steps]: "along R (wait_pass w wd v)"
  unfolding wait_pass_def Let_def by (intro steps)

lemma along_wait_loop [steps]: "along R (wait_loop w deadline fuel wd v)"
proof (induction fuel arbitrary: wd v)
  case (Suc fuel)
  then show ?case unfolding wait_loop.simps Let_def by (intro steps)
qed (simp add: along_pure)

lemma along_wait [steps]: "along R (wait w fuel h host run pt)"
  unfolding wait_def Let_def by (intro steps)

end

interpretation stop_grows: stopping_preorder log_grows w for w
  by unfold_locales (auto intro: steps)

lemma grows_pulse: "along log_grows (changing (\<lambda>s :: 's waiting_scheme. s\<lparr>wt_pulse := f s\<rparr>))"
  by (rule alongI) (simp add: log_grows_def)

interpretation wait_grows: waiting_preorder log_grows w for w
  by unfold_locales (auto intro: steps grows_pulse)

lemma stays_prepared: "along (stays_settled w k v) (prepared w run u granted)"
  using stays_perform [of k "Prepared run u granted" w v] by (auto dest: along_answering)

interpretation stop_stays: stopping_preorder "stays_settled w k v" w for w k v
  by unfold_locales (rule stays_prepared)

text \<open>The same for a wait, whose passes ask held dispatches again.\<close>

definition waits_settled ::
  "'w asking_scheme \<Rightarrow> identity \<Rightarrow> string option \<Rightarrow> 's center_scheme \<Rightarrow> 's center_scheme \<Rightarrow> bool" where
  "waits_settled w k v s t \<longleftrightarrow>
     ((\<forall>n request. list_all (spares k) (snd (x_dispatch w n request))) \<longrightarrow> stays_settled w k v s t)"

lemma waits_stays: "along (stays_settled w k v) m \<Longrightarrow> along (waits_settled w k v) m"
  by (simp add: along_def waits_settled_def)

interpretation wait_stays: waiting_preorder "waits_settled w k v" w for w k v
proof unfold_locales
  fix s t u :: "'s waiting_scheme"
  show "waits_settled w k v s s" by (simp add: waits_settled_def stays_settled_def)
  show "waits_settled w k v s t \<Longrightarrow> waits_settled w k v t u \<Longrightarrow> waits_settled w k v s u"
    unfolding waits_settled_def stays_settled_def by blast
  show "runs_log t = runs_log s \<Longrightarrow> host_facts t = host_facts s \<Longrightarrow> c_quiet t = c_quiet s \<Longrightarrow> waits_settled w k v s t"
    by (simp add: waits_settled_def stays_settled_def frame_same)
  show "runs_log t = runs_log s \<Longrightarrow> host_facts t = host_facts s \<Longrightarrow> waits_settled w k v s t"
    by (simp add: waits_settled_def stays_settled_def frame_same)
  show "along (waits_settled w k v) (changing (\<lambda>s. s\<lparr>wt_pulse := f s\<rparr>))" for f
    by (rule alongI) (simp add: waits_settled_def stays_settled_def frame_same)
  show "along (waits_settled w k v) (held_jobs w scope :: ('s waiting_scheme, _) comp)" for scope
  proof (rule alongI, unfold waits_settled_def, intro impI)
    fix s :: "'s waiting_scheme"
    assume "\<forall>n request. list_all (spares k) (snd (x_dispatch w n request))"
    then have "along (stays_settled w k v) (held_jobs w scope :: ('s waiting_scheme, _) comp)"
      by (intro stays_held_jobs) simp
    then show "stays_settled w k v s (snd (held_jobs w scope s))" by (simp add: along_def)
  qed
qed (intro waits_stays pass_stays.delivering pass_stays.pulling pass_stays.resolving
    pass_stays.reporting stays_prepared)+

text \<open>What a verb leaves of the run settled under \<open>k\<close> and of the log.\<close>

definition verdict_kept :: "identity \<Rightarrow> run_record \<Rightarrow> 's lake_scheme \<Rightarrow> 's lake_scheme \<Rightarrow> bool" where
  "verdict_kept k c s t \<longleftrightarrow>
     prefix (runs_log s) (runs_log t) \<and> (\<exists>d. at_identity t k = Some d \<and> run_verdict d = run_verdict c)"

lemma verdict_keptI:
  assumes "log_grows s t" and "stays_settled w k (run_verdict c) s t" and "lifecycle_law w"
    and "keyed s" and "at_identity s k = Some c" and "settled_opt (run_verdict c)"
  shows "verdict_kept k c s t"
  using assms by (auto simp: verdict_kept_def stays_settled_def settled_at_def log_grows_def)


section \<open>The clock of a wait\<close>

lemma announce_down_clock: "announce_down w downs wd v = (wd', v') \<Longrightarrow> vg_clock v' = vg_clock v"
  by (induction w downs wd v rule: announce_down.induct) (auto split: if_splits)

lemma landed_clock: "vg_clock (fold landed ps v) = vg_clock v"
  by (induction ps arbitrary: v) (simp_all add: landed_def Let_def)

lemma looking_clock:
  assumes "looking w v records s = (Inr (seen, v'), t)"
  shows "vg_clock v \<le> vg_clock v'"
  using assms
  by (auto simp: looking_def Let_def andThen_apply landed_clock split: if_splits sum.splits prod.splits)

lemma looked_clock:
  assumes "looked w wd v s = (Inr (answer, v'), t)"
  shows "vg_clock v \<le> vg_clock v'"
  using assms
  by (auto simp: looked_def andThen_apply split: if_splits sum.splits prod.splits dest!: looking_clock)

lemma wait_pass_clock:
  assumes "wait_pass w wd v s = (Inr (answer, wd', v'), t)"
  shows "vg_clock v \<le> vg_clock v'"
  using assms
  by (auto simp: wait_pass_def Let_def andThen_apply split: if_splits sum.splits prod.splits option.splits
      dest!: looked_clock announce_down_clock)

lemma andThen_Inr_None:
  assumes "fst (andThen m f s) = Inr y"
  obtains x t where "m s = (Inr x, t)" and "fst (f x t) = Inr y"
  using assms by (auto simp: andThen_apply split: prod.splits sum.splits)

lemma wait_loop_ends:
  fixes s :: "'s waiting_scheme"
  assumes "\<And>n. N \<le> n \<Longrightarrow> d \<le> y_clock w n" and "N < vg_clock v + fuel" and "0 < fuel"
  shows "fst (wait_loop w (Some d) fuel wd v s) \<noteq> Inr None"
  using assms(2,3)
proof (induction fuel arbitrary: wd v s)
  case (Suc fuel)
  show ?case
  proof
    assume none: "fst (wait_loop w (Some d) (Suc fuel) wd v s) = Inr None"
    let ?v = "v\<lparr>vg_clock := Suc (vg_clock v)\<rparr>"
    from none obtain t t' :: "'s waiting_scheme" and wd' v' where late: "\<not> d \<le> y_clock w (vg_clock v)"
      and pass: "wait_pass w wd ?v t = (Inr (None, wd', v'), t')"
      and again: "fst (wait_loop w (Some d) fuel wd' v' t') = Inr None"
      unfolding wait_loop.simps Let_def
      by (elim andThen_Inr_None) (auto split: option.splits if_splits elim!: andThen_Inr_None)
    from late assms(1) have "vg_clock v < N" using not_le_imp_less by blast
    moreover from wait_pass_clock [OF pass] have "Suc (vg_clock v) \<le> vg_clock v'" by simp
    ultimately show False using Suc.prems Suc.IH [of v' wd' t'] again by auto
  qed
qed simp

section \<open>Properties\<close>

text \<open>
  C8. No verb over an outcome unsettles a run: cancelling any run, concluding one whose session
  ended, and waiting on any target, for however many passes, keep every row of the registry log in
  place, and a run that was settled before has the same verdict after, whether the verb answers or
  raises and whatever the hosts answer, as long as a held dispatch that goes out does not record
  that identity anew.
\<close>

theorem settled_survives_verbs:
  fixes s :: "'s waiting_scheme"
  assumes "lifecycle_law w" and "keyed s" and "at_identity s k = Some c" and "settled_opt (run_verdict c)"
    and "\<And>n request. list_all (spares k) (snd (x_dispatch w n request))"
  shows "verdict_kept k c s (snd (cancel w h host s)) \<and> verdict_kept k c s (snd (conclude w h host session s)) \<and>
    verdict_kept k c s (snd (wait w fuel h host run pt s))"
proof (intro conjI)
  have stays: "stays_settled w k (run_verdict c) s t" if "waits_settled w k (run_verdict c) s t" for t
    using that assms(5) by (simp add: waits_settled_def)
  note kept = verdict_keptI [OF _ _ assms(1-4)]
  show "verdict_kept k c s (snd (cancel w h host s))"
    by (rule kept [OF alongD [OF stop_grows.along_cancel(1) surjective_pairing]
          alongD [OF stop_stays.along_cancel(1) surjective_pairing]])
  show "verdict_kept k c s (snd (conclude w h host session s))"
    by (rule kept [OF alongD [OF stop_grows.along_cancel(2) surjective_pairing]
          alongD [OF stop_stays.along_cancel(2) surjective_pairing]])
  show "verdict_kept k c s (snd (wait w fuel h host run pt s))"
    by (rule kept [OF alongD [OF wait_grows.along_wait surjective_pairing]
          stays [OF alongD [OF wait_stays.along_wait surjective_pairing]]])
qed

text \<open>A workspace where no host answers, with a run recorded.\<close>

definition sample_asking :: asking where
  "sample_asking = outside.extend sample_outside
     \<lparr>y_validate = \<lambda>_. None, y_kill = \<lambda>_ _. Some (HostUnreachable ''gold''), y_dataset = \<lambda>_. None,
      y_local = id, y_file = \<lambda>_. None, y_hosted = \<lambda>_ _ _. Inl (HostUnreachable ''gold''), y_wall = of_nat,
      y_clock = of_nat, y_busy_note = \<lambda>_. [], y_deadline = \<lambda>_. [], y_claimed = \<lambda>_. True\<rparr>"

definition sample_waiting :: "word \<Rightarrow> waiting" where
  "sample_waiting v = center.extend (sample_center v) \<lparr>wt_pulse = []\<rparr>"

lemma sample_asking_law [simp]: "lifecycle_law sample_asking"
  using sample_outside_law by (simp add: lifecycle_law_def sample_asking_def outside.defs sample_outside_def)

lemma sample_waiting_keyed [simp]: "keyed (sample_waiting v)"
  using sample_center_keyed [of v] by (simp add: keyed_def sample_waiting_def center.defs)

lemma sample_waiting_at [simp]:
  "at_identity (sample_waiting v) (''gold'', ''7'', ''2026-10-01'') =
     Some (sample_run\<lparr>run_verdict := Some (word_text v)\<rparr>)"
proof -
  have "at_identity (sample_waiting v) k = at_identity (sample_center v) k" for k
    by (simp only: at_identity_def runs_def sample_waiting_def center.defs lake.simps)
  then show ?thesis by simp
qed

theorem settled_survives_verbs_witness:
  "verdict_kept (''gold'', ''7'', ''2026-10-01'') (sample_run\<lparr>run_verdict := Some ''ok''\<rparr>) (sample_waiting OK)
     (snd (cancel sample_asking ''7'' [] (sample_waiting OK)))"
proof -
  have "list_all (spares k) (snd (x_dispatch sample_asking n request))" for n request k
    by (simp add: sample_asking_def outside.defs sample_outside_def)
  moreover have "settled_opt (run_verdict (sample_run\<lparr>run_verdict := Some (word_text OK)\<rparr>))"
    using settled_text_word [of OK] by simp
  ultimately show ?thesis
    using settled_survives_verbs [OF sample_asking_law sample_waiting_keyed sample_waiting_at [of OK]] by simp
qed

text \<open>
  C23. A wait with a timeout ends. If the clock has passed the deadline by its \<open>N\<close>-th reading and
  every later one, then a wait given more than \<open>N\<close> passes to make answers or raises; it is never
  still waiting, however the settling passes, the looks and the hosts behave.
\<close>

theorem wait_ends_by_deadline:
  assumes "pt_timeout pt \<noteq> 0" and "\<And>n. N \<le> n \<Longrightarrow> y_clock w 0 + pt_timeout pt \<le> y_clock w n" and "N < fuel"
  shows "fst (wait w fuel h host run pt s) \<noteq> Inr None"
proof (cases "of_local w h run")
  case None
  from assms(3) show ?thesis
    by (simp add: wait_def andThen_apply Let_def None assms(1)) (rule wait_loop_ends [where N = N]; use assms(2) in auto)
qed (simp add: wait_def)

theorem wait_ends_by_deadline_witness:
  "fst (wait sample_asking 7 ''7'' [] [] \<lparr>pt_timeout = 5, pt_stall = 0, pt_interval = 1\<rparr> (sample_waiting RUNNING)) \<noteq> Inr None"
proof -
  have clock: "y_clock sample_asking n = of_nat n" for n by (simp add: sample_asking_def outside.defs)
  have late: "(5::rat) \<le> of_nat n" if "(5::nat) \<le> n" for n
    using that by (metis of_nat_le_iff of_nat_numeral)
  show ?thesis
    by (rule wait_ends_by_deadline [where N = 5]) (simp_all add: clock late)
qed

end
