(* ===== verification/Stop_Properties.thy ===== *)
theory Stop_Properties
  imports Outcome_Properties
begin

text \<open>
  Stopping a run: what a stop does to the world comes after the run's log was read, a stop that the
  scheduler or provider refused records no verdict and moves no cursor, and the silence that lets a
  wait stop is measured, not assumed.
\<close>

section \<open>The log is read first\<close>

lemma recording_kill [steps]: "along record_grows (killed w run)"
proof -
  have "along record_grows (doing (Killed h))" "along record_grows (doing (Unkilled h))" for h
    by (rule recording.other_effect; simp)+
  then show ?thesis unfolding killed_def job_kill_def Let_def by (intro steps)
qed

lemma recording_fresh [steps]: "along record_grows fresh_settlement"
  by (rule recording.along_trace) (simp add: fresh_settlement_def)

text \<open>A computation whose first effect is \<open>e\<close>; whatever follows it only adds to the trace.\<close>

definition first_does :: "effect \<Rightarrow> ('s center_scheme, 'a) comp \<Rightarrow> bool" where
  "first_does e m \<longleftrightarrow> (\<forall>s. prefix (c_trace s @ [e]) (c_trace (snd (m s))))"

lemma first_does_then:
  assumes "first_does e m" and "\<And>x. along record_grows (f x)"
  shows "first_does e (andThen m f)"
proof (unfold first_does_def, intro allI)
  fix s
  obtain r t where rt: "m s = (r, t)" by fastforce
  with assms(1) have first: "prefix (c_trace s @ [e]) (c_trace t)" unfolding first_does_def by (metis snd_conv)
  show "prefix (c_trace s @ [e]) (c_trace (snd (andThen m f s)))"
  proof (cases r)
    case (Inr x)
    have "record_grows t (snd (f x t))" by (rule alongD [OF assms(2) surjective_pairing])
    with first rt Inr show ?thesis
      by (auto simp: andThen_apply record_grows_def intro: prefix_order.trans)
  qed (use first rt in \<open>simp add: andThen_apply\<close>)
qed

lemma first_does_trying:
  assumes "first_does e m" and "\<And>x. along record_grows (f x)" and "\<And>x. along record_grows (g x)"
  shows "first_does e (trying_else caught m f g)"
proof (unfold first_does_def, intro allI)
  fix s
  obtain r t where rt: "m s = (r, t)" by fastforce
  with assms(1) have first: "prefix (c_trace s @ [e]) (c_trace t)" unfolding first_does_def by (metis snd_conv)
  have "record_grows t (snd (f x t))" "record_grows t (snd (g y t))" for x y
    by (rule alongD [OF assms(2) surjective_pairing] alongD [OF assms(3) surjective_pairing])+
  with first rt show "prefix (c_trace s @ [e]) (c_trace (snd (trying_else caught m f g s)))"
    by (auto simp: trying_else_apply record_grows_def split: sum.split intro: prefix_order.trans)
qed

lemma first_does_after:
  assumes "first_does e m" and "c_trace t = c_trace s"
  shows "prefix (c_trace s @ [e]) (c_trace (snd (m t)))"
  using assms unfolding first_does_def by metis

lemma transcript_reads_first:
  assumes "ro_provider run \<longrightarrow> ro_log_source run"
  shows "first_does (Read (ro_handle run)) (job_transcript w run)"
  using assms
  by (auto simp: first_does_def job_transcript_def andThen_apply doing_def split: sum.split)

lemma preserved_reads_first:
  assumes "ro_provider run \<longrightarrow> ro_log_source run"
  shows "first_does (Read (ro_handle run)) (preserved w record run)"
  unfolding preserved_def capture_def mark_unverified_def Let_def
  by (cases "streamed (run_name record) (run_handle record)", simp only: prod.case)
    (intro first_does_trying first_does_then transcript_reads_first assms steps)

text \<open>What a stop does once the run's evidence is kept.\<close>

definition stop_tail ::
  "'w asking_scheme \<Rightarrow> run_record \<Rightarrow> run_obj \<Rightarrow> string \<Rightarrow> int option \<Rightarrow> string list \<Rightarrow> ('s center_scheme, unit) comp" where
  "stop_tail w record run ended exit_code harvested =
     (let (word, code, verdict) = outcome_of record ended exit_code;
          state = state_with (run_handle record) (Some word) code verdict
      in andThen (killed w run) (\<lambda>unheard.
         andThen (resolve w record (Some word) code verdict) (\<lambda>kept.
         andThen (release w run) (\<lambda>let_go.
         if \<not> let_go then ret ()
         else
           andThen (run_named (run_handle record) (Some (run_target record))) (\<lambda>current.
           andThen (if run_evidence current = ''copied'' then evidence w record harvested ''verified'' [] else ret ()) (\<lambda>_.
           andThen (track w record state (stopped_detail ended code @ unheard)) (\<lambda>_.
           report w kept verdict)))))))"

lemma stop_released_known:
  assumes "x_job w (moment s) (run_handle record) (run_target record) = Inr run"
  shows "stop_released w record ended code s =
    andThen (preserved w record run) (stop_tail w record run ended code) (snd (fresh_settlement s))"
  using assms
  by (simp add: stop_released_def andThen_apply [of "reading _"] andThen_apply [of "returning _"]
      andThen_apply [of "changing _"] fresh_settlement_def stop_tail_def [abs_def])

lemma recording_stop_tail: "along record_grows (stop_tail w record run ended code harvested)"
  unfolding stop_tail_def Let_def by (intro steps)

section \<open>A refused stop\<close>

text \<open>No pull finds its host unreachable; and then: all but the evidence stays, and no host goes quiet.\<close>

definition calm_pulls :: "'w outside_scheme \<Rightarrow> bool" where
  "calm_pulls w \<longleftrightarrow> (\<forall>n h e. x_pull w n h = Some e \<longrightarrow> \<not> is_unreachable e)"

definition but_evidence :: "run_record \<Rightarrow> run_record" where
  "but_evidence r = r\<lparr>run_evidence := []\<rparr>"

definition evidence_only :: "'w outside_scheme \<Rightarrow> 's center_scheme \<Rightarrow> 's center_scheme \<Rightarrow> bool" where
  "evidence_only w s t \<longleftrightarrow> (calm_pulls w \<longrightarrow> same_view but_evidence s t \<and> c_quiet t = c_quiet s)"

lemma calm_pull_quiet: "calm_pulls w \<Longrightarrow> c_quiet (snd (pull w job s)) = c_quiet s"
  by (auto simp: calm_pulls_def pull_def job_pull_def unpulled_def Let_def andThen_apply trying_else_apply doing_def
      split: option.split)

interpretation refusing: delivering_preorder "evidence_only w" w for w
proof unfold_locales
  fix s t u :: "'s center_scheme"
  show "evidence_only w s s" by (simp add: evidence_only_def same_view_def)
  show "evidence_only w s t \<Longrightarrow> evidence_only w t u \<Longrightarrow> evidence_only w s u"
    by (auto simp: evidence_only_def same_view_def)
  show "runs_log t = runs_log s \<Longrightarrow> host_facts t = host_facts s \<Longrightarrow> c_quiet t = c_quiet s \<Longrightarrow> evidence_only w s t"
    by (simp add: evidence_only_def frame_same)
  show "along (evidence_only w) (pull w job :: ('s center_scheme, _) comp)" for job
    by (rule alongI) (simp add: evidence_only_def frame_same pull_frame calm_pull_quiet)
  show "along (evidence_only w) (delivery w run status :: ('s center_scheme, _) comp)" for run status
  proof (rule alongI)
    fix s :: "'s center_scheme"
    have "along (same_view but_evidence) (delivery w run status :: ('s center_scheme, _) comp)"
      unfolding delivery_def by (rule same_view_change) (simp add: but_evidence_def)
    moreover have "c_quiet (snd (delivery w run status s)) = c_quiet s"
      by (simp add: delivery_def change_apply logged_def split: option.split)
    ultimately show "evidence_only w s (snd (delivery w run status s))"
      by (simp add: evidence_only_def along_def)
  qed
qed

lemma refusing_preserved: "along (evidence_only w) (preserved w record run)"
  unfolding preserved_def mark_unverified_def by (intro steps)

text \<open>Every cancel of the run's scheduler or provider is refused, by something that did answer.\<close>

definition stop_refused :: "'w asking_scheme \<Rightarrow> bool" where
  "stop_refused w \<longleftrightarrow> (\<forall>n h. \<exists>e. y_kill w n h = Some e \<and> \<not> is_unreachable e) \<and>
     (\<forall>n k i. \<exists>e. x_cancel w n k i = Some e \<and> \<not> is_unreachable e)"

lemma killed_refused:
  assumes "stop_refused w" and "c_quiet s = []"
  shows "\<exists>e. killed w run s = (Inl e, s\<lparr>c_trace := c_trace s @ [Unkilled (ro_handle run)]\<rparr>)"
proof (cases "ro_provider run")
  case True
  from assms(1) obtain e where "x_cancel w (moment s) (hd_kind (ro_handle run)) (hd_id (ro_handle run)) = Some e"
    "\<not> is_unreachable e" unfolding stop_refused_def by blast
  with assms(2) True show ?thesis
    by (simp add: killed_def job_kill_def Let_def andThen_apply trying_else_apply doing_def opt_text_def)
next
  case False
  from assms(1) obtain e where "y_kill w (moment s) (ro_handle run) = Some e" "\<not> is_unreachable e"
    unfolding stop_refused_def by blast
  with assms(2) False show ?thesis
    by (simp add: killed_def job_kill_def Let_def andThen_apply trying_else_apply doing_def opt_text_def)
qed


section \<open>Properties\<close>

text \<open>
  C24. A stop reads before it acts. When the run to stop has a log to read, the first thing a stop
  does to the world is to read that log; every kill, pull and release comes after it, whether the
  stop succeeds or raises.
\<close>

theorem stop_reads_first:
  assumes "x_job w (moment s) (run_handle record) (run_target record) = Inr run"
    and "ro_provider run \<longrightarrow> ro_log_source run"
    and "stop_released w record ended code s = (r, t)"
  shows "\<exists>later. c_trace t = c_trace s @ Read (ro_handle run) # later"
proof -
  have "first_does (Read (ro_handle run)) (andThen (preserved w record run) (stop_tail w record run ended code))"
    by (intro first_does_then preserved_reads_first recording_stop_tail assms)
  from first_does_after [OF this, of "snd (fresh_settlement s)" s] assms(3)
  show ?thesis by (simp add: stop_released_known [OF assms(1)] fresh_settlement_def prefix_def)
qed

text \<open>
  C25. A refused stop records nothing of the outcome. When the scheduler or provider answers and
  refuses to stop a run, the stop raises, and no record of the registry changed but for its evidence:
  no verdict, no state, no exit code and no reported cursor, so that the run is still in flight for
  the next ask.
\<close>

theorem refused_stop_records_nothing:
  assumes "keyed s" and "calm_pulls w" and "stop_refused w"
    and "x_job w (moment s) (run_handle record) (run_target record) = Inr run"
    and "stop_released w record ended code s = (r, t)"
  shows "(\<exists>e. r = Inl e) \<and>
    (\<forall>k. map_option but_evidence (at_identity t k) = map_option but_evidence (at_identity s k))"
proof -
  let ?s = "snd (fresh_settlement s)"
  obtain q u where u: "preserved w record run ?s = (q, u)" by fastforce
  have eq: "at_identity ?s = at_identity s" "keyed ?s"
    using at_identity_frame [of ?s s] keyed_frame [of ?s s] assms(1) by (simp_all add: fresh_settlement_def)
  have "evidence_only w ?s u" using u by (rule alongD [OF refusing_preserved])
  with assms(1,2) eq have kept: "\<forall>k. map_option but_evidence (at_identity u k) = map_option but_evidence (at_identity s k)"
    and quiet: "c_quiet u = []"
    by (auto simp: evidence_only_def same_view_def fresh_settlement_def)
  obtain e where killed: "killed w run u = (Inl e, u\<lparr>c_trace := c_trace u @ [Unkilled (ro_handle run)]\<rparr>)"
    using killed_refused [OF assms(3) quiet] by blast
  have "at_identity (u\<lparr>c_trace := c\<rparr>) = at_identity u" for c by (rule at_identity_frame) simp
  with kept killed u assms(5) show ?thesis
    by (cases q; cases "outcome_of record ended code")
      (auto simp: stop_released_known [OF assms(4)] stop_tail_def andThen_apply Let_def)
qed

theorem stop_reads_first_witness:
  "\<exists>later. c_trace (snd (stop_released sample_asking sample_run ''cancelled'' None (sample_waiting RUNNING))) =
     Read (ro_handle sample_job) # later"
proof -
  have "x_job sample_asking (moment (sample_waiting RUNNING)) (run_handle sample_run) (run_target sample_run) = Inr sample_job"
    by (simp add: sample_asking_def outside.defs sample_outside_def)
  from stop_reads_first [OF this _ surjective_pairing] show ?thesis
    by (simp add: sample_job_def sample_waiting_def center.defs sample_center_def)
qed

theorem refused_stop_records_nothing_witness:
  "map_option run_verdict (map_option but_evidence (at_identity (snd (stop_released
      (sample_asking\<lparr>x_cancel := \<lambda>_ _ _. Some (MissionError ''no''), y_kill := \<lambda>_ _. Some (MissionError ''no'')\<rparr>)
      sample_run ''cancelled'' None (sample_waiting RUNNING))) (''gold'', ''7'', ''2026-10-01''))) = Some (Some ''running'')"
proof -
  let ?w = "sample_asking\<lparr>x_cancel := \<lambda>_ _ _. Some (MissionError ''no''), y_kill := \<lambda>_ _. Some (MissionError ''no'')\<rparr>"
  have refused: "stop_refused ?w" by (simp add: stop_refused_def)
  have calm: "calm_pulls ?w" by (simp add: calm_pulls_def sample_asking_def outside.defs sample_outside_def)
  have job: "x_job ?w (moment (sample_waiting RUNNING)) (run_handle sample_run) (run_target sample_run) = Inr sample_job"
    by (simp add: sample_asking_def outside.defs sample_outside_def)
  from refused_stop_records_nothing [OF sample_waiting_keyed calm refused job surjective_pairing]
  show ?thesis by (simp only: sample_waiting_at) (simp add: but_evidence_def)
qed

lemma pulse_of_some:
  "out \<noteq> [] \<Longrightarrow> \<exists>p rows. pulse_of t held record \<lparr>rd_output = Some out, rd_gpu_pct = g\<rparr> = Some (p, rows)"
  by (cases "held (pulse_key record)") (auto simp: pulse_of_def Let_def)

text \<open>
  Silence is measured between two looks, never assumed. A job seen for the first time is not
  called quiet. When the next look finds the same length of output, the job has been quiet for the
  whole seconds between the two looks, and nothing new is remembered; when the length changed, it
  has been quiet for none, and the new length is remembered with the instant of that look.
\<close>

theorem silence_is_measured:
  assumes "pulse_of t1 (recalled ks s) record \<lparr>rd_output = Some out1, rd_gpu_pct = g1\<rparr> = Some (p1, rows1)"
    and "pulse_of t2 (recalled ks (s\<lparr>wt_pulse := wt_pulse s @ rows1\<rparr>)) record
      \<lparr>rd_output = Some out2, rd_gpu_pct = g2\<rparr> = Some (p2, rows2)"
    and "pulse_key record \<in> set ks" and "recalled ks s (pulse_key record) = None"
  shows "pu_quiet_s p1 = None \<and>
    (if length out2 = length out1 then pu_quiet_s p2 = Some (int_trunc (t2 - t1)) \<and> rows2 = []
     else pu_quiet_s p2 = Some 0 \<and>
       rows2 = [\<lparr>pl_key = pulse_key record, pl_size = int (length out2), pl_grew = t2\<rparr>])"
proof -
  from assms(1,4) have first: "pu_quiet_s p1 = None"
    "rows1 = [\<lparr>pl_key = pulse_key record, pl_size = int (length out1), pl_grew = t1\<rparr>]"
    by (auto simp: pulse_of_def Let_def split: if_splits)
  then have "recalled ks (s\<lparr>wt_pulse := wt_pulse s @ rows1\<rparr>) (pulse_key record) = Some (int (length out1), t1)"
    using assms(3) by (simp add: recalled_def)
  with assms(2) first(1) show ?thesis by (auto simp: pulse_of_def Let_def int_trunc_def split: if_splits)
qed

theorem silence_is_measured_witness:
  "\<exists>p1 rows1 p2. pulse_of 10 (recalled [pulse_key sample_run] (sample_waiting RUNNING)) sample_run
       \<lparr>rd_output = Some ''hi'', rd_gpu_pct = None\<rparr> = Some (p1, rows1) \<and>
     pulse_of 25 (recalled [pulse_key sample_run] ((sample_waiting RUNNING)\<lparr>wt_pulse := wt_pulse (sample_waiting RUNNING) @ rows1\<rparr>))
       sample_run \<lparr>rd_output = Some ''hi'', rd_gpu_pct = None\<rparr> = Some (p2, []) \<and> pu_quiet_s p2 = Some 15"
proof -
  let ?r = "\<lparr>rd_output = Some ''hi'', rd_gpu_pct = None\<rparr>" and ?ks = "[pulse_key sample_run]" and ?s = "sample_waiting RUNNING"
  have new: "recalled ?ks ?s (pulse_key sample_run) = None"
    by (simp add: recalled_def sample_waiting_def center.defs)
  obtain p1 rows1 where p1: "pulse_of 10 (recalled ?ks ?s) sample_run ?r = Some (p1, rows1)"
    using pulse_of_some [of "''hi''"] by fastforce
  obtain p2 rows2 where p2: "pulse_of 25 (recalled ?ks (?s\<lparr>wt_pulse := wt_pulse ?s @ rows1\<rparr>)) sample_run ?r = Some (p2, rows2)"
    using pulse_of_some [of "''hi''"] by fastforce
  from silence_is_measured [OF p1 p2 _ new] have "pu_quiet_s p2 = Some 15" "rows2 = []"
    by (simp_all add: int_trunc_def)
  with p1 p2 show ?thesis by blast
qed

lemma stuckD:
  "stuck v p \<Longrightarrow> \<exists>q. pu_quiet_s p = Some q \<and> 0 < vg_stall v \<and> vg_stall v \<le> of_int q \<and>
     (pu_gpu_pct p = None \<or> (\<exists>g \<le> 5. pu_gpu_pct p = Some g)) \<and> pr_session (pu_progress p) = None"
  by (auto simp: stuck_def IDLE_PCT_def split: option.splits)

lemma lingering_ofD:
  "l \<in> set (lingering_of p) \<Longrightarrow> \<exists>q. pu_handle p = lg_handle l \<and> pu_target p = lg_target l \<and>
     pr_session (pu_progress p) = Some (lg_session l) \<and> pu_quiet_s p = Some q \<and> 120 \<le> q"
  by (auto simp: lingering_of_def LINGER_SECONDS_def split: option.splits if_splits)

lemma vg_stall_landed [simp]: "vg_stall (fold landed ps v) = vg_stall v"
  by (induction ps arbitrary: v) (simp_all add: landed_def Let_def)

text \<open>
  A look reports nothing, or exactly what the stalled and the lingering among the pulses it took say.
\<close>

lemma looking_reports:
  assumes "looking w v records s = (Inr (seen, v'), t)"
  shows "(lk_stalled seen \<noteq> [] \<longrightarrow>
      (\<exists>found u. taken w records s = (Inr found, u) \<and> (\<exists>p \<in> snd ` set found. stuck v' p \<and> vg_stall v' = vg_stall v))) \<and>
    (\<forall>l \<in> set (lk_lingering seen).
      \<exists>found u. taken w records s = (Inr found, u) \<and> (\<exists>p \<in> snd ` set found. l \<in> set (lingering_of p)))"
proof -
  have "seen = \<lparr>lk_lingering = [], lk_stalled = []\<rparr> \<or> (\<exists>found u. taken w records s = (Inr found, u) \<and>
      vg_stall v' = vg_stall v \<and> seen = \<lparr>lk_lingering = concat (map lingering_of (map snd found)),
         lk_stalled = join_with ''; '' (map silence (filter (stuck v') (map snd found)))\<rparr>)"
    using assms by (auto simp: looking_def Let_def andThen_apply split: if_splits sum.splits prod.splits)
  moreover have "\<exists>p \<in> snd ` set found. stuck v' p" if "join_with ''; '' (map silence (filter (stuck v') (map snd found))) \<noteq> []"
    for found :: "(run_record, pulse) dict"
  proof (rule ccontr)
    assume "\<not> ?thesis"
    then have "filter (stuck v') (map snd found) = []" by (auto simp: filter_empty_conv)
    with that show False by simp
  qed
  ultimately show ?thesis by auto
qed

text \<open>
  A job that printed two characters and then nothing, and a wait that calls twenty minutes a stall.
\<close>

definition silent_row :: pulse_row where
  "silent_row = \<lparr>pl_key = pulse_key sample_run, pl_size = 2, pl_grew = - 2000\<rparr>"

definition silent_vigil :: vigil where
  "silent_vigil = \<lparr>vg_stall = 1200, vg_said = [], vg_last = None, vg_lines = [], vg_clock = 0\<rparr>"

definition silent_asking :: asking where
  "silent_asking = sample_asking\<lparr>y_hosted := \<lambda>_ _ records.
     Inr (map (\<lambda>r. (r, \<lparr>rd_output = Some ''hi'', rd_gpu_pct = None\<rparr>)) records)\<rparr>"

text \<open>
  A wait stops only on measured silence with nothing to excuse it. When a look calls its jobs
  stalled, some running job printed nothing for at least the threshold, which is positive, its card
  is idle or unknown, and its session has not ended; when it lets a job be concluded, that job's
  session ended with the very status it is concluded on, at least two minutes of silence ago.
\<close>

theorem look_decides_on_silence:
  assumes "looking w v records s = (Inr (seen, v'), t)"
  shows "(lk_stalled seen \<noteq> [] \<longrightarrow>
      (\<exists>found u p q. taken w records s = (Inr found, u) \<and> p \<in> snd ` set found \<and> pu_quiet_s p = Some q \<and>
         0 < vg_stall v \<and> vg_stall v \<le> of_int q \<and> (pu_gpu_pct p = None \<or> (\<exists>g \<le> 5. pu_gpu_pct p = Some g)) \<and>
         pr_session (pu_progress p) = None)) \<and>
    (\<forall>l. l \<in> set (lk_lingering seen) \<longrightarrow>
      (\<exists>found u p q. taken w records s = (Inr found, u) \<and> p \<in> snd ` set found \<and> pu_handle p = lg_handle l \<and>
         pu_target p = lg_target l \<and> pr_session (pu_progress p) = Some (lg_session l) \<and>
         pu_quiet_s p = Some q \<and> 120 \<le> q))"
proof (intro conjI allI impI, goal_cases)
  case 1
  then obtain found u p where "taken w records s = (Inr found, u)" "p \<in> snd ` set found" "stuck v' p" "vg_stall v' = vg_stall v"
    using looking_reports [OF assms] by blast
  then show ?case using stuckD [of v' p] by metis
next
  case (2 l)
  then obtain found u p where "taken w records s = (Inr found, u)" "p \<in> snd ` set found" "l \<in> set (lingering_of p)"
    using looking_reports [OF assms] by blast
  then show ?case using lingering_ofD [of l p] by blast
qed

theorem look_decides_on_silence_witness:
  "\<exists>found u p q. taken silent_asking [sample_run] (sample_waiting RUNNING\<lparr>wt_pulse := [silent_row]\<rparr>) = (Inr found, u) \<and>
     p \<in> snd ` set found \<and> pu_quiet_s p = Some q \<and> 0 < (1200::rat) \<and> 1200 \<le> (of_int q :: rat)"
proof -
  let ?s = "sample_waiting RUNNING\<lparr>wt_pulse := [silent_row]\<rparr>"
  let ?look = "looking silent_asking silent_vigil [sample_run] ?s"
  have "case fst ?look of Inl _ \<Rightarrow> False | Inr (seen, _) \<Rightarrow> lk_stalled seen \<noteq> []" by code_simp
  then obtain seen v' t where "?look = (Inr (seen, v'), t)" "lk_stalled seen \<noteq> []"
    by (cases ?look) (auto split: sum.splits)
  moreover have "vg_stall silent_vigil = 1200" by (simp add: silent_vigil_def)
  ultimately show ?thesis using look_decides_on_silence [of silent_asking silent_vigil "[sample_run]" ?s] by metis
qed

end
