(* ===== verification/Grants.thy ===== *)
theory Grants
  imports Prelude Complex_Main
begin

unbundle bit_operations_syntax

text \<open>
  The owner's grants (\<open>policy/grants.py\<close>): what a target and a scope are, which grant covers which
  act, the record of grants, refusals and card limits with every change the owner makes to it, and
  the one file that holds it, which is refused unless it is the owner's own and closed to others.
  Instants are microseconds; a float amount is the rational it stands for. What pydantic writes
  and reads as JSON, the user id and the path are parameters.
\<close>

section \<open>Targets and scopes\<close>

datatype act = A_CARD | A_LAUNCH | A_PUSH | A_RENT

fun act_text :: "act \<Rightarrow> string" where
  "act_text A_CARD = ''card''"
| "act_text A_LAUNCH = ''launch''"
| "act_text A_PUSH = ''push''"
| "act_text A_RENT = ''rent''"

definition act_of :: "string \<Rightarrow> act option" where
  "act_of t = find (\<lambda>a. act_text a = t) [A_CARD, A_LAUNCH, A_PUSH, A_RENT]"

definition LONGEST :: nat where "LONGEST = 200"

text \<open>\<open>[\w.@+-]\<close> under \<open>re.ASCII\<close>, and \<open>[/:]\<close>.\<close>

definition target_char :: "char \<Rightarrow> bool" where
  "target_char c \<longleftrightarrow>
     (let n = of_char c :: nat in
      (48 \<le> n \<and> n \<le> 57) \<or> (65 \<le> n \<and> n \<le> 90) \<or> (97 \<le> n \<and> n \<le> 122)) \<or> c \<in> set ''_.@+-''"

definition separator :: "char \<Rightarrow> bool" where
  "separator c \<longleftrightarrow> c = CHR ''/'' \<or> c = CHR '':''"

fun target_words :: "string \<Rightarrow> string list" where
  "target_words [] = [[]]"
| "target_words (c # cs) =
     (if separator c then [] # target_words cs
      else (case target_words cs of [] \<Rightarrow> [[c]] | w # ws \<Rightarrow> (c # w) # ws))"

text \<open>
  The pattern \<open>[\w.@+-]+(?:[/:][\w.@+-]+)*\<close> matches the whole text exactly when each word between
  separators is a non-empty run of its characters.
\<close>

definition target_pattern :: "string \<Rightarrow> bool" where
  "target_pattern t \<longleftrightarrow> list_all (\<lambda>w. w \<noteq> [] \<and> list_all target_char w) (target_words t)"

definition named_target :: "string \<Rightarrow> bool" where
  "named_target t \<longleftrightarrow>
     length t \<le> LONGEST \<and> target_pattern t \<and> ''.'' \<notin> set (target_words t) \<and> ''..'' \<notin> set (target_words t)"

definition target_of :: "string \<Rightarrow> fault + string" where
  "target_of t =
     (if named_target t then Inr t
      else Inl (ValueError (repr_text t @ '' is no target: words of letters, digits and `_.@+-` joined by `/` or `:`, '' @
        ''no `.` or `..` among them, at most '' @ nat_text LONGEST @ '' characters'')))"

definition scope_of :: "string \<Rightarrow> fault + string" where
  "scope_of t =
     (let base = removesuffix ''*'' t in
      if base = t then target_of t
      else if \<not> (suffix ''/'' base \<or> suffix '':'' base)
      then Inl (ValueError (repr_text t @ '' is no scope: `*` only ends one, right after `/` or `:`''))
      else (case target_of (butlast base) of Inl e \<Rightarrow> Inl e | Inr _ \<Rightarrow> Inr t))"


section \<open>Grants\<close>

record grant =
  gr_act :: act
  gr_scope :: string
  gr_granted :: int
  gr_until :: int
  gr_ask :: string

record card =
  cd_provider :: string
  cd_usd :: rat
  cd_declared :: int

record declined =
  dc_ask :: string
  dc_at :: int

record grants =
  gs_cards :: "card list"
  gs_declined :: "declined list"
  gs_grants :: "grant list"

definition no_grants :: grants where
  "no_grants = \<lparr>gs_cards = [], gs_declined = [], gs_grants = []\<rparr>"

text \<open>Building a grant runs its validators: the scope's, then that it ends after it begins.\<close>

definition make_grant ::
  "(int \<Rightarrow> string) \<Rightarrow> act \<Rightarrow> string \<Rightarrow> int \<Rightarrow> int \<Rightarrow> string \<Rightarrow> fault + grant" where
  "make_grant shown a scope granted until ask =
     (case scope_of scope of
        Inl e \<Rightarrow> Inl e
      | Inr sc \<Rightarrow>
          if until \<le> granted
          then Inl (ValueError (''a grant until '' @ shown until @ '' ends before it was granted''))
          else Inr \<lparr>gr_act = a, gr_scope = sc, gr_granted = granted, gr_until = until, gr_ask = ask\<rparr>)"

definition make_card :: "string \<Rightarrow> rat \<Rightarrow> int \<Rightarrow> fault + card" where
  "make_card provider usd declared =
     (case target_of provider of
        Inl e \<Rightarrow> Inl e
      | Inr p \<Rightarrow>
          if usd \<le> 0 then Inl (ValueError ''Input should be greater than 0'')
          else Inr \<lparr>cd_provider = p, cd_usd = usd, cd_declared = declared\<rparr>)"

definition in_force :: "grant \<Rightarrow> int \<Rightarrow> bool" where
  "in_force g t \<longleftrightarrow> gr_granted g \<le> t \<and> t < gr_until g"

definition covers :: "grant \<Rightarrow> act \<Rightarrow> string \<Rightarrow> int \<Rightarrow> bool" where
  "covers g a target t \<longleftrightarrow>
     (let base = removesuffix ''*'' (gr_scope g);
          inside = (target = gr_scope g \<or> (base \<noteq> gr_scope g \<and> prefix base target))
      in a = gr_act g \<and> named_target target \<and> inside \<and> in_force g t)"

definition added :: "grant \<Rightarrow> grants \<Rightarrow> grants" where
  "added g gs = gs\<lparr>gs_grants := gs_grants gs @ [g]\<rparr>"

text \<open>\<open>max(xs, default=None)\<close>, and \<open>max\<close> by a key, which keeps the first of the greatest.\<close>

fun greatest :: "int list \<Rightarrow> int option" where
  "greatest [] = None"
| "greatest (x # xs) = Some (fold max xs x)"

fun greatest_by :: "('a \<Rightarrow> int) \<Rightarrow> 'a list \<Rightarrow> 'a option" where
  "greatest_by f [] = None"
| "greatest_by f (x # xs) = Some (fold (\<lambda>y m. if f m < f y then y else m) xs x)"

definition answered_at :: "string \<Rightarrow> grants \<Rightarrow> int option" where
  "answered_at ask gs =
     greatest (map gr_granted (filter (\<lambda>g. gr_ask g = ask) (gs_grants gs)) @
               map dc_at (filter (\<lambda>d. dc_ask d = ask) (gs_declined gs)))"

definition card_limit :: "string \<Rightarrow> grants \<Rightarrow> rat" where
  "card_limit provider gs =
     (case greatest_by cd_declared (filter (\<lambda>c. cd_provider c = provider) (gs_cards gs)) of
        None \<Rightarrow> 0 | Some c \<Rightarrow> cd_usd c)"

definition covering :: "act \<Rightarrow> string \<Rightarrow> int \<Rightarrow> grants \<Rightarrow> grant option" where
  "covering a target t gs = find (\<lambda>g. covers g a target t) (gs_grants gs)"

definition declaring :: "card \<Rightarrow> grants \<Rightarrow> grants" where
  "declaring c gs = gs\<lparr>gs_cards := gs_cards gs @ [c]\<rparr>"

definition declining :: "declined \<Rightarrow> grants \<Rightarrow> grants" where
  "declining d gs = gs\<lparr>gs_declined := gs_declined gs @ [d]\<rparr>"

definition live_grants :: "int \<Rightarrow> grants \<Rightarrow> grant list" where
  "live_grants t gs = sort_key gr_until (filter (\<lambda>g. in_force g t) (gs_grants gs))"

definition revoked :: "act \<Rightarrow> string \<Rightarrow> int \<Rightarrow> grants \<Rightarrow> grants" where
  "revoked a scope t gs =
     gs\<lparr>gs_grants := map (\<lambda>g. if gr_act g = a \<and> gr_scope g = scope \<and> in_force g t
                              then g\<lparr>gr_until := t\<rparr> else g) (gs_grants gs)\<rparr>"


section \<open>The owner's file\<close>

text \<open>What is at a path: nothing, a file the user may not open, a link, another fault, or a file.\<close>

record on_disk =
  od_regular :: bool
  od_uid :: nat
  od_mode :: nat
  od_text :: "string option"

datatype node = NoFile | NoPermission | SymLink | OpenFault string | OnDisk on_disk

record owner =
  ow_uid :: nat
  ow_path :: string
  ow_project :: string
  ow_shown :: "int \<Rightarrow> string"
  ow_dump :: "grants \<Rightarrow> string"
  ow_load :: "string \<Rightarrow> string + grants"

definition opened :: "'o owner_scheme \<Rightarrow> node \<Rightarrow> fault + on_disk option" where
  "opened w n =
     (case n of
        NoFile \<Rightarrow> Inr None
      | NoPermission \<Rightarrow> Inl (MissionError (ow_path w @ '' is not readable by its owner; `chmod 600` it''))
      | SymLink \<Rightarrow> Inl (MissionError (ow_path w @ '' is a link, never the owner'' @ CHR 0x27 # ''s own file''))
      | OpenFault m \<Rightarrow> Inl (OSError m)
      | OnDisk d \<Rightarrow> Inr (Some d))"

definition owner_text :: "'o owner_scheme \<Rightarrow> node \<Rightarrow> fault + string option" where
  "owner_text w n =
     (case opened w n of
        Inl e \<Rightarrow> Inl e
      | Inr None \<Rightarrow> Inr None
      | Inr (Some d) \<Rightarrow>
          if \<not> od_regular d \<or> od_uid d \<noteq> ow_uid w
          then Inl (MissionError (ow_path w @ '' is not the owner'' @ CHR 0x27 # ''s own file''))
          else if od_mode d AND 0x3F \<noteq> 0
          then Inl (ExposedFile (ow_path w @ '' is open to others; `chmod 600` it, then check it''))
          else (case od_text d of
                  None \<Rightarrow> Inl (CorruptFile (ow_path w @ '' holds no text; move it aside, then write it anew''))
                | Some t \<Rightarrow> Inr (Some t)))"

definition read_grants :: "'o owner_scheme \<Rightarrow> node \<Rightarrow> fault + grants" where
  "read_grants w n =
     (case owner_text w n of
        Inl e \<Rightarrow> Inl e
      | Inr None \<Rightarrow> Inr no_grants
      | Inr (Some t) \<Rightarrow>
          (case ow_load w t of
             Inl m \<Rightarrow> Inl (CorruptFile (ow_path w @ '' is no grants file ('' @ m @
               ''); move it aside, then grant again''))
           | Inr gs \<Rightarrow> Inr gs))"

text \<open>Who types a command (\<open>render/terminal.py\<close>), and the refusal of anyone but the owner.\<close>

record terminal =
  tm_agent :: bool
  tm_marked :: bool
  tm_interactive :: bool

definition refuse_agents :: "'o owner_scheme \<Rightarrow> terminal \<Rightarrow> string \<Rightarrow> fault + unit" where
  "refuse_agents w tm command =
     (if tm_agent tm \<or> tm_marked tm \<or> \<not> tm_interactive tm
      then Inl (MissionError (CHR 0x60 # ow_project w @ '' '' @ command @
        ''` is the owner'' @ CHR 0x27 # ''s act and refuses unless the owner types it at '' @
        ''a terminal, never through an agent; run it from your own terminal''))
      else Inr ())"

definition written :: "'o owner_scheme \<Rightarrow> string \<Rightarrow> node" where
  "written w t = OnDisk \<lparr>od_regular = True, od_uid = ow_uid w, od_mode = 0x180, od_text = Some t\<rparr>"

definition changed_grants ::
  "'o owner_scheme \<Rightarrow> terminal \<Rightarrow> string \<Rightarrow> (grants \<Rightarrow> grants) \<Rightarrow> (node, grants) comp" where
  "changed_grants w tm command f =
     andThen (returning (refuse_agents w tm command)) (\<lambda>_.
     andThen (reading (read_grants w)) (\<lambda>r.
     andThen (returning r) (\<lambda>gs.
     andThen (changing (\<lambda>_. written w (ow_dump w (f gs)))) (\<lambda>_.
     ret (f gs)))))"

end
