(* ===== verification/Asks.thy ===== *)
theory Asks
  imports Grants "HOL-Library.AList"
begin

text \<open>
  Asks (\<open>policy/asks.py\<close>), the check of a push (\<open>policy/warden.py\<close>) and the owner's verbs of leave
  (\<open>verbs/serve/asks.py\<close>). An act no grant covers is filed as a line of the spool, which the
  collect pass moves into the lake; it waits until the owner answers it. Only the owner's verbs
  change the grants file. The id uuid5 mints from a text, the name of this process's spool file,
  and whether another writer holds it, are parameters.
\<close>

section \<open>Asks and their lines\<close>

definition ASK_EVENT :: string where "ASK_EVENT = ''mb.policy.ask''"
definition ASK_ACT :: string where "ASK_ACT = ''mb.ask.act''"
definition ASK_TARGET :: string where "ASK_TARGET = ''mb.ask.target''"
definition LONGEST_GRANT_HOURS :: rat where "LONGEST_GRANT_HOURS = 24 * 365"

record ask =
  ak_act :: act
  ak_target :: string
  ak_why :: string
  ak_at :: int

text \<open>Unicode's categories C below U+0100: the controls and the soft hyphen.\<close>

definition control_char :: "char \<Rightarrow> bool" where
  "control_char c \<longleftrightarrow> (let n = of_char c :: nat in n < 32 \<or> (127 \<le> n \<and> n < 160) \<or> n = 173)"

definition printable :: "string \<Rightarrow> fault + string" where
  "printable t =
     (let held = sort (remdups (filter control_char t)) in
      if held \<noteq> []
      then Inl (ValueError (''the why holds the characters '' @ repr_text held @ '', which could redraw a terminal''))
      else Inr t)"

definition make_ask :: "act \<Rightarrow> string \<Rightarrow> string \<Rightarrow> int \<Rightarrow> fault + ask" where
  "make_ask a target why t =
     (case target_of target of
        Inl e \<Rightarrow> Inl e
      | Inr tg \<Rightarrow>
          (case printable why of
             Inl e \<Rightarrow> Inl e
           | Inr wh \<Rightarrow> Inr \<lparr>ak_act = a, ak_target = tg, ak_why = wh, ak_at = t\<rparr>))"

text \<open>One line as the spool and the lake give it, and the ask it carries, if it is one.\<close>

type_synonym line = "int \<times> string \<times> payload"

definition ask_of :: "line \<Rightarrow> ask option" where
  "ask_of = (\<lambda>(t, body, attributes).
     (case (map_of attributes ASK_ACT, map_of attributes ASK_TARGET) of
        (Some (JStr a), Some (JStr target)) \<Rightarrow>
          (case act_of a of
             None \<Rightarrow> None
           | Some x \<Rightarrow> (case make_ask x target body t of Inl _ \<Rightarrow> None | Inr k \<Rightarrow> Some k))
      | _ \<Rightarrow> None))"

record spooled =
  sl_name :: string
  sl_at :: int
  sl_body :: string
  sl_attributes :: payload

definition ask_event :: "ask \<Rightarrow> spooled" where
  "ask_event k =
     \<lparr>sl_name = ASK_EVENT, sl_at = ak_at k, sl_body = ak_why k,
      sl_attributes = [(ASK_ACT, JStr (act_text (ak_act k))), (ASK_TARGET, JStr (ak_target k))]\<rparr>"

record lake_row =
  lr_asked :: int
  lr_why :: "string option"
  lr_act :: "string option"
  lr_target :: "string option"

text \<open>
  A workspace: the grants file, the spool files by name (a file holding a line that is no event
  reads as \<open>None\<close>), and the rows of the lake's view, \<open>None\<close> while no sink has made the lake.
\<close>

record workspace =
  wk_file :: node
  wk_spool :: "(string, spooled list option) dict"
  wk_rows :: "lake_row list option"

record leaving = owner +
  lv_mint :: "string \<Rightarrow> string"
  lv_spool_file :: string
  lv_busy :: bool
  lv_carded :: "string list"

definition ask_id :: "'o leaving_scheme \<Rightarrow> ask \<Rightarrow> string" where
  "ask_id w k = lv_mint w (act_text (ak_act k) @ '' '' @ ak_target k)"

definition policy_file :: "string \<Rightarrow> bool" where
  "policy_file name \<longleftrightarrow> prefix ''policy-'' name \<and> suffix ''.jsonl'' name \<and> length ''policy-.jsonl'' \<le> length name"

definition spool_lines :: "(string, spooled list option) dict \<Rightarrow> line list" where
  "spool_lines spool =
     concat (map (\<lambda>(name, events). case events of
                    None \<Rightarrow> []
                  | Some es \<Rightarrow> map (\<lambda>e. (sl_at e, sl_body e, sl_attributes e)) (filter (\<lambda>e. sl_name e = ASK_EVENT) es))
       (sort_key fst (filter (\<lambda>(name, _). policy_file name) spool)))"

definition row_line :: "lake_row \<Rightarrow> line" where
  "row_line r =
     (lr_asked r, (case lr_why r of None \<Rightarrow> [] | Some t \<Rightarrow> t),
      (case lr_act r of None \<Rightarrow> [] | Some a \<Rightarrow> [(ASK_ACT, JStr a)]) @
      (case lr_target r of None \<Rightarrow> [] | Some t \<Rightarrow> [(ASK_TARGET, JStr t)]))"

definition ask_lines :: "'s workspace_scheme \<Rightarrow> line list" where
  "ask_lines s = spool_lines (wk_spool s) @ (case wk_rows s of None \<Rightarrow> [] | Some rows \<Rightarrow> map row_line rows)"

definition keep_latest :: "'o leaving_scheme \<Rightarrow> line \<Rightarrow> (string, ask) dict \<Rightarrow> (string, ask) dict" where
  "keep_latest w l found =
     (case ask_of l of
        None \<Rightarrow> found
      | Some k \<Rightarrow>
          (case map_of found (ask_id w k) of
             None \<Rightarrow> AList.update (ask_id w k) k found
           | Some known \<Rightarrow> if ak_at known < ak_at k then AList.update (ask_id w k) k found else found))"

definition filed :: "'o leaving_scheme \<Rightarrow> 's workspace_scheme \<Rightarrow> (string, ask) dict" where
  "filed w s = fold (keep_latest w) (ask_lines s) []"

definition waits :: "'o leaving_scheme \<Rightarrow> grants \<Rightarrow> int \<Rightarrow> ask \<Rightarrow> bool" where
  "waits w gs t k \<longleftrightarrow>
     (case answered_at (ask_id w k) gs of None \<Rightarrow> True | Some a \<Rightarrow> a < ak_at k) \<and>
     covering (ak_act k) (ak_target k) t gs = None"

definition pending_asks :: "'o leaving_scheme \<Rightarrow> grants \<Rightarrow> int \<Rightarrow> 's workspace_scheme \<Rightarrow> ask list" where
  "pending_asks w gs t s = sort_key ak_at (filter (waits w gs t) (map snd (filed w s)))"

text \<open>Appending to this process's spool file; a file that does not read stays one.\<close>

definition spool_append :: "'o leaving_scheme \<Rightarrow> spooled \<Rightarrow> ('s workspace_scheme, unit) comp" where
  "spool_append w e =
     (if lv_busy w then raising (MissionError (lv_spool_file w @ '' already has a writer''))
      else changing (\<lambda>s. s\<lparr>wk_spool := AList.update (lv_spool_file w)
             (case map_of (wk_spool s) (lv_spool_file w) of
                None \<Rightarrow> Some [e] | Some None \<Rightarrow> None | Some (Some es) \<Rightarrow> Some (es @ [e])) (wk_spool s)\<rparr>))"

definition file_ask :: "'o leaving_scheme \<Rightarrow> ask \<Rightarrow> grants \<Rightarrow> ('s workspace_scheme, ask) comp" where
  "file_ask w k gs =
     andThen (reading (pending_asks w gs (ak_at k))) (\<lambda>pending.
       case map_of (rev (map (\<lambda>known. (ask_id w known, known)) pending)) (ask_id w k) of
         Some waiting \<Rightarrow> ret waiting
       | None \<Rightarrow> andThen (spool_append w (ask_event k)) (\<lambda>_. ret k))"


section \<open>The warden's check\<close>

definition allowed ::
  "'o leaving_scheme \<Rightarrow> act \<Rightarrow> string \<Rightarrow> string \<Rightarrow> int \<Rightarrow> ('s workspace_scheme, unit) comp" where
  "allowed w a target why t =
     (case make_ask a target why t of
        Inl e \<Rightarrow> raising (MissionError (act_text a @ '' '' @ repr_text target @ '': '' @ fault_text e))
      | Inr k \<Rightarrow>
          andThen (reading (\<lambda>s. read_grants w (wk_file s))) (\<lambda>r.
          andThen (returning r) (\<lambda>gs.
            if covering a target t gs \<noteq> None then ret ()
            else andThen (file_ask w k gs) (\<lambda>kept.
              let short = take 8 (ask_id w kept) in
              raising (MissionError (why @ ''; asked the owner as '' @ short @ '', which `'' @ ow_project w @
                '' serve answer '' @ short @ ''` grants from a terminal (`'' @ ow_project w @
                '' serve asks` lists every ask)''))))))"

definition push :: "'o leaving_scheme \<Rightarrow> string \<Rightarrow> int \<Rightarrow> ('s workspace_scheme, unit) comp" where
  "push w target t = allowed w A_PUSH target (''no live grant covers push '' @ target) t"


section \<open>The owner's verbs\<close>

text \<open>\<open>timedelta(hours=h)\<close> keeps whole microseconds, halves to even.\<close>

definition round_even :: "rat \<Rightarrow> int" where
  "round_even x =
     (let f = \<lfloor>x\<rfloor>; d = x - of_int f in
      if d < 1 / 2 then f else if 1 / 2 < d then f + 1 else if even f then f else f + 1)"

definition lasting :: "rat \<Rightarrow> fault + int" where
  "lasting hours =
     (let dur = round_even (hours * 3600000000) in
      if 0 < hours \<and> hours \<le> LONGEST_GRANT_HOURS \<and> dur \<noteq> 0 then Inr dur
      else Inl (MissionError ''give --hours above 0 and at most 8760, a year''))"

definition changing_file ::
  "'o owner_scheme \<Rightarrow> terminal \<Rightarrow> string \<Rightarrow> (grants \<Rightarrow> grants) \<Rightarrow> ('s workspace_scheme, grants) comp" where
  "changing_file w tm command f =
     (\<lambda>s. case changed_grants w tm command f (wk_file s) of (r, n) \<Rightarrow> (r, s\<lparr>wk_file := n\<rparr>))"

definition answer_ask ::
  "'o leaving_scheme \<Rightarrow> terminal \<Rightarrow> string \<Rightarrow> rat \<Rightarrow> bool \<Rightarrow> int \<Rightarrow> ('s workspace_scheme, unit) comp" where
  "answer_ask w tm typed hours decline t =
     andThen (reading (\<lambda>s. read_grants w (wk_file s))) (\<lambda>r.
     andThen (returning r) (\<lambda>gs.
     andThen (reading (\<lambda>s. filter (\<lambda>k. prefix typed (ask_id w k)) (pending_asks w gs t s))) (\<lambda>found.
       case found of
         [chosen] \<Rightarrow>
           if decline
           then andThen (changing_file w tm (''serve answer '' @ typed)
                  (declining \<lparr>dc_ask = ask_id w chosen, dc_at = t\<rparr>)) (\<lambda>_. ret ())
           else andThen (returning (lasting hours)) (\<lambda>dur.
                andThen (returning (make_grant (ow_shown w) (ak_act chosen) (ak_target chosen) t (t + dur) (ask_id w chosen))) (\<lambda>g.
                andThen (changing_file w tm (''serve answer '' @ typed) (added g)) (\<lambda>_. ret ())))
       | _ \<Rightarrow> raising (MissionError (nat_text (length found) @ '' waiting asks start with '' @ repr_text typed @
                ''; `'' @ ow_project w @ '' serve asks` lists them'')))))"

record leave =
  le_hours :: rat
  le_revoke :: bool
  le_usd :: rat

definition card_of :: "'o leaving_scheme \<Rightarrow> string \<Rightarrow> leave \<Rightarrow> int \<Rightarrow> fault + card" where
  "card_of w provider lv t =
     (if le_revoke lv then Inl (MissionError (''a card'' @ CHR 0x27 # ''s limit is declared anew, never revoked; give --usd''))
      else if provider \<notin> set (lv_carded w)
      then Inl (MissionError (provider @ '' bills no card; the providers that do are '' @ repr (JList (map JStr (lv_carded w)))))
      else (case make_card provider (le_usd lv) t of
              Inl e \<Rightarrow> Inl (MissionError (''a card'' @ CHR 0x27 # ''s limit is --usd above 0: '' @ fault_text e))
            | Inr c \<Rightarrow> Inr c))"

definition granted_of :: "'o leaving_scheme \<Rightarrow> act \<Rightarrow> string \<Rightarrow> rat \<Rightarrow> int \<Rightarrow> fault + grant" where
  "granted_of w a scope hours t =
     (case lasting hours of
        Inl e \<Rightarrow> Inl e
      | Inr dur \<Rightarrow>
          (case make_grant (ow_shown w) a scope t (t + dur) [] of
             Inl e \<Rightarrow> Inl (MissionError (fault_text e)) | Inr g \<Rightarrow> Inr g))"

text \<open>\<open>serve grant\<close> with an act; \<open>usd_text\<close> prints an amount as the command names it.\<close>

definition grant_act ::
  "'o leaving_scheme \<Rightarrow> (rat \<Rightarrow> string) \<Rightarrow> terminal \<Rightarrow> act \<Rightarrow> string \<Rightarrow> leave \<Rightarrow> int \<Rightarrow> ('s workspace_scheme, unit) comp" where
  "grant_act w usd_text tm a scope lv t =
     (if scope = [] then raising (MissionError (''name what a '' @ act_text a @ '' grant covers, a target or a `prefix/*` scope''))
      else
        let command = ''serve grant '' @ act_text a @ '' '' @ scope in
        if a = A_CARD
        then andThen (returning (card_of w scope lv t)) (\<lambda>c.
             andThen (changing_file w tm (command @ '' --usd '' @ usd_text (cd_usd c)) (declaring c)) (\<lambda>_. ret ()))
        else if le_revoke lv
        then andThen (changing_file w tm command (revoked a scope t)) (\<lambda>_. ret ())
        else andThen (returning (granted_of w a scope (le_hours lv) t)) (\<lambda>g.
             andThen (changing_file w tm command (added g)) (\<lambda>_. ret ())))"

end
