(* ===== verification/Globs.thy ===== *)
theory Globs
  imports Prelude
begin

text \<open>
  \<open>fnmatch.fnmatchcase\<close>, which the batch selection (\<open>batch/spec.py\<close>) and the bound on an agent
  child's rules (\<open>policy/enforcers.py\<close>) match names with: \<open>*\<close> any text, \<open>?\<close> any character, \<open>[seq]\<close>
  and \<open>[!seq]\<close> a character of a set, everything else itself; an unclosed bracket is itself.
\<close>

text \<open>The text of a set and what follows its bracket; the first character may be the bracket itself.\<close>

fun until_bracket :: "string \<Rightarrow> (string \<times> string) option" where
  "until_bracket [] = None"
| "until_bracket (c # cs) =
     (if c = CHR '']'' then Some ([], cs) else map_option (\<lambda>(a, b). (c # a, b)) (until_bracket cs))"

definition bracket_set :: "string \<Rightarrow> (string \<times> string) option" where
  "bracket_set p =
     (let bang = take 1 p = ''!''; q = (if bang then drop 1 p else p);
          close = take 1 q = '']''; r = (if close then drop 1 q else q)
      in map_option (\<lambda>(a, b). ((if bang then ''!'' else []) @ (if close then '']'' else []) @ a, b)) (until_bracket r))"

fun in_set :: "string \<Rightarrow> char \<Rightarrow> bool" where
  "in_set [] c = False"
| "in_set (a # d # b # cs) c =
     (if d = CHR ''-'' then (a \<le> c \<and> c \<le> b) \<or> in_set cs c else a = c \<or> in_set (d # b # cs) c)"
| "in_set (a # cs) c = (a = c \<or> in_set cs c)"

definition set_matches :: "string \<Rightarrow> char \<Rightarrow> bool" where
  "set_matches body c = (if take 1 body = ''!'' then \<not> in_set (drop 1 body) c else in_set body c)"

lemma until_bracket_shorter: "until_bracket p = Some (a, b) \<Longrightarrow> length b < length p"
  by (induction p arbitrary: a) (force split: if_splits)+

lemma bracket_set_shorter: "bracket_set p = Some (a, b) \<Longrightarrow> length b < length p"
  by (auto simp: bracket_set_def Let_def dest!: until_bracket_shorter split: if_splits)

function fnmatch :: "string \<Rightarrow> string \<Rightarrow> bool" where
  "fnmatch [] s = (s = [])"
| "fnmatch (p # ps) s =
     (if p = CHR ''*'' then fnmatch ps s \<or> (case s of [] \<Rightarrow> False | _ # cs \<Rightarrow> fnmatch (p # ps) cs)
      else (case s of
              [] \<Rightarrow> False
            | c # cs \<Rightarrow>
                if p = CHR ''?'' then fnmatch ps cs
                else if p = CHR ''['' then
                  (case bracket_set ps of
                     None \<Rightarrow> c = p \<and> fnmatch ps cs
                   | Some (body, rest) \<Rightarrow> set_matches body c \<and> fnmatch rest cs)
                else c = p \<and> fnmatch ps cs))"
  by pat_completeness auto

termination
  by (relation "measure (\<lambda>(p, s). length p + length s)") (auto dest: bracket_set_shorter)

text \<open>A name without a pattern's characters matches itself alone.\<close>

lemma fnmatch_plain:
  "list_all (\<lambda>c. c \<notin> set ''*?['') p \<Longrightarrow> fnmatch p s \<longleftrightarrow> s = p"
  by (induction p arbitrary: s) (auto split: list.split)

end
