(* ===== verification/Enforcers.thy ===== *)
theory Enforcers
  imports Asks Globs
begin

text \<open>
  Whether each agent child is bounded by its harness (\<open>policy/enforcers.py\<close>, the launch check of
  \<open>policy/warden.py\<close>): the flags its command must carry, the options that would lift them however
  they are spelled, and the child's own settings file with its denials. How pydantic reads that
  file's JSON is a parameter; the rule that no allow may run past the denials is modelled.
\<close>

section \<open>Enforcers\<close>

record enforcer =
  en_child :: string
  en_flags :: "string list list"
  en_config :: "string list"
  en_refused :: "string list"
  en_settings :: string
  en_denies :: "string list"

definition CODEX_FLAGS :: "string list list" where
  "CODEX_FLAGS = [[''-c'', ''approval_policy=on-request''], [''-c'', ''sandbox_mode=workspace-write'']]"

definition CLAUDE_SETTINGS :: string where "CLAUDE_SETTINGS = ''claude.json''"

definition UNBOUNDED :: "string list" where
  "UNBOUNDED = [''codex exec'', ''opencode run'', ''script -q /dev/null'', ''env -u CLAUDECODE'', ''sh -c'', ''bash -c'']"

definition KEPT :: "string list" where
  "KEPT = concat (map (\<lambda>kept. map (\<lambda>tool. tool @ ''(~/.config/mainboard/'' @ kept @ ''/**)'') [''Read'', ''Edit'', ''Write''])
     [''grants'', ''serve''])"

definition ENFORCERS :: "enforcer list" where
  "ENFORCERS =
     [\<lparr>en_child = ''codex'', en_flags = CODEX_FLAGS, en_config = [''-c'', ''--config''],
       en_refused = [''--dangerously-bypass-approvals-and-sandbox'', ''--yolo'', ''-s'', ''--sandbox'', ''-a'', ''--ask-for-approval''],
       en_settings = [], en_denies = []\<rparr>,
      \<lparr>en_child = ''claude'', en_flags = [], en_config = [],
       en_refused = [''--dangerously-skip-permissions'', ''--allow-dangerously-skip-permissions'', ''--permission-mode'',
         ''--allowedTools'', ''--allowed-tools''],
       en_settings = CLAUDE_SETTINGS,
       en_denies = [''Bash(codex exec*)'', ''Bash(opencode run*)'', ''Read(./.env)'', ''Read(./.mb/serve/**)'', ''Read(~/.ssh/**)''] @ KEPT\<rparr>]"


section \<open>A command's options\<close>

definition carries :: "string list \<Rightarrow> string list \<Rightarrow> bool" where
  "carries command run \<longleftrightarrow>
     list_ex (\<lambda>i. take (length run) (drop i command) = run) [0..<Suc (length command) - length run]"

definition spelled :: "string \<Rightarrow> string \<times> string" where
  "spelled argument =
     (if prefix ''--'' argument then (case partition_at CHR ''='' argument of (a, _, b) \<Rightarrow> (a, b))
      else (take 2 argument, drop 2 argument))"

text \<open>\<open>s.strip("*")\<close> and \<open>s.strip("\"'")\<close>: the characters of \<open>cs\<close> off both ends.\<close>

definition strip_chars :: "string \<Rightarrow> string \<Rightarrow> string" where
  "strip_chars cs s = rev (dropWhile (\<lambda>c. c \<in> set cs) (rev (dropWhile (\<lambda>c. c \<in> set cs) s)))"

definition resets :: "string \<Rightarrow> (string, string) dict \<Rightarrow> bool" where
  "resets setting enforced =
     (case partition_at CHR ''='' setting of (k, _, v) \<Rightarrow>
        case map_of enforced (strip k) of
          None \<Rightarrow> False
        | Some bound \<Rightarrow> strip_chars [CHR 0x22, CHR 0x27] (strip v) \<noteq> bound)"

definition enforced_keys :: "enforcer \<Rightarrow> (string, string) dict" where
  "enforced_keys e =
     fold (\<lambda>run d. case run of
             opt # value # _ \<Rightarrow>
               if opt \<in> set (en_config e) then (case partition_at CHR ''='' value of (k, _, v) \<Rightarrow> AList.update k v d) else d
           | _ \<Rightarrow> d) (en_flags e) []"

definition lifts :: "enforcer \<Rightarrow> string \<Rightarrow> string \<Rightarrow> string list" where
  "lifts e argument following =
     (case spelled argument of (opt, glued) \<Rightarrow>
        let value = (if glued \<noteq> [] then glued else following) in
        if opt \<in> set (en_refused e) then [''the bound `'' @ argument @ ''` lifts'']
        else if opt \<in> set (en_config e) \<and> resets value (enforced_keys e)
        then [''the bound `'' @ opt @ '' '' @ value @ ''` lifts''] else [])"

definition loosened :: "enforcer \<Rightarrow> string list \<Rightarrow> string list" where
  "loosened e command = concat (map (\<lambda>(argument, following). lifts e argument following) (zip command (tl command @ [[]])))"


section \<open>The child's settings\<close>

definition unbounded :: "string \<Rightarrow> bool" where
  "unbounded rule =
     (if rule = ''Bash'' then True
      else if \<not> (prefix ''Bash('' rule \<and> suffix '')'' rule) then False
      else
        let inner = removesuffix '')'' (removeprefix ''Bash('' rule);
            pattern = (if suffix '':*'' inner then removesuffix '':*'' inner @ ''*'' else inner)
        in strip_chars ''*'' pattern = [] \<or> list_ex (\<lambda>run. fnmatch pattern run) UNBOUNDED)"

text \<open>
  A child settings file as pydantic reads it: its rules, and what is wrong with a field after
  \<open>allow\<close>, if anything is; \<open>Inl\<close> for a text it refuses before.
\<close>

record permissions =
  pm_allow :: "string list"
  pm_deny :: "string list"
  pm_fault :: "string option"

record enforcing = leaving +
  ef_settings_path :: "string \<Rightarrow> string"
  ef_settings_node :: "string \<Rightarrow> node"
  ef_settings_load :: "string \<Rightarrow> string + permissions"

definition child_denials :: "'o enforcing_scheme \<Rightarrow> string \<Rightarrow> string + string list" where
  "child_denials w t =
     (case ef_settings_load w t of
        Inl m \<Rightarrow> Inl m
      | Inr pm \<Rightarrow>
          let loose = filter unbounded (pm_allow pm) in
          if loose \<noteq> []
          then Inl (''permissions.allow: it allows '' @ join_with '', '' loose @ '', which runs past every denial'')
          else (case pm_fault pm of Some m \<Rightarrow> Inl m | None \<Rightarrow> Inr (pm_deny pm)))"

definition settings_lacking :: "'o enforcing_scheme \<Rightarrow> enforcer \<Rightarrow> fault + string list" where
  "settings_lacking w e =
     (let path = ef_settings_path w (en_settings e) in
      case owner_text (w\<lparr>ow_path := path\<rparr>) (ef_settings_node w (en_settings e)) of
        Inl f \<Rightarrow> if is_mission f then Inr [fault_text f] else Inl f
      | Inr None \<Rightarrow> Inr [''its settings file '' @ path]
      | Inr (Some t) \<Rightarrow>
          (case child_denials w t of
             Inl m \<Rightarrow> Inr [''a settings file it may run under ('' @ m @ '')'']
           | Inr denied \<Rightarrow> Inr (filter (\<lambda>rule. rule \<notin> set denied) (en_denies e))))"

definition enforcer_missing :: "'o enforcing_scheme \<Rightarrow> enforcer \<Rightarrow> string list \<Rightarrow> fault + string list" where
  "enforcer_missing w e command =
     (let runs = en_flags e @ (if en_settings e = [] then [] else [[''--settings'', ef_settings_path w (en_settings e)]]);
          lacking = map (join_with '' '') (filter (\<lambda>run. \<not> carries command run) runs)
      in case (if en_settings e = [] then Inr [] else settings_lacking w e) of
           Inl f \<Rightarrow> Inl f
         | Inr settings \<Rightarrow> Inr (lacking @ settings @ loosened e command))"


section \<open>The launch check\<close>

record service =
  se_command :: "string list"
  se_environment :: "(string \<times> string) list"
  se_every :: string
  se_name :: string
  se_off :: string
  se_stop :: int
  se_timeout :: int

fun launch_services :: "'o enforcing_scheme \<Rightarrow> enforcer \<Rightarrow> service list \<Rightarrow> fault + unit" where
  "launch_services w e [] = Inr ()"
| "launch_services w e (s # ss) =
     (case enforcer_missing w e (se_command s) of
        Inl f \<Rightarrow> Inl f
      | Inr [] \<Rightarrow> launch_services w e ss
      | Inr lacking \<Rightarrow> Inl (MissionError (''serve would start '' @ se_name s @ '' without '' @ join_with ''; '' lacking @
          '', its harness'' @ CHR 0x27 # ''s own bound on what it runs; give the child its enforcer first'')))"

fun launch_all :: "'o enforcing_scheme \<Rightarrow> service list \<Rightarrow> enforcer list \<Rightarrow> fault + unit" where
  "launch_all w services [] = Inr ()"
| "launch_all w services (e # es) =
     (case launch_services w e (filter (\<lambda>s. se_name s = en_child e \<and> se_off s = []) services) of
        Inl f \<Rightarrow> Inl f | Inr _ \<Rightarrow> launch_all w services es)"

definition launch :: "'o enforcing_scheme \<Rightarrow> service list \<Rightarrow> fault + unit" where
  "launch w services = launch_all w services ENFORCERS"

end
