(* ===== verification/Leave_Properties.thy ===== *)
theory Leave_Properties
  imports Asks "HOL-Library.Countable"
begin

text \<open>
  What the owner's leave promises: a grant covers exactly the targets its scope names, the owner's
  verbs keep the file readable, nothing an agent does widens what is allowed, and a refused act
  waits for an answer that grants exactly it.
\<close>

section \<open>Words of a target\<close>

lemma target_words_not_Nil [simp]: "target_words t \<noteq> []"
  by (cases t) (auto split: list.split)

lemma target_words_append:
  "separator c \<Longrightarrow> target_words (a @ c # b) = target_words a @ target_words b"
  by (induction a) (auto split: list.split)

lemma target_words_plain: "list_all (Not \<circ> separator) t \<Longrightarrow> target_words t = [t]"
  by (induction t) auto

lemma star_not_target: "\<not> named_target (t @ ''*'')"
proof -
  have "CHR ''*'' \<in> set (concat (target_words (t @ ''*'')))"
    by (induction t) (auto simp: separator_def split: list.split)
  moreover have "\<not> target_char CHR ''*''" by (simp add: target_char_def)
  ultimately show ?thesis by (fastforce simp: named_target_def target_pattern_def list_all_iff)
qed

lemma removesuffix_star:
  "removesuffix ''*'' t = (if suffix ''*'' t then butlast t else t)"
  by (simp add: removesuffix_def butlast_conv_take)

lemma scope_cases:
  assumes "scope_of t = Inr sc"
  obtains (exact) "sc = t" and "named_target t" and "\<not> suffix ''*'' t"
  | (below) b c where "sc = t" and "t = b @ [c, CHR ''*'']" and "separator c" and "named_target b"
proof (cases "suffix ''*'' t")
  case False
  with assms exact show ?thesis by (simp add: scope_of_def removesuffix_star target_of_def split: if_splits)
next
  case True
  then obtain u where t: "t = u @ ''*''" by (auto simp: suffix_def)
  with assms have "sc = t" and ends: "suffix ''/'' u \<or> suffix '':'' u" and "named_target (butlast u)"
    by (auto simp: scope_of_def removesuffix_star target_of_def split: if_splits)
  moreover from ends obtain c where "u = butlast u @ [c]" "separator c"
    by (auto simp: suffix_def separator_def)
  ultimately show ?thesis using below [of "butlast u" c] t by simp
qed

text \<open>
  The scope's own reading, on words: an exact scope names itself, a starred one every target whose
  words begin with the scope's words and go on.
\<close>

definition scope_names :: "string \<Rightarrow> string \<Rightarrow> bool" where
  "scope_names scope target \<longleftrightarrow>
     (if suffix ''*'' scope
      then prefix (butlast scope) target \<and>
        strict_prefix (target_words (butlast (butlast scope))) (target_words target)
      else target = scope)"

lemma covers_scope:
  assumes "make_grant shown a scope granted until ask = Inr g"
  shows "covers g a' target t \<longleftrightarrow>
    a' = a \<and> granted \<le> t \<and> t < until \<and> named_target target \<and> scope_names scope target"
proof -
  from assms obtain sc where sc: "scope_of scope = Inr sc"
    and g: "g = \<lparr>gr_act = a, gr_scope = sc, gr_granted = granted, gr_until = until, gr_ask = ask\<rparr>"
    by (auto simp: make_grant_def split: sum.splits if_splits)
  from sc show ?thesis
  proof (cases rule: scope_cases)
    case exact
    then show ?thesis by (auto simp: covers_def g removesuffix_star scope_names_def in_force_def)
  next
    case (below b c)
    have words: "strict_prefix (target_words b) (target_words (b @ c # r))" for r
      using below(3) by (auto simp: target_words_append strict_prefix_def)
    have star: "removesuffix ''*'' sc = b @ [c]" "suffix ''*'' sc" and len: "b @ [c] \<noteq> sc"
      using below by (simp_all add: removesuffix_star suffix_def butlast_append)
    have "scope_names scope target \<longleftrightarrow> prefix (b @ [c]) target"
      using below words by (auto simp: scope_names_def suffix_def butlast_append prefix_def)
    moreover have "\<not> named_target sc" using star_not_target [of "b @ [c]"] below by simp
    ultimately show ?thesis using star len by (auto simp: covers_def g in_force_def Let_def)
  qed
qed

lemma covering_iff: "covering a target t gs \<noteq> None \<longleftrightarrow> (\<exists>g \<in> set (gs_grants gs). covers g a target t)"
  by (auto simp: covering_def find_None_iff simp del: not_None_eq)

lemma revoked_grants:
  "gs_grants (revoked a scope t gs) =
     map (\<lambda>g. if gr_act g = a \<and> gr_scope g = scope \<and> in_force g t then g\<lparr>gr_until := t\<rparr> else g) (gs_grants gs)"
  by (simp add: revoked_def)

section \<open>Properties\<close>

text \<open>
  C7. A grant covers exactly what its scope names. For every grant the validators accept, the act,
  the target and the moment are covered if and only if the act is the very act, the moment lies from
  when it was granted up to its end, the target is a target (so none of its words is \<open>.\<close> or \<open>..\<close>),
  and the target is the scope itself or, under a starred scope, its words begin with the scope's
  words and go on below them. And no grant covers every target.
\<close>

theorem grant_covers_below:
  assumes "make_grant shown a scope granted until ask = Inr g"
  shows "(covers g a' target t \<longleftrightarrow>
      a' = a \<and> granted \<le> t \<and> t < until \<and> named_target target \<and> scope_names scope target) \<and>
    (\<exists>other. named_target other \<and> (\<forall>a' t. \<not> covers g a' other t))"
proof
  have one: "named_target x \<and> target_words x = [x]" if "x \<in> {''a'', ''b''}" for x
    using that by (auto simp: named_target_def target_pattern_def target_char_def separator_def LONGEST_def)
  have "\<not> scope_names scope ''a'' \<or> \<not> scope_names scope ''b''"
  proof (cases "suffix ''*'' scope")
    case True
    then show ?thesis
      using one [of "''a''"] by (auto simp: scope_names_def strict_prefix_def prefix_Cons)
  qed (auto simp: scope_names_def)
  with one show "\<exists>other. named_target other \<and> (\<forall>a' t. \<not> covers g a' other t)"
    unfolding covers_scope [OF assms] by blast
qed (rule covers_scope [OF assms])

theorem grant_covers_below_witness:
  "\<exists>g. make_grant (\<lambda>_. []) A_PUSH ''owner/repo:mb/*'' 0 10 [] = Inr g \<and>
     covers g A_PUSH ''owner/repo:mb/save'' 5 \<and> \<not> covers g A_PUSH ''owner/repo:mb-x'' 5 \<and>
     \<not> covers g A_PUSH ''owner/repo:mb/../main'' 5 \<and> \<not> covers g A_PUSH ''owner/repo:mb/save'' 10"
proof -
  define g where "g = \<lparr>gr_act = A_PUSH, gr_scope = ''owner/repo:mb/*'', gr_granted = 0, gr_until = 10, gr_ask = []\<rparr>"
  have g: "make_grant (\<lambda>_. []) A_PUSH ''owner/repo:mb/*'' 0 10 [] = Inr g" unfolding g_def by code_simp
  have "named_target ''owner/repo:mb/save'' \<and> scope_names ''owner/repo:mb/*'' ''owner/repo:mb/save''"
    "\<not> scope_names ''owner/repo:mb/*'' ''owner/repo:mb-x''" "\<not> named_target ''owner/repo:mb/../main''" by code_simp+
  then show ?thesis using g grant_covers_below [OF g] by auto
qed

text \<open>
  C34. A revocation ends exactly the grants it names. From the moment of a revocation on, an act on
  a target is covered if and only if a grant covers it that is of another act or scope or was not in
  force at that moment; before it, what was covered stays covered; refusals and cards stay.
\<close>

theorem revocation_ends_exactly:
  "(covering a' target t' (revoked a scope t gs) \<noteq> None \<longleftrightarrow>
      (\<exists>g. g \<in> set (gs_grants gs) \<and> covers g a' target t' \<and>
         \<not> (t \<le> t' \<and> gr_act g = a \<and> gr_scope g = scope \<and> in_force g t))) \<and>
   gs_cards (revoked a scope t gs) = gs_cards gs \<and> gs_declined (revoked a scope t gs) = gs_declined gs"
proof -
  let ?stopped = "\<lambda>g. if gr_act g = a \<and> gr_scope g = scope \<and> in_force g t then g\<lparr>gr_until := t\<rparr> else g"
  have "covers (?stopped g) a' target t' \<longleftrightarrow>
      covers g a' target t' \<and> \<not> (t \<le> t' \<and> gr_act g = a \<and> gr_scope g = scope \<and> in_force g t)" for g
    by (auto simp: covers_def in_force_def Let_def)
  moreover have "covering a' target t' (revoked a scope t gs) \<noteq> None \<longleftrightarrow>
      (\<exists>g \<in> set (gs_grants gs). covers (?stopped g) a' target t')"
    unfolding covering_iff revoked_grants set_map by (rule bex_simps(7))
  ultimately have "covering a' target t' (revoked a scope t gs) \<noteq> None \<longleftrightarrow>
      (\<exists>g. g \<in> set (gs_grants gs) \<and> covers g a' target t' \<and>
         \<not> (t \<le> t' \<and> gr_act g = a \<and> gr_scope g = scope \<and> in_force g t))" by simp blast
  then show ?thesis by (simp add: revoked_def)
qed

section \<open>The file stays readable\<close>

text \<open>What the validators accept, and what pydantic promises of writing and reading it.\<close>

definition valid_grants :: "grants \<Rightarrow> bool" where
  "valid_grants gs \<longleftrightarrow>
     list_all (\<lambda>g. scope_of (gr_scope g) = Inr (gr_scope g) \<and> gr_granted g < gr_until g) (gs_grants gs) \<and>
     list_all (\<lambda>c. named_target (cd_provider c) \<and> 0 < cd_usd c) (gs_cards gs)"

definition codec_law :: "'o owner_scheme \<Rightarrow> bool" where
  "codec_law w \<longleftrightarrow>
     (\<forall>gs. valid_grants gs \<longrightarrow> ow_load w (ow_dump w gs) = Inr gs) \<and>
     (\<forall>gs. \<not> valid_grants gs \<longrightarrow> (\<exists>m. ow_load w (ow_dump w gs) = Inl m)) \<and>
     (\<forall>t gs. ow_load w t = Inr gs \<longrightarrow> valid_grants gs)"

lemma read_valid: "codec_law w \<Longrightarrow> read_grants w n = Inr gs \<Longrightarrow> valid_grants gs"
  by (auto simp: read_grants_def codec_law_def no_grants_def valid_grants_def split: sum.splits option.splits)

lemma read_written:
  assumes "codec_law w"
  shows "valid_grants gs \<Longrightarrow> read_grants w (written w (ow_dump w gs)) = Inr gs"
    and "\<not> valid_grants gs \<Longrightarrow> \<exists>m. read_grants w (written w (ow_dump w gs)) = Inl (CorruptFile m)"
  using assms by (auto simp: read_grants_def owner_text_def opened_def written_def codec_law_def split: sum.split)

lemma scope_of_fixed: "scope_of t = Inr sc \<Longrightarrow> scope_of sc = Inr sc"
  by (frule scope_cases [where thesis = "sc = t"]) simp_all

lemma valid_changes:
  assumes "valid_grants gs"
  shows "make_grant shown a scope granted until ask = Inr g \<Longrightarrow> valid_grants (added g gs)"
    and "make_card provider usd t = Inr c \<Longrightarrow> valid_grants (declaring c gs)"
    and "valid_grants (declining d gs)"
  using assms
  by (auto simp: valid_grants_def added_def declaring_def declining_def make_grant_def make_card_def target_of_def
      split: sum.splits if_splits dest: scope_of_fixed)

lemma valid_revoked:
  assumes "valid_grants gs"
  shows "valid_grants (revoked a scope t gs) \<longleftrightarrow>
    \<not> (\<exists>g \<in> set (gs_grants gs). gr_act g = a \<and> gr_scope g = scope \<and> gr_granted g = t)"
proof -
  have "(let h = if gr_act g = a \<and> gr_scope g = scope \<and> in_force g t then g\<lparr>gr_until := t\<rparr> else g
         in scope_of (gr_scope h) = Inr (gr_scope h) \<and> gr_granted h < gr_until h) \<longleftrightarrow>
      \<not> (gr_act g = a \<and> gr_scope g = scope \<and> gr_granted g = t)" if "g \<in> set (gs_grants gs)" for g
    using assms that by (auto simp: valid_grants_def list_all_iff in_force_def)
  with assms show ?thesis
    unfolding valid_grants_def revoked_grants list_all_iff set_map ball_simps(9) Let_def
    by (auto simp: revoked_def)
qed

lemma changing_file_ok:
  assumes "changing_file w tm command f s = (r, s')"
  shows "(\<exists>e. r = Inl e \<and> s' = s) \<or>
    (\<exists>gs. \<not> tm_agent tm \<and> \<not> tm_marked tm \<and> tm_interactive tm \<and> read_grants w (wk_file s) = Inr gs \<and> r = Inr (f gs) \<and>
       s' = s\<lparr>wk_file := written w (ow_dump w (f gs))\<rparr>)"
proof -
  obtain x where "read_grants w (wk_file s) = x" by simp
  with assms show ?thesis
    by (cases x) (auto simp: changing_file_def changed_grants_def refuse_agents_def andThen_apply split: if_splits intro: sym)
qed

text \<open>
  C33. The owner's \<open>serve grant\<close> keeps the file readable, with one exception. After it returned, the
  file holds grants that pass their validators again, unless it revoked a grant at the very instant
  that grant was made: the grant then ends when it began, and reading the file is refused as corrupt.
\<close>

theorem grant_keeps_file:
  assumes "codec_law w" and "read_grants w (wk_file s) = Inr gs"
    and "grant_act w usd_text tm a scope lv t s = (Inr (), s')"
  shows "(if a \<noteq> A_CARD \<and> le_revoke lv \<and>
        (\<exists>g. g \<in> set (gs_grants gs) \<and> gr_act g = a \<and> gr_scope g = scope \<and> gr_granted g = t)
      then \<exists>m. read_grants w (wk_file s') = Inl (CorruptFile m)
      else \<exists>gs'. read_grants w (wk_file s') = Inr gs' \<and> valid_grants gs')"
proof -
  have valid: "valid_grants gs" using assms(1,2) by (rule read_valid)
  have kept: "wk_file s' = written w (ow_dump w (f gs))"
    if "andThen (changing_file w tm c f) (\<lambda>_. ret ()) s = (Inr (), s')" for f c
    using that assms(2) changing_file_ok [of w tm c f s, OF surjective_pairing]
    by (auto elim!: andThen_InrE)
  consider (card) c command where "a = A_CARD" and "make_card scope (le_usd lv) t = Inr c"
      and "andThen (changing_file w tm command (declaring c)) (\<lambda>_. ret ()) s = (Inr (), s')"
    | (revoke) "a \<noteq> A_CARD" and "le_revoke lv"
      and "andThen (changing_file w tm (''serve grant '' @ act_text a @ '' '' @ scope) (revoked a scope t)) (\<lambda>_. ret ()) s = (Inr (), s')"
    | (grant) g command dur where "a \<noteq> A_CARD" and "\<not> le_revoke lv"
      and "make_grant (ow_shown w) a scope t (t + dur) [] = Inr g"
      and "andThen (changing_file w tm command (added g)) (\<lambda>_. ret ()) s = (Inr (), s')"
    using assms(3)
    by (auto simp: grant_act_def Let_def card_of_def granted_of_def andThen_apply [of "returning _"]
        split: if_splits sum.splits)
  then show ?thesis
  proof cases
    case card
    with valid_changes(2) [OF valid card(2)] show ?thesis by (simp add: kept read_written [OF assms(1)])
  next
    case revoke
    with valid_revoked [OF valid, of a scope t] show ?thesis
      using read_written [OF assms(1), of "revoked a scope t gs"] by (auto simp: kept)
  next
    case grant
    with valid_changes(1) [OF valid grant(3)] show ?thesis by (simp add: kept read_written [OF assms(1)])
  qed
qed

section \<open>A concrete file format\<close>

text \<open>
  The grants are countable, so that there is a text for each: the format of the samples writes as
  many characters as the number of the grants, and reads back only grants that pass their validators.
\<close>

instance act :: countable
  by (rule countable_classI [of "\<lambda>a. case a of A_CARD \<Rightarrow> 0 | A_LAUNCH \<Rightarrow> 1 | A_PUSH \<Rightarrow> 2 | A_RENT \<Rightarrow> 3"])
    (auto split: act.splits)

instance grant_ext :: (countable) countable
  by (rule countable_classI [of "\<lambda>g. to_nat (gr_act g, gr_scope g, gr_granted g, gr_until g, gr_ask g, grant.more g)"])
    (simp add: grant.equality)

instance card_ext :: (countable) countable
  by (rule countable_classI [of "\<lambda>c. to_nat (cd_provider c, cd_usd c, cd_declared c, card.more c)"])
    (simp add: card.equality)

instance declined_ext :: (countable) countable
  by (rule countable_classI [of "\<lambda>d. to_nat (dc_ask d, dc_at d, declined.more d)"])
    (simp add: declined.equality)

instance grants_ext :: (countable) countable
  by (rule countable_classI [of "\<lambda>gs. to_nat (gs_cards gs, gs_declined gs, gs_grants gs, grants.more gs)"])
    (simp add: grants.equality)

definition sample_leaving :: leaving where
  "sample_leaving =
     \<lparr>ow_uid = 501, ow_path = ''grants.json'', ow_project = ''mb'', ow_shown = int_text,
      ow_dump = \<lambda>gs. replicate (to_nat gs) CHR ''x'',
      ow_load = \<lambda>t. (let gs = from_nat (length t) in
        if valid_grants gs \<and> to_nat gs = length t then Inr gs else Inl ''no grants''),
      lv_mint = id, lv_spool_file = ''policy-7.jsonl'', lv_busy = False, lv_carded = []\<rparr>"

definition sample_workspace :: workspace where
  "sample_workspace = \<lparr>wk_file = NoFile, wk_spool = [], wk_rows = None\<rparr>"

definition sample_terminal :: terminal where
  "sample_terminal = \<lparr>tm_agent = False, tm_marked = False, tm_interactive = True\<rparr>"

lemma sample_codec [simp]: "codec_law sample_leaving"
  by (auto simp: codec_law_def sample_leaving_def Let_def split: if_splits)

lemma sample_read [simp]: "read_grants sample_leaving (wk_file sample_workspace) = Inr no_grants"
  by (simp add: sample_workspace_def read_grants_def owner_text_def opened_def)

definition sample_grant :: grant where
  "sample_grant = \<lparr>gr_act = A_PUSH, gr_scope = ''repo:mb/*'', gr_granted = 0, gr_until = 3600000000, gr_ask = []\<rparr>"

lemma sample_granted:
  "grant_act sample_leaving f sample_terminal A_PUSH ''repo:mb/*'' \<lparr>le_hours = 1, le_revoke = False, le_usd = 0\<rparr> 0 sample_workspace =
     (Inr (), sample_workspace\<lparr>wk_file := written sample_leaving (ow_dump sample_leaving (added sample_grant no_grants))\<rparr>)"
proof -
  have "granted_of sample_leaving A_PUSH ''repo:mb/*'' 1 0 = Inr sample_grant"
  proof -
    have "lasting 1 = Inr 3600000000" by code_simp
    moreover have "make_grant g A_PUSH ''repo:mb/*'' 0 3600000000 [] = Inr sample_grant" for g
      unfolding sample_grant_def make_grant_def by code_simp
    ultimately show ?thesis by (simp add: granted_of_def)
  qed
  moreover have "read_grants sample_leaving NoFile = Inr no_grants"
    by (simp add: read_grants_def owner_text_def opened_def)
  ultimately show ?thesis
    by (simp add: grant_act_def changing_file_def changed_grants_def refuse_agents_def sample_terminal_def andThen_apply
        sample_workspace_def)
qed

lemma sample_valid: "valid_grants (added sample_grant no_grants)"
  by (rule valid_changes(1) [of _ int_text A_PUSH "''repo:mb/*''" 0 3600000000 "[]"])
    (simp_all add: valid_grants_def no_grants_def sample_grant_def make_grant_def, code_simp)

definition sample_leave :: "bool \<Rightarrow> leave" where
  "sample_leave revoke = \<lparr>le_hours = 1, le_revoke = revoke, le_usd = 0\<rparr>"

theorem grant_keeps_file_witness:
  "\<exists>gs m. let verb = \<lambda>revoke. grant_act sample_leaving (\<lambda>_. []) sample_terminal A_PUSH ''repo:mb/*'' (sample_leave revoke) 0;
            granted = snd (verb False sample_workspace); ended = snd (verb True granted)
    in read_grants sample_leaving (wk_file granted) = Inr gs \<and> valid_grants gs \<and>
       read_grants sample_leaving (wk_file ended) = Inl (CorruptFile m)"
proof -
  let ?verb = "\<lambda>revoke. grant_act sample_leaving (\<lambda>_. []) sample_terminal A_PUSH ''repo:mb/*'' (sample_leave revoke) 0"
  let ?one = "added sample_grant no_grants"
  define s where "s = sample_workspace\<lparr>wk_file := written sample_leaving (ow_dump sample_leaving ?one)\<rparr>"
  have first: "?verb False sample_workspace = (Inr (), s)"
    using sample_granted by (simp add: sample_leave_def s_def)
  have one: "read_grants sample_leaving (wk_file s) = Inr ?one"
    by (simp add: s_def read_written(1) [OF sample_codec sample_valid])
  then have "\<exists>t. ?verb True s = (Inr (), t)"
    by (auto simp: grant_act_def sample_leave_def changing_file_def changed_grants_def refuse_agents_def
        sample_terminal_def andThen_apply)
  then obtain t where last: "?verb True s = (Inr (), t)" by blast
  have "\<exists>m. read_grants sample_leaving (wk_file t) = Inl (CorruptFile m)"
    using grant_keeps_file [OF sample_codec one last]
    by (simp add: sample_leave_def added_def no_grants_def sample_grant_def)
  moreover have "\<exists>gs. read_grants sample_leaving (wk_file s) = Inr gs \<and> valid_grants gs"
    using grant_keeps_file [OF sample_codec sample_read first] by (simp add: sample_leave_def)
  ultimately show ?thesis by (simp add: first last Let_def)
qed

section \<open>What happens without the owner\<close>

definition owner_types :: "terminal \<Rightarrow> bool" where
  "owner_types tm \<longleftrightarrow> \<not> tm_agent tm \<and> \<not> tm_marked tm \<and> tm_interactive tm"

text \<open>
  What an unattended process may do: have an act checked, type the owner's verbs without being the
  owner at a terminal, and send or lose any telemetry, asks included.
\<close>

inductive unattended :: "'o leaving_scheme \<Rightarrow> 's workspace_scheme \<Rightarrow> 's workspace_scheme \<Rightarrow> bool" for w where
  checked: "allowed w a target why t s = (r, s') \<Longrightarrow> unattended w s s'"
| answered: "\<not> owner_types tm \<Longrightarrow> answer_ask w tm typed hours decline t s = (r, s') \<Longrightarrow> unattended w s s'"
| granted: "\<not> owner_types tm \<Longrightarrow> grant_act w usd_text tm a scope lv t s = (r, s') \<Longrightarrow> unattended w s s'"
| told: "wk_file s' = wk_file s \<Longrightarrow> unattended w s s'"

inductive_cases unattendedE: "unattended w s s'"

definition same_file :: "'s workspace_scheme \<Rightarrow> 's workspace_scheme \<Rightarrow> bool" where
  "same_file s t \<longleftrightarrow> wk_file t = wk_file s"

interpretation unchanged: step_preorder same_file
  by unfold_locales (simp_all add: same_file_def)

lemma unchanged_spool [steps]: "along same_file (spool_append w e)"
  by (simp add: spool_append_def along_def same_file_def)

lemma unchanged_file_ask [steps]: "along same_file (file_ask w k gs)"
  unfolding file_ask_def by (intro steps)

lemma unchanged_allowed [steps]: "along same_file (allowed w a target why t)"
  unfolding allowed_def Let_def by (intro steps)

lemma unchanged_refused:
  assumes "\<not> owner_types tm"
  shows "along same_file (changing_file w tm command f)"
proof (rule alongI)
  fix s :: "'s workspace_scheme"
  from assms show "same_file s (snd (changing_file w tm command f s))"
    using changing_file_ok [of w tm command f s, OF surjective_pairing] by (auto simp: same_file_def owner_types_def)
qed

lemma unchanged_answer: "\<not> owner_types tm \<Longrightarrow> along same_file (answer_ask w tm typed hours decline t)"
  unfolding answer_ask_def by (intro steps unchanged_refused)

lemma unchanged_grant: "\<not> owner_types tm \<Longrightarrow> along same_file (grant_act w f tm a scope lv t)"
  unfolding grant_act_def Let_def by (intro steps unchanged_refused)

lemma unattended_same_file: "unattended w s s' \<Longrightarrow> same_file s s'"
  by (erule unattendedE)
    (rule alongD [OF unchanged_allowed] alongD [OF unchanged_answer] alongD [OF unchanged_grant];
      assumption | simp add: same_file_def)+

lemma allowed_iff:
  "fst (allowed w a target why t s) = Inr () \<longleftrightarrow>
     (\<exists>k gs. make_ask a target why t = Inr k \<and> read_grants w (wk_file s) = Inr gs \<and> covering a target t gs \<noteq> None)"
proof -
  obtain q where "read_grants w (wk_file s) = q" by simp
  then show ?thesis
    by (cases q; cases "make_ask a target why t")
      (auto simp: allowed_def andThen_apply Let_def split: prod.split sum.split)
qed

text \<open>
  C6. Without the owner at a terminal, nothing gains leave. Whatever an unattended process does, in
  any order (acts checked, the owner's verbs typed through an agent, a harness or a pipe, telemetry
  sent or lost), the grants file is as it was, and the pushes that go ahead at any moment are exactly
  those that would have gone ahead before.
\<close>

theorem agents_gain_no_leave:
  assumes "(unattended w)\<^sup>*\<^sup>* s s'"
  shows "wk_file s' = wk_file s \<and>
    (fst (push w target t s') = Inr () \<longleftrightarrow> fst (push w target t s) = Inr ())"
proof -
  from assms have "same_file s s'"
    by induction (auto intro: unchanged.R_refl unchanged.R_trans dest: unattended_same_file)
  then show ?thesis by (simp add: push_def allowed_iff same_file_def)
qed

theorem agents_gain_no_leave_witness:
  "fst (push sample_leaving ''repo:mb/x'' 5 (snd (grant_act sample_leaving (\<lambda>_. [])
      \<lparr>tm_agent = False, tm_marked = True, tm_interactive = True\<rparr> A_PUSH ''repo:mb/*'' (sample_leave False) 0 sample_workspace))) \<noteq> Inr ()"
    (is "fst (push _ _ _ (snd (grant_act _ _ ?tm _ _ _ _ _))) \<noteq> _")
proof -
  let ?s = "snd (grant_act sample_leaving (\<lambda>_. []) ?tm A_PUSH ''repo:mb/*'' (sample_leave False) 0 sample_workspace)"
  have "unattended sample_leaving sample_workspace ?s"
    by (rule unattended.granted [OF _ surjective_pairing]) (simp add: owner_types_def)
  then have "(unattended sample_leaving)\<^sup>*\<^sup>* sample_workspace ?s" by (rule r_into_rtranclp)
  note agents_gain_no_leave [OF this, of "''repo:mb/x''" 5]
  moreover have "fst (push sample_leaving ''repo:mb/x'' 5 sample_workspace) \<noteq> Inr ()"
    by (simp add: push_def allowed_iff covering_def no_grants_def)
  ultimately show ?thesis by blast
qed

section \<open>Asks wait for an answer\<close>

interpretation asked: newest_per_key "\<lambda>k held. ak_at held < ak_at k" ak_at
  by unfold_locales auto

definition asks_in :: "'s workspace_scheme \<Rightarrow> ask list" where
  "asks_in s = concat (map (\<lambda>l. case ask_of l of None \<Rightarrow> [] | Some k \<Rightarrow> [k]) (ask_lines s))"

lemma filed_fold:
  "filed w s = fold (keep_better (\<lambda>k held. ak_at held < ak_at k)) (map (\<lambda>k. (ask_id w k, k)) (asks_in s)) []"
proof -
  have "fold (keep_latest w) ls d =
      fold (keep_better (\<lambda>k held. ak_at held < ak_at k))
        (map (\<lambda>k. (ask_id w k, k)) (concat (map (\<lambda>l. case ask_of l of None \<Rightarrow> [] | Some k \<Rightarrow> [k]) ls))) d" for ls d
    by (induction ls arbitrary: d) (auto simp: keep_latest_def keep_better_def split: option.split)
  then show ?thesis by (simp add: filed_def asks_in_def)
qed

lemma filed_source: "map_of (filed w s) i = Some k \<Longrightarrow> k \<in> set (asks_in s) \<and> ask_id w k = i"
  unfolding filed_fold using asked.keep_better_newest by fastforce

lemma filed_newest:
  assumes "k \<in> set (asks_in s)"
  shows "\<exists>found. map_of (filed w s) (ask_id w k) = Some found \<and> ak_at k \<le> ak_at found"
proof -
  have "map_of (filed w s) (ask_id w k) \<noteq> None"
    unfolding filed_fold asked.keep_better_dom using assms by force
  then obtain found where found: "map_of (filed w s) (ask_id w k) = Some found" by blast
  from asked.keep_better_newest [OF this [unfolded filed_fold]] assms have "ak_at k \<le> ak_at found" by force
  with found show ?thesis by blast
qed

lemma filed_distinct: "distinct (map fst (filed w s))"
  unfolding filed_fold by (rule asked.keep_better_distinct) simp

lemma pending_iff: "k \<in> set (pending_asks w gs t s) \<longleftrightarrow> map_of (filed w s) (ask_id w k) = Some k \<and> waits w gs t k"
proof -
  have "(\<exists>i. (i, k) \<in> set (filed w s)) \<longleftrightarrow> map_of (filed w s) (ask_id w k) = Some k"
    using filed_source filed_distinct by (metis map_of_SomeD map_of_is_SomeI)
  then show ?thesis by (force simp: pending_asks_def)
qed

lemma ask_of_SomeE:
  assumes "ask_of (t, body, attributes) = Some k"
  obtains a target where "make_ask a target body t = Inr k"
  using assms by (auto simp: ask_of_def split: option.splits json.splits sum.splits)

lemma make_ask_fields:
  "make_ask a target why t = Inr k \<Longrightarrow>
     k = \<lparr>ak_act = a, ak_target = target, ak_why = why, ak_at = t\<rparr> \<and> named_target target"
  by (auto simp: make_ask_def target_of_def printable_def Let_def split: if_splits sum.splits)

lemma asks_in_iff: "k \<in> set (asks_in s) \<longleftrightarrow> (\<exists>l \<in> set (ask_lines s). ask_of l = Some k)"
  by (force simp: asks_in_def split: option.splits)

lemma asks_named: "k \<in> set (asks_in s) \<Longrightarrow> named_target (ak_target k)"
  unfolding asks_in_iff by (metis ask_of_SomeE make_ask_fields ask.select_convs(2) surj_pair)

lemma ask_text_inject: "act_text a @ '' '' @ t = act_text b @ '' '' @ u \<longleftrightarrow> a = b \<and> t = u"
  by (cases a; cases b) auto

lemma ask_id_inject:
  "inj (lv_mint w) \<Longrightarrow> ask_id w k = ask_id w k' \<longleftrightarrow> ak_act k = ak_act k' \<and> ak_target k = ak_target k'"
  unfolding ask_id_def by (simp only: inj_eq ask_text_inject)

lemma act_of_text [simp]: "act_of (act_text a) = Some a"
  by (cases a) (simp_all add: act_of_def)

lemma spool_lines_member:
  assumes "(name, Some es) \<in> set spool" and "policy_file name" and "e \<in> set es" and "sl_name e = ASK_EVENT"
  shows "(sl_at e, sl_body e, sl_attributes e) \<in> set (spool_lines spool)"
  unfolding spool_lines_def set_concat set_map image_image
  by (rule UN_I [where a = "(name, Some es)"]) (use assms in auto)

lemma spool_append_asks:
  assumes "make_ask a target why t = Inr k" and "policy_file (lv_spool_file w)" and "\<not> lv_busy w"
    and "map_of (wk_spool s) (lv_spool_file w) \<noteq> Some None"
  shows "k \<in> set (asks_in (snd (spool_append w (ask_event k) s)))"
proof -
  let ?s = "snd (spool_append w (ask_event k) s)" and ?e = "ask_event k"
  obtain es where "map_of (wk_spool ?s) (lv_spool_file w) = Some (Some es)" and mem: "?e \<in> set es"
    using assms(3,4) by (cases "map_of (wk_spool s) (lv_spool_file w)")
      (auto simp: spool_append_def update_conv')
  then have "(lv_spool_file w, Some es) \<in> set (wk_spool ?s)" by (simp add: map_of_SomeD)
  from spool_lines_member [OF this assms(2) mem] have "(sl_at ?e, sl_body ?e, sl_attributes ?e) \<in> set (ask_lines ?s)"
    by (simp add: ask_lines_def ask_event_def)
  moreover have "ask_of (sl_at ?e, sl_body ?e, sl_attributes ?e) = Some k"
  proof -
    have "ak_act k = a" "ak_target k = target" "ak_why k = why" "ak_at k = t"
      using make_ask_fields [OF assms(1)] by simp_all
    then show ?thesis
      by (simp add: ask_of_def ask_event_def ASK_ACT_def ASK_TARGET_def assms(1))
  qed
  ultimately show ?thesis unfolding asks_in_iff by blast
qed

lemma target_chars: "c \<in> set t \<Longrightarrow> separator c \<or> c \<in> set (concat (target_words t))"
  by (induction t) (auto split: list.splits)

lemma named_printable:
  assumes "named_target target" and "filter control_char pre = []"
  shows "printable (pre @ target) = Inr (pre @ target)"
proof -
  have "\<not> control_char c" if "c \<in> set target" for c
  proof -
    have "separator c \<or> target_char c"
      using target_chars [OF that] assms(1) by (auto simp: named_target_def target_pattern_def list_all_iff)
    then show ?thesis by (auto simp: control_char_def separator_def target_char_def Let_def)
  qed
  with assms(2) show ?thesis by (simp add: printable_def filter_empty_conv)
qed

lemma push_ask:
  assumes "named_target target"
  obtains k where "make_ask A_PUSH target (''no live grant covers push '' @ target) t = Inr k"
    and "ak_act k = A_PUSH" and "ak_target k = target" and "ak_at k = t"
proof -
  have "filter control_char ''no live grant covers push '' = []" by code_simp
  from named_printable [OF assms this] show ?thesis
    using that assms by (simp add: make_ask_def target_of_def)
qed

text \<open>An uncovered act ends where its ask ends up.\<close>

lemma allowed_uncovered:
  assumes "make_ask a target why t = Inr k" and "read_grants w (wk_file s) = Inr gs" and "covering a target t gs = None"
  shows "snd (allowed w a target why t s) = snd (file_ask w k gs s)"
    and "\<not> lv_busy w \<Longrightarrow> \<exists>m. fst (allowed w a target why t s) = Inl (MissionError m)"
  using assms
  by (auto simp: allowed_def file_ask_def spool_append_def andThen_apply Let_def split: option.split)

lemma file_ask_known:
  assumes "known \<in> set (pending_asks w gs (ak_at k) s)" and "ask_id w known = ask_id w k"
  shows "snd (file_ask w k gs s) = s"
proof -
  let ?m = "map (\<lambda>known. (ask_id w known, known)) (pending_asks w gs (ak_at k) s)"
  have "ask_id w k \<in> fst ` set (rev ?m)"
    unfolding assms(2) [symmetric] set_rev set_map image_image fst_conv using assms(1) by (rule imageI)
  then have "map_of (rev ?m) (ask_id w k) \<noteq> None" unfolding map_of_eq_None_iff by simp
  then show ?thesis by (auto simp: file_ask_def andThen_apply)
qed

text \<open>
  C32. A refused push waits for the owner, and is asked once. When no grant covers a push of a
  well-formed target, the check raises, leaves the grants file alone, and an ask of exactly that push
  is then pending: the one it filed, or the one that already waited. Checking the push again, at any
  moment no grant covers it, files nothing more.
\<close>

theorem push_waits_for_owner:
  assumes "inj (lv_mint w)" and "\<not> lv_busy w" and "policy_file (lv_spool_file w)"
    and "map_of (wk_spool s) (lv_spool_file w) \<noteq> Some None"
    and "named_target target" and "read_grants w (wk_file s) = Inr gs" and "covering A_PUSH target t gs = None"
    and "\<And>a. answered_at (lv_mint w (''push '' @ target)) gs = Some a \<Longrightarrow> a < t"
    and "push w target t s = (r, s')"
  shows "(\<exists>m. r = Inl (MissionError m)) \<and> wk_file s' = wk_file s \<and>
    (\<exists>k. k \<in> set (pending_asks w gs t s') \<and> ak_act k = A_PUSH \<and> ak_target k = target) \<and>
    (\<forall>t'. covering A_PUSH target t' gs = None \<longrightarrow> snd (push w target t' s') = s')"
proof -
  obtain k where k: "make_ask A_PUSH target (''no live grant covers push '' @ target) t = Inr k"
    "ak_act k = A_PUSH" "ak_target k = target" "ak_at k = t" using push_ask [OF assms(5)] .
  have s': "s' = snd (file_ask w k gs s)" and r: "\<exists>m. r = Inl (MissionError m)"
    using allowed_uncovered [OF k(1) assms(6,7)] assms(2,9) by (simp_all add: push_def)
  have "same_file s s'" using s' alongD [OF unchanged_file_ask surjective_pairing] by simp
  then have same: "wk_file s' = wk_file s" by (simp add: same_file_def)
  have "\<exists>known. known \<in> set (pending_asks w gs t s') \<and> ask_id w known = ask_id w k"
  proof (cases "\<exists>known \<in> set (pending_asks w gs t s). ask_id w known = ask_id w k")
    case True
    then show ?thesis using file_ask_known k(4) s' by metis
  next
    case False
    then have "map_of (rev (map (\<lambda>x. (ask_id w x, x)) (pending_asks w gs (ak_at k) s))) (ask_id w k) = None"
      using k(4) by (force simp: map_of_eq_None_iff)
    then have "s' = snd (spool_append w (ask_event k) s)"
      by (simp add: s' file_ask_def andThen_apply spool_append_def assms(2))
    then have "k \<in> set (asks_in s')" using spool_append_asks [OF k(1) assms(3,2,4)] by simp
    then obtain found where found: "map_of (filed w s') (ask_id w k) = Some found" "t \<le> ak_at found"
      using filed_newest [of k s' w] k(4) by auto
    then have same_ask: "ask_id w found = ask_id w k" using filed_source by blast
    then have "ak_act found = A_PUSH" "ak_target found = target" using ask_id_inject [OF assms(1)] k(2,3) by simp_all
    then have "waits w gs t found"
      using assms(7,8) found(2) by (fastforce simp: waits_def ask_id_def split: option.split)
    with found same_ask show ?thesis using pending_iff by metis
  qed
  then obtain known where known: "known \<in> set (pending_asks w gs t s')" "ask_id w known = ask_id w k" by blast
  then have acts: "ak_act known = A_PUSH" "ak_target known = target" using ask_id_inject [OF assms(1)] k(2,3) by simp_all
  have "snd (push w target t' s') = s'" if "covering A_PUSH target t' gs = None" for t'
  proof -
    obtain k' where k': "make_ask A_PUSH target (''no live grant covers push '' @ target) t' = Inr k'"
      "ak_act k' = A_PUSH" "ak_target k' = target" "ak_at k' = t'" using push_ask [OF assms(5)] .
    have "known \<in> set (pending_asks w gs t' s')"
      using known(1) that acts by (simp add: pending_iff waits_def)
    moreover have "ask_id w known = ask_id w k'" using acts k' by (simp add: ask_id_def)
    ultimately have "snd (file_ask w k' gs s') = s'" using file_ask_known [of known w gs k' s'] k'(4) by simp
    then show ?thesis
      using allowed_uncovered(1) [OF k'(1) _ that, of w s'] same assms(6) by (simp add: push_def)
  qed
  with r same known acts show ?thesis by blast
qed

lemma greatest_ge: "x \<in> set xs \<Longrightarrow> \<exists>m. greatest xs = Some m \<and> x \<le> m"
proof (cases xs)
  case (Cons y ys)
  have "z \<le> fold max ys z \<and> (\<forall>x \<in> set ys. x \<le> fold max ys z)" for z :: int
  proof (induction ys arbitrary: z)
    case (Cons a ys)
    from Cons [of "max a z"] show ?case by auto
  qed simp
  moreover assume "x \<in> set xs"
  ultimately show ?thesis using Cons by auto
qed simp

lemma added_covering:
  assumes "make_grant shown a target t u ask = Inr g" and "named_target target"
  shows "covering a' target' t' (added g gs) \<noteq> None \<longleftrightarrow>
    covering a' target' t' gs \<noteq> None \<or> a' = a \<and> target' = target \<and> t \<le> t' \<and> t' < u"
proof -
  have "\<not> suffix ''*'' target" using assms(2) star_not_target by (auto simp: suffix_def)
  with assms show ?thesis unfolding covering_iff by (auto simp: added_def covers_scope [OF assms(1)] scope_names_def)
qed

text \<open>
  C31. An answer grants exactly what was asked. When the owner's \<open>serve answer\<close> returned, the owner
  typed it at a terminal, one pending ask has the id it named, and what is covered since is what was
  covered before and, for the hours given from then on, the very act on the very target of that ask;
  the ask waits no longer, unless it was filed later than its answer.
\<close>

theorem answer_grants_exactly:
  assumes "codec_law w" and "read_grants w (wk_file s) = Inr gs"
    and "answer_ask w tm typed hours False t s = (Inr (), s')"
  shows "owner_types tm \<and>
    (\<exists>k dur gs'. k \<in> set (pending_asks w gs t s) \<and> prefix typed (ask_id w k) \<and> lasting hours = Inr dur \<and>
      read_grants w (wk_file s') = Inr gs' \<and>
      (\<forall>a' target' t'. covering a' target' t' gs' \<noteq> None \<longleftrightarrow>
         covering a' target' t' gs \<noteq> None \<or> a' = ak_act k \<and> target' = ak_target k \<and> t \<le> t' \<and> t' < t + dur) \<and>
      (ak_at k \<le> t \<longrightarrow> (\<forall>t'. k \<notin> set (pending_asks w gs' t' s'))))"
proof -
  from assms(2,3) obtain k dur g where k: "filter (\<lambda>k. prefix typed (ask_id w k)) (pending_asks w gs t s) = [k]"
    and dur: "lasting hours = Inr dur"
    and g: "make_grant (ow_shown w) (ak_act k) (ak_target k) t (t + dur) (ask_id w k) = Inr g"
    and last: "andThen (changing_file w tm (''serve answer '' @ typed) (added g)) (\<lambda>_. ret ()) s = (Inr (), s')"
    by (auto simp: answer_ask_def andThen_apply [of "reading _"] andThen_apply [of "returning _"]
        split: list.splits sum.splits)
  have "k \<in> set (filter (\<lambda>k. prefix typed (ask_id w k)) (pending_asks w gs t s))" unfolding k by simp
  then have mem: "k \<in> set (pending_asks w gs t s)" "prefix typed (ask_id w k)" by simp_all
  have named: "named_target (ak_target k)"
    using mem(1) filed_source [of w s] asks_named unfolding pending_iff by blast
  from last changing_file_ok [of w tm "''serve answer '' @ typed" "added g" s, OF surjective_pairing] assms(2)
  have kept: "wk_file s' = written w (ow_dump w (added g gs))" and owner: "owner_types tm"
    by (auto elim!: andThen_InrE simp: owner_types_def)
  have read: "read_grants w (wk_file s') = Inr (added g gs)"
    unfolding kept by (rule read_written(1) [OF assms(1) valid_changes(1) [OF read_valid [OF assms(1,2)] g]])
  have "gr_granted g = t" "gr_ask g = ask_id w k"
    using g by (auto simp: make_grant_def split: sum.splits if_splits)
  then have "t \<in> set (map gr_granted (filter (\<lambda>h. gr_ask h = ask_id w k) (gs_grants (added g gs))))"
    by (simp add: added_def)
  then have "\<exists>m. answered_at (ask_id w k) (added g gs) = Some m \<and> t \<le> m"
    unfolding answered_at_def by (intro greatest_ge) simp
  then have over: "k \<notin> set (pending_asks w (added g gs) t' s')" if "ak_at k \<le> t" for t'
    using that by (auto simp: pending_iff waits_def)
  show ?thesis
    by (intro conjI exI [of _ k] exI [of _ dur] exI [of _ "added g gs"] allI impI owner mem dur read added_covering [OF g named])
      (rule over)
qed

theorem push_waits_for_owner_witness:
  "\<exists>k. k \<in> set (pending_asks sample_leaving no_grants 5 (snd (push sample_leaving ''repo:mb/x'' 5 sample_workspace))) \<and>
     ak_act k = A_PUSH \<and> ak_target k = ''repo:mb/x''"
proof -
  have "inj (lv_mint sample_leaving)" "\<not> lv_busy sample_leaving" "policy_file (lv_spool_file sample_leaving)"
    by (simp_all add: sample_leaving_def policy_file_def suffix_def)
  moreover have "map_of (wk_spool sample_workspace) f \<noteq> Some None" for f by (simp add: sample_workspace_def)
  moreover have "named_target ''repo:mb/x''" by code_simp
  moreover have "covering A_PUSH ''repo:mb/x'' 5 no_grants = None" by (simp add: covering_def no_grants_def)
  moreover have "answered_at i no_grants = None" for i by (simp add: answered_at_def no_grants_def)
  ultimately show ?thesis
    using push_waits_for_owner [OF _ _ _ _ _ sample_read _ _ surjective_pairing, of "''repo:mb/x''" 5] by simp
qed

text \<open>A workspace whose spool holds one ask, for a push.\<close>

definition sample_ask :: ask where
  "sample_ask = \<lparr>ak_act = A_PUSH, ak_target = ''repo:mb/x'', ak_why = ''why'', ak_at = 5\<rparr>"

definition sample_asked :: workspace where
  "sample_asked = \<lparr>wk_file = NoFile, wk_spool = [(''policy-7.jsonl'', Some [ask_event sample_ask])], wk_rows = None\<rparr>"

lemma sample_pending: "pending_asks sample_leaving no_grants 6 sample_asked = [sample_ask]"
proof -
  have "ask_of (5, ''why'', sl_attributes (ask_event sample_ask)) = Some sample_ask" by code_simp
  moreover have "policy_file ''policy-7.jsonl''" by code_simp
  ultimately have "asks_in sample_asked = [sample_ask]"
    by (simp add: asks_in_def ask_lines_def sample_asked_def spool_lines_def)
      (simp add: ask_event_def sample_ask_def)
  moreover have "waits sample_leaving no_grants 6 sample_ask"
    by (simp add: waits_def answered_at_def covering_def no_grants_def)
  ultimately show ?thesis by (simp add: pending_asks_def filed_fold keep_better_def)
qed

theorem answer_grants_exactly_witness:
  "\<exists>gs. read_grants sample_leaving (wk_file (snd (answer_ask sample_leaving sample_terminal ''push'' 1 False 6 sample_asked))) = Inr gs \<and>
     covering A_PUSH ''repo:mb/x'' 7 gs \<noteq> None \<and> covering A_PUSH ''repo:mb/y'' 7 gs = None"
proof -
  have read: "read_grants sample_leaving (wk_file sample_asked) = Inr no_grants"
    by (simp add: sample_asked_def read_grants_def owner_text_def opened_def)
  have id: "ask_id sample_leaving sample_ask = ''push repo:mb/x''"
    by (simp add: ask_id_def sample_leaving_def sample_ask_def)
  have dur: "lasting 1 = Inr 3600000000" by code_simp
  have "scope_of ''repo:mb/x'' = Inr ''repo:mb/x''" by code_simp
  then obtain g where "make_grant (ow_shown sample_leaving) (ak_act sample_ask) (ak_target sample_ask) 6 3600000006
      ''push repo:mb/x'' = Inr g"
    by (simp add: make_grant_def sample_ask_def)
  then obtain s' where answer: "answer_ask sample_leaving sample_terminal ''push'' 1 False 6 sample_asked = (Inr (), s')"
    using dur by (auto simp: answer_ask_def andThen_apply read sample_pending id changing_file_def changed_grants_def
        refuse_agents_def sample_terminal_def)
  have none: "covering a target t no_grants = None" for a target t by (simp add: covering_def no_grants_def)
  from answer_grants_exactly [OF sample_codec read answer] obtain k d gs
    where k: "k \<in> set (pending_asks sample_leaving no_grants 6 sample_asked)" and d: "lasting 1 = Inr d"
    and gs: "read_grants sample_leaving (wk_file s') = Inr gs"
    and covered: "\<forall>a' target' t'. covering a' target' t' gs \<noteq> None \<longleftrightarrow>
      covering a' target' t' no_grants \<noteq> None \<or> a' = ak_act k \<and> target' = ak_target k \<and> 6 \<le> t' \<and> t' < 6 + d"
    by (elim conjE exE) (rule that)
  from k d dur have "k = sample_ask" "d = 3600000000" by (simp_all add: sample_pending)
  then have "covering A_PUSH ''repo:mb/x'' 7 gs \<noteq> None" "covering A_PUSH ''repo:mb/y'' 7 gs = None"
    using covered [THEN spec, THEN spec, THEN spec, of A_PUSH "''repo:mb/x''" 7]
      covered [THEN spec, THEN spec, THEN spec, of A_PUSH "''repo:mb/y''" 7]
    by (simp_all add: none sample_ask_def)
  with gs show ?thesis by (simp add: answer)
qed

end
