(* ===== verification/Enforcer_Properties.thy ===== *)
theory Enforcer_Properties
  imports Enforcers Leave_Properties
begin

text \<open>
  What the launch check promises: an agent child that starts carries its harness's flags, no option
  of its command lifts them, and its settings deny what they must.
\<close>

section \<open>Lemmas\<close>

lemma carries_iff: "carries command run \<longleftrightarrow> (\<exists>pre post. command = pre @ run @ post)"
proof
  assume "carries command run"
  then obtain i where "take (length run) (drop i command) = run" by (auto simp: carries_def list_ex_iff)
  then have "command = take i command @ run @ drop (length run) (drop i command)"
    by (metis append_take_drop_id)
  then show "\<exists>pre post. command = pre @ run @ post" by blast
next
  assume "\<exists>pre post. command = pre @ run @ post"
  then obtain pre post where "command = pre @ run @ post" by blast
  then show "carries command run"
    by (auto simp: carries_def list_ex_iff intro!: bexI [of _ "length pre"])
qed

lemma lifts_found:
  "fst (spelled a) \<in> set (en_refused e) \<Longrightarrow> lifts e a f \<noteq> []"
  "spelled a = (opt, glued) \<Longrightarrow> opt \<in> set (en_config e) \<Longrightarrow>
     resets (if glued \<noteq> [] then glued else f) (enforced_keys e) \<Longrightarrow> lifts e a f \<noteq> []"
  by (cases "spelled a", simp add: lifts_def) (cases glued; simp add: lifts_def Let_def)

lemma loosened_none:
  assumes "loosened e command = []"
  shows "argument \<in> set command \<Longrightarrow> fst (spelled argument) \<notin> set (en_refused e)"
    and "command = pre @ opt # v # post \<Longrightarrow> spelled opt = (opt, []) \<Longrightarrow> opt \<in> set (en_config e) \<Longrightarrow>
      \<not> resets v (enforced_keys e)"
    and "glued \<in> set command \<Longrightarrow> spelled glued = (opt, v) \<Longrightarrow> v \<noteq> [] \<Longrightarrow> opt \<in> set (en_config e) \<Longrightarrow>
      \<not> resets v (enforced_keys e)"
proof -
  have none: "lifts e a f = []" if "(a, f) \<in> set (zip command (tl command @ [[]]))" for a f
    using assms that by (auto simp: loosened_def)
  have follows: "\<exists>f. (a, f) \<in> set (zip command (tl command @ [[]]))" if "a \<in> set command" for a
    using that by (cases command) (fastforce simp: in_set_zip in_set_conv_nth)+
  show "fst (spelled argument) \<notin> set (en_refused e)" if "argument \<in> set command"
  proof -
    from follows [OF that] obtain f where "(argument, f) \<in> set (zip command (tl command @ [[]]))" by blast
    from none [OF this] show ?thesis using lifts_found(1) by blast
  qed
  show "\<not> resets v (enforced_keys e)"
    if "glued \<in> set command" "spelled glued = (opt, v)" "v \<noteq> []" "opt \<in> set (en_config e)"
  proof -
    from follows [OF that(1)] obtain f where "(glued, f) \<in> set (zip command (tl command @ [[]]))" by blast
    from none [OF this] that(2-) show ?thesis using lifts_found(2) [of glued opt v e f] by auto
  qed
  assume c: "command = pre @ opt # v # post" "spelled opt = (opt, [])" "opt \<in> set (en_config e)"
  have "(opt, v) \<in> set (zip command (tl command @ [[]]))"
    unfolding c(1) by (cases pre) (simp_all add: zip_append1 in_set_zip nth_append, auto intro!: exI [of _ "length pre"])
  from none [OF this] c(2,3) show "\<not> resets v (enforced_keys e)"
    using lifts_found(2) [of opt opt "[]" e v] by auto
qed

lemma launch_services_missing:
  "launch_services w e ss = Inr () \<Longrightarrow> s \<in> set ss \<Longrightarrow> enforcer_missing w e (se_command s) = Inr []"
  by (induction ss) (auto split: sum.splits list.splits)

lemma launch_all_services:
  "launch_all w services es = Inr () \<Longrightarrow> e \<in> set es \<Longrightarrow>
     launch_services w e (filter (\<lambda>s. se_name s = en_child e \<and> se_off s = []) services) = Inr ()"
  by (induction es) (auto split: sum.splits)

text \<open>
  An equals sign glued to a short option is taken as part of its value, so that this spelling sets no
  key the check knows.
\<close>

lemma glued_equals_unseen:
  "loosened (hd ENFORCERS) [''codex'', ''-c=sandbox_mode=danger-full-access''] = []"
  by code_simp

lemma settings_lacking_none:
  assumes "settings_lacking w e = Inr []"
  shows "\<exists>t pm. owner_text (w\<lparr>ow_path := ef_settings_path w (en_settings e)\<rparr>) (ef_settings_node w (en_settings e)) = Inr (Some t) \<and>
    ef_settings_load w t = Inr pm \<and> set (en_denies e) \<subseteq> set (pm_deny pm) \<and>
    (\<forall>rule \<in> set (pm_allow pm). \<not> unbounded rule)"
  using assms
  by (auto simp: settings_lacking_def child_denials_def Let_def filter_empty_conv
      split: sum.splits option.splits if_splits)

section \<open>What a harness reads\<close>

text \<open>
  The spellings the code names, written out without its parser: an option and its value as two arguments, a
  short option with the value glued to it, a long one with the value behind an equals sign.
\<close>

definition short_option :: "string \<Rightarrow> bool" where
  "short_option opt \<longleftrightarrow> length opt = 2 \<and> \<not> prefix ''--'' opt"

definition long_option :: "string \<Rightarrow> bool" where
  "long_option opt \<longleftrightarrow> prefix ''--'' opt \<and> CHR ''='' \<notin> set opt"

definition given :: "string \<Rightarrow> string \<Rightarrow> string list \<Rightarrow> bool" where
  "given opt v command \<longleftrightarrow> (\<exists>pre post. command = pre @ opt # v # post) \<or>
     v \<noteq> [] \<and> (short_option opt \<and> opt @ v \<in> set command \<or> long_option opt \<and> opt @ ''='' @ v \<in> set command)"

text \<open>\<open>key = value\<close> around the first equals sign, blanks and one layer or more of quotes off.\<close>

definition says :: "string \<Rightarrow> string \<Rightarrow> string \<Rightarrow> bool" where
  "says v k x \<longleftrightarrow> (\<exists>a b. v = a @ CHR ''='' # b \<and> CHR ''='' \<notin> set a \<and> strip a = k \<and> strip_chars [CHR 0x22, CHR 0x27] (strip b) = x)"

lemma partition_at_first: "c \<notin> set a \<Longrightarrow> partition_at c (a @ c # b) = (a, True, b)"
  by (induction a) auto

lemma partition_at_none: "c \<notin> set a \<Longrightarrow> partition_at c a = (a, False, [])"
  by (induction a) auto

lemma spelled_short:
  assumes "short_option opt"
  shows "spelled (opt @ v) = (opt, v)"
proof -
  obtain a b where "opt = [a, b]" using assms by (auto simp: short_option_def numeral_2_eq_2 length_Suc_conv)
  with assms show ?thesis by (auto simp: spelled_def short_option_def)
qed

lemma spelled_long:
  assumes "long_option opt"
  shows "spelled opt = (opt, [])" "spelled (opt @ CHR ''='' # v) = (opt, v)"
  using assms by (auto simp: spelled_def long_option_def partition_at_first partition_at_none prefix_def)

lemma resets_says: "says v k x \<Longrightarrow> resets v d \<longleftrightarrow> (\<exists>y. map_of d k = Some y \<and> x \<noteq> y)"
  by (auto simp: says_def resets_def partition_at_first split: option.split)

lemma given_loosened:
  assumes "loosened e command = []" and "opt \<in> set (en_config e)" and "short_option opt \<or> long_option opt" and "given opt v command"
  shows "\<not> resets v (enforced_keys e)"
proof -
  have own: "spelled opt = (opt, [])" using assms(3) spelled_short [of opt "[]"] spelled_long(1) by auto
  from assms(4) show ?thesis unfolding given_def
  proof (elim disjE exE conjE)
    fix pre post
    assume "command = pre @ opt # v # post"
    from loosened_none(2) [OF assms(1) this own assms(2)] show ?thesis .
  next
    assume "v \<noteq> []" "short_option opt" "opt @ v \<in> set command"
    with loosened_none(3) [OF assms(1) this(3) spelled_short [OF this(2)]] assms(2) show ?thesis by simp
  next
    assume "v \<noteq> []" "long_option opt" "opt @ ''='' @ v \<in> set command"
    with loosened_none(3) [OF assms(1), of "opt @ CHR ''='' # v" opt v] spelled_long(2) assms(2) show ?thesis by simp
  qed
qed

text \<open>What the two enforcers declare: their options are bare ones, and their flags bind one value a key.\<close>

lemma refused_shape: "e \<in> set ENFORCERS \<Longrightarrow> opt \<in> set (en_refused e) \<Longrightarrow> short_option opt \<or> long_option opt"
  by (auto simp: ENFORCERS_def short_option_def long_option_def)

lemma config_shape: "e \<in> set ENFORCERS \<Longrightarrow> opt \<in> set (en_config e) \<Longrightarrow> short_option opt \<or> long_option opt"
  by (auto simp: ENFORCERS_def short_option_def long_option_def)

lemma enforced_bound:
  assumes "e \<in> set ENFORCERS" and "[''-c'', key @ CHR ''='' # bound] \<in> set (en_flags e)" and "CHR ''='' \<notin> set key"
  shows "map_of (enforced_keys e) key = Some bound"
proof -
  have e: "e = hd ENFORCERS" using assms(1,2) by (auto simp: ENFORCERS_def)
  have keys: "enforced_keys (hd ENFORCERS) = [(''approval_policy'', ''on-request''), (''sandbox_mode'', ''workspace-write'')]"
    by code_simp
  have "key @ CHR ''='' # bound \<in> {''approval_policy'' @ CHR ''='' # ''on-request'', ''sandbox_mode'' @ CHR ''='' # ''workspace-write''}"
    using assms(2) by (auto simp: e ENFORCERS_def CODEX_FLAGS_def)
  then have "partition_at (CHR ''='') (key @ CHR ''='' # bound) \<in> {(''approval_policy'', True, ''on-request''), (''sandbox_mode'', True, ''workspace-write'')}"
    by (auto simp: partition_at_first)
  then show ?thesis using partition_at_first [OF assms(3), of bound] by (auto simp: e keys)
qed

lemma refused_unspelled:
  assumes "short_option opt \<or> long_option opt" and "fst (spelled argument) \<notin> set refused" and "opt \<in> set refused"
  shows "argument \<noteq> opt \<and> (short_option opt \<longrightarrow> \<not> prefix opt argument) \<and> (long_option opt \<longrightarrow> \<not> prefix (opt @ ''='') argument)"
proof -
  have "fst (spelled argument) \<noteq> opt" using assms(2,3) by auto
  then show ?thesis
    using assms(1) spelled_short [of opt] spelled_short [of opt "[]"] spelled_long [of opt] by (auto simp: prefix_def)
qed

text \<open>An allow rule that lets the shell run one of the commands of \<open>UNBOUNDED\<close>, or every command there is.\<close>

definition shell_rule :: "string \<Rightarrow> string option" where
  "shell_rule rule = (if rule = ''Bash'' then Some ''*''
     else if \<exists>p. rule = ''Bash('' @ p @ '')'' then Some (butlast (drop 5 rule)) else None)"

definition glob_of :: "string \<Rightarrow> string" where
  "glob_of p = (if suffix '':*'' p then take (length p - 2) p @ ''*'' else p)"

lemma strip_stars: "strip_chars ''*'' p = [] \<longleftrightarrow> set p \<subseteq> {CHR ''*''}"
proof -
  have "strip_chars ''*'' p = [] \<longleftrightarrow> (\<forall>c \<in> set (dropWhile (\<lambda>c. c = CHR ''*'') p). c = CHR ''*'')"
    by (simp add: strip_chars_def dropWhile_eq_Nil_conv)
  also have "\<dots> \<longleftrightarrow> (\<forall>c \<in> set p. c = CHR ''*'')" by (induction p) auto
  finally show ?thesis by auto
qed

lemma unbounded_iff:
  "unbounded rule \<longleftrightarrow> (\<exists>p. shell_rule rule = Some p \<and>
     (set (glob_of p) \<subseteq> {CHR ''*''} \<or> (\<exists>run \<in> set UNBOUNDED. fnmatch (glob_of p) run)))"
proof (cases "rule = ''Bash''")
  case True
  then show ?thesis by (simp add: unbounded_def shell_rule_def glob_of_def suffix_def)
next
  case no_bash: False
  show ?thesis
  proof (cases "\<exists>p. rule = ''Bash('' @ p @ '')''")
    case True
    then obtain p where p: "rule = ''Bash('' @ p @ '')''" by blast
    have closes: "prefix ''Bash('' rule" "suffix '')'' rule" unfolding p using suffixI [of _ "''Bash('' @ p" "'')''"] by simp_all
    have inner: "removesuffix '')'' (removeprefix ''Bash('' rule) = p" by (simp add: p removeprefix_def removesuffix_def)
    have "unbounded rule \<longleftrightarrow> (let pattern = (if suffix '':*'' p then removesuffix '':*'' p @ ''*'' else p)
        in strip_chars ''*'' pattern = [] \<or> list_ex (\<lambda>run. fnmatch pattern run) UNBOUNDED)"
      using no_bash closes by (simp only: unbounded_def inner Let_def simp_thms if_False if_True not_False_eq_True)
    also have "(if suffix '':*'' p then removesuffix '':*'' p @ ''*'' else p) = glob_of p" by (simp add: glob_of_def removesuffix_def numeral_2_eq_2)
    finally have "unbounded rule \<longleftrightarrow> set (glob_of p) \<subseteq> {CHR ''*''} \<or> (\<exists>run \<in> set UNBOUNDED. fnmatch (glob_of p) run)"
      by (simp add: Let_def strip_stars list_ex_iff)
    moreover have "shell_rule rule = Some p" by (simp add: shell_rule_def p)
    ultimately show ?thesis by simp
  next
    case False
    have "\<not> (prefix ''Bash('' rule \<and> suffix '')'' rule)"
    proof
      assume "prefix ''Bash('' rule \<and> suffix '')'' rule"
      then obtain q r where q: "rule = ''Bash('' @ q" and "rule = r @ '')''" by (elim conjE prefixE suffixE)
      from this(2) have "last rule = CHR '')''" by simp
      with False q show False by (cases q rule: rev_cases) auto
    qed
    with no_bash False show ?thesis by (simp add: unbounded_def shell_rule_def)
  qed
qed

section \<open>Properties\<close>

text \<open>
  C27. No agent child starts unbounded. When the launch check passes, the command of every running
  agent child carries each of its harness's flag runs unbroken; none of its arguments is a refused
  option, bare or with a value glued or set behind an equals sign; and every setting its configuration options give, in
  the four spellings the code names, gives the keys its flags bind the very values they bind. A child bounded by settings names
  the owner's file, which is the owner's own and closed to others, denies all it must, and has no allow rule whose glob is every
  command or matches one of those that run past it. One spelling more, an equals sign glued to a short option,
  is not seen: a command that lifts the sandbox so is let through.
\<close>

theorem launch_bounds_children:
  assumes "launch w services = Inr ()" and "e \<in> set ENFORCERS" and "s \<in> set services"
    and "se_name s = en_child e" and "se_off s = []"
  shows "(\<forall>run \<in> set (en_flags e). \<exists>pre post. se_command s = pre @ run @ post) \<and>
    (\<forall>opt \<in> set (en_refused e). \<forall>argument \<in> set (se_command s).
       argument \<noteq> opt \<and> (short_option opt \<longrightarrow> \<not> prefix opt argument) \<and> (long_option opt \<longrightarrow> \<not> prefix (opt @ ''='') argument)) \<and>
    (\<forall>opt \<in> set (en_config e). \<forall>key bound v x. [''-c'', key @ CHR ''='' # bound] \<in> set (en_flags e) \<longrightarrow> CHR ''='' \<notin> set key \<longrightarrow>
       given opt v (se_command s) \<longrightarrow> says v key x \<longrightarrow> x = bound) \<and>
    (en_settings e \<noteq> [] \<longrightarrow>
      (\<exists>pre post t pm. se_command s = pre @ [''--settings'', ef_settings_path w (en_settings e)] @ post \<and>
         owner_text (w\<lparr>ow_path := ef_settings_path w (en_settings e)\<rparr>) (ef_settings_node w (en_settings e)) = Inr (Some t) \<and>
         ef_settings_load w t = Inr pm \<and> set (en_denies e) \<subseteq> set (pm_deny pm) \<and>
         (\<forall>rule \<in> set (pm_allow pm). \<forall>p. shell_rule rule = Some p \<longrightarrow>
            \<not> set (glob_of p) \<subseteq> {CHR ''*''} \<and> (\<forall>run \<in> set UNBOUNDED. \<not> fnmatch (glob_of p) run)))) \<and>
    loosened (hd ENFORCERS) [''codex'', ''-c=sandbox_mode=danger-full-access''] = []"
proof -
  have "s \<in> set (filter (\<lambda>s. se_name s = en_child e \<and> se_off s = []) services)" using assms(3-5) by simp
  from launch_services_missing [OF launch_all_services [OF assms(1) [unfolded launch_def] assms(2)] this]
  have missing: "enforcer_missing w e (se_command s) = Inr []" .
  then have loose: "loosened e (se_command s) = []"
    and settings: "en_settings e \<noteq> [] \<longrightarrow> settings_lacking w e = Inr []"
    by (auto simp: enforcer_missing_def Let_def split: sum.splits if_splits)
  from missing have "\<forall>run \<in> set (en_flags e @ (if en_settings e = [] then []
      else [[''--settings'', ef_settings_path w (en_settings e)]])). carries (se_command s) run"
    by (auto simp: enforcer_missing_def Let_def filter_empty_conv split: sum.splits if_splits)
  then have flags: "\<And>run. run \<in> set (en_flags e) \<Longrightarrow> \<exists>pre post. se_command s = pre @ run @ post"
    and named: "en_settings e \<noteq> [] \<Longrightarrow>
      \<exists>pre post. se_command s = pre @ [''--settings'', ef_settings_path w (en_settings e)] @ post"
    unfolding carries_iff by auto
  have refused: "argument \<noteq> opt \<and> (short_option opt \<longrightarrow> \<not> prefix opt argument) \<and> (long_option opt \<longrightarrow> \<not> prefix (opt @ ''='') argument)"
    if "opt \<in> set (en_refused e)" "argument \<in> set (se_command s)" for opt argument
    using refused_unspelled [OF refused_shape [OF assms(2) that(1)] loosened_none(1) [OF loose that(2)] that(1)] .
  have config: "x = bound"
    if "opt \<in> set (en_config e)" "[''-c'', key @ CHR ''='' # bound] \<in> set (en_flags e)" "CHR ''='' \<notin> set key"
      "given opt v (se_command s)" "says v key x" for opt key bound v x
    using given_loosened [OF loose that(1) config_shape [OF assms(2) that(1)] that(4)] resets_says [OF that(5)]
      enforced_bound [OF assms(2) that(2,3)] by auto
  have rules: "\<exists>pre post t pm. se_command s = pre @ [''--settings'', ef_settings_path w (en_settings e)] @ post \<and>
         owner_text (w\<lparr>ow_path := ef_settings_path w (en_settings e)\<rparr>) (ef_settings_node w (en_settings e)) = Inr (Some t) \<and>
         ef_settings_load w t = Inr pm \<and> set (en_denies e) \<subseteq> set (pm_deny pm) \<and>
         (\<forall>rule \<in> set (pm_allow pm). \<forall>p. shell_rule rule = Some p \<longrightarrow>
            \<not> set (glob_of p) \<subseteq> {CHR ''*''} \<and> (\<forall>run \<in> set UNBOUNDED. \<not> fnmatch (glob_of p) run))"
    if "en_settings e \<noteq> []"
    using settings_lacking_none [OF settings [rule_format, OF that]] named [OF that] unfolding unbounded_iff by blast
  show ?thesis
  proof (intro conjI ballI impI allI)
    show "loosened (hd ENFORCERS) [''codex'', ''-c=sandbox_mode=danger-full-access''] = []" by (rule glued_equals_unseen)
  qed (use flags refused config rules in blast)+
qed

text \<open>A supervisor whose one running child is the Codex child, under its flags.\<close>

definition sample_enforcing :: enforcing where
  "sample_enforcing = leaving.extend sample_leaving
     \<lparr>ef_settings_path = id, ef_settings_node = \<lambda>_. NoFile, ef_settings_load = \<lambda>_. Inl []\<rparr>"

definition sample_codex :: service where
  "sample_codex = \<lparr>se_command = ''codex'' # concat CODEX_FLAGS, se_environment = [], se_every = [],
     se_name = ''codex'', se_off = [], se_stop = 5, se_timeout = 0\<rparr>"

theorem launch_bounds_children_witness:
  "launch sample_enforcing [sample_codex] = Inr () \<and>
   (\<exists>pre post. se_command sample_codex = pre @ [''-c'', ''sandbox_mode=workspace-write''] @ post) \<and>
   list_all (\<lambda>argument. \<not> prefix ''-s'' argument) (se_command sample_codex) \<and>
   \<not> given ''--config'' ''sandbox_mode=danger-full-access'' (se_command sample_codex)"
proof -
  have parts: "loosened (hd ENFORCERS) (se_command sample_codex) = []"
    "filter (\<lambda>run. \<not> carries (se_command sample_codex) run) CODEX_FLAGS = []" by code_simp+
  have ok: "launch sample_enforcing [sample_codex] = Inr ()"
    using parts by (simp add: launch_def ENFORCERS_def enforcer_missing_def Let_def)
      (simp add: sample_codex_def)
  have here: "hd ENFORCERS \<in> set ENFORCERS" "sample_codex \<in> set [sample_codex]"
    "se_name sample_codex = en_child (hd ENFORCERS)" "se_off sample_codex = []"
    by (simp_all add: ENFORCERS_def sample_codex_def)
  note bound = launch_bounds_children [OF ok here]
  have "[''-c'', ''sandbox_mode=workspace-write''] \<in> set (en_flags (hd ENFORCERS))" "''-s'' \<in> set (en_refused (hd ENFORCERS))"
    "short_option ''-s''" "''--config'' \<in> set (en_config (hd ENFORCERS))"
    "[''-c'', ''sandbox_mode'' @ CHR ''='' # ''workspace-write''] \<in> set (en_flags (hd ENFORCERS))" "CHR ''='' \<notin> set ''sandbox_mode''"
    by (simp_all add: ENFORCERS_def CODEX_FLAGS_def short_option_def)
  with bound have "\<exists>pre post. se_command sample_codex = pre @ [''-c'', ''sandbox_mode=workspace-write''] @ post"
    "list_all (\<lambda>argument. \<not> prefix ''-s'' argument) (se_command sample_codex)"
    "\<And>v x. given ''--config'' v (se_command sample_codex) \<Longrightarrow> says v ''sandbox_mode'' x \<Longrightarrow> x = ''workspace-write''"
    unfolding list_all_iff by blast+
  moreover have "says ''sandbox_mode=danger-full-access'' ''sandbox_mode'' ''danger-full-access''"
    unfolding says_def by (intro exI [of _ "''sandbox_mode''"] exI [of _ "''danger-full-access''"]) code_simp
  ultimately show ?thesis using ok by blast
qed

end
