(* ===== verification/Batch.thy ===== *)
theory Batch
  imports Monitor Globs
begin

text \<open>
  A batch of jobs (\<open>batch/spec.py\<close>, \<open>batch/runner.py\<close>): the declaration, which of its jobs a verb
  acts on, the dispatch of each to its own target with a refusal or a full queue as that job's row,
  and the request a full queue holds for the next sweep. The digests of blake2 and pydantic's
  validation of a job table are parameters.
\<close>

section \<open>The declaration\<close>

record batch_job =
  bj_name :: string
  bj_target :: string
  bj_command :: string
  bj_data :: "string list"
  bj_runtime_s :: rat
  bj_queue :: string
  bj_walltime :: string
  bj_mem_gb :: int
  bj_gpus :: int
  bj_gpu_name :: string
  bj_max_usd :: rat
  bj_spot :: bool
  bj_arch :: string
  bj_nodes :: int
  bj_env :: string
  bj_container :: string
  bj_fetch :: string
  bj_node :: string

definition job_request :: "batch_job \<Rightarrow> string \<Rightarrow> request" where
  "job_request job name =
     \<lparr>req_target = bj_target job, req_command = bj_command job, req_name = name, req_node = bj_node job,
      req_fetch = text_or_none (bj_fetch job), req_needs = bj_data job, req_env = bj_env job,
      req_container = bj_container job, req_queue = bj_queue job, req_walltime = bj_walltime job,
      req_mem_gb = bj_mem_gb job, req_gpus = bj_gpus job, req_gpu_name = bj_gpu_name job,
      req_max_usd = bj_max_usd job, req_nodes = bj_nodes job, req_attempt = 1, req_spot = bj_spot job,
      req_arch = bj_arch job, req_datacenter = False\<rparr>"

type_synonym selection = "string list"

definition selection_of :: "string \<Rightarrow> selection" where
  "selection_of typed = map strip (filter (\<lambda>part. strip part \<noteq> []) (split_on CHR '','' typed))"

definition holds :: "selection \<Rightarrow> string \<Rightarrow> bool" where
  "holds sel name \<longleftrightarrow> sel = [] \<or> list_ex (\<lambda>pattern. fnmatch pattern name) sel"

definition chosen :: "selection \<Rightarrow> batch_job list \<Rightarrow> fault + batch_job list" where
  "chosen sel jobs =
     (if sel = [] then Inr jobs
      else
        let unmatched = filter (\<lambda>pattern. \<not> list_ex (\<lambda>job. fnmatch pattern (bj_name job)) jobs) sel in
        case unmatched of
          pattern # _ \<Rightarrow> Inl (MissionError (''no job named '' @ repr_text pattern @ '' in this batch; it declares '' @
            join_with '', '' (map bj_name jobs)))
        | [] \<Rightarrow> Inr (filter (\<lambda>job. holds sel (bj_name job)) jobs))"

record batch_spec =
  bs_name :: string
  bs_jobs :: "batch_job list"

text \<open>\<open>BatchSpec\<close> built: no two jobs under one name, and at least one.\<close>

definition make_spec :: "string \<Rightarrow> batch_job list \<Rightarrow> fault + batch_spec" where
  "make_spec name jobs =
     (let seen = map bj_name jobs in
      if \<not> distinct seen
      then Inl (ValueError (''job names repeat in batch '' @ repr_text name @ '': '' @ repr (JList (map JStr (sort seen)))))
      else if seen = [] then Inl (ValueError (''batch '' @ repr_text name @ '' declares no jobs''))
      else Inr \<lparr>bs_name = name, bs_jobs = jobs\<rparr>)"

record batching = outside +
  b_job :: "payload \<Rightarrow> string + batch_job"
  b_digest :: "string \<Rightarrow> string"
  b_spec_digest :: "json \<Rightarrow> string"
  b_float :: "rat \<Rightarrow> string"
  b_root :: string
  b_project :: string

fun validated :: "'w batching_scheme \<Rightarrow> payload list \<Rightarrow> string + batch_job list" where
  "validated w [] = Inr []"
| "validated w (t # ts) =
     (case b_job w t of
        Inl m \<Rightarrow> Inl m
      | Inr j \<Rightarrow> (case validated w ts of Inl m \<Rightarrow> Inl m | Inr js \<Rightarrow> Inr (j # js)))"

definition spec_of :: "'w batching_scheme \<Rightarrow> string \<Rightarrow> payload list \<Rightarrow> fault + batch_spec" where
  "spec_of w name tables =
     (case validated w tables of
        Inl m \<Rightarrow> Inl (MissionError (''batch '' @ repr_text name @ '' declares an unusable job:'' @ CHR 0x0A # m))
      | Inr built \<Rightarrow>
          make_spec name (map (\<lambda>(n, job). if bj_name job \<noteq> [] then job
              else job\<lparr>bj_name := bj_target job @ ''-'' @ nat_text n\<rparr>) (enumerate 1 built)))"

text \<open>One \<open>target:command\<close> per job; the two override the defaults in their place.\<close>

definition inline_spec :: "'w batching_scheme \<Rightarrow> string \<Rightarrow> string list \<Rightarrow> payload \<Rightarrow> fault + batch_spec" where
  "inline_spec w name declared defaults =
     (let split = map (\<lambda>job. (job, partition_at CHR '':'' job)) declared in
      case filter (\<lambda>(_, _, found, _). \<not> found) split of
        (bare, _) # _ \<Rightarrow> Inl (MissionError (''jobs are written target:command, not '' @ repr_text bare))
      | [] \<Rightarrow> spec_of w name (map (\<lambda>(_, target, _, command).
                AList.update ''command'' (JStr command) (AList.update ''target'' (JStr target) defaults)) split))"

text \<open>What a batch is named by: its name and a digest of its jobs, a later field only once set.\<close>

definition job_dump :: "'w batching_scheme \<Rightarrow> batch_job \<Rightarrow> payload" where
  "job_dump w job =
     [(''name'', JStr (bj_name job)), (''target'', JStr (bj_target job)), (''command'', JStr (bj_command job)),
      (''data'', JList (map JStr (bj_data job))), (''runtime_s'', JFloat (b_float w (bj_runtime_s job))),
      (''queue'', JStr (bj_queue job)), (''walltime'', JStr (bj_walltime job)), (''mem_gb'', JInt (bj_mem_gb job)),
      (''gpus'', JInt (bj_gpus job)), (''gpu_name'', JStr (bj_gpu_name job)),
      (''max_usd'', JFloat (b_float w (bj_max_usd job)))]
     @ (if bj_spot job then [(''spot'', JBool True)] else [])
     @ (if bj_arch job \<noteq> [] then [(''arch'', JStr (bj_arch job))] else [])
     @ [(''nodes'', JInt (bj_nodes job)), (''env'', JStr (bj_env job)), (''container'', JStr (bj_container job)),
        (''fetch'', JStr (bj_fetch job)), (''node'', JStr (bj_node job))]"

definition batch_id :: "'w batching_scheme \<Rightarrow> batch_spec \<Rightarrow> string" where
  "batch_id w spec =
     bs_name spec @ ''-'' @ b_spec_digest w (JObj [(''name'', JStr (bs_name spec)),
       (''jobs'', JList (map (\<lambda>job. JObj (job_dump w job)) (bs_jobs spec)))])"


section \<open>The verbs\<close>

definition UNSELECTED :: string where "UNSELECTED = ''skipped: not named by --only''"

record dispatched =
  di_job :: string
  di_target :: string
  di_state :: string
  di_handle :: string
  di_kind :: string
  di_reason :: string

record batch =
  ba_spec :: batch_spec
  ba_id :: string
  ba_jobs :: "batch_job list"
  ba_skipped :: "batch_job list"

definition make_batch :: "'w batching_scheme \<Rightarrow> batch_spec \<Rightarrow> selection \<Rightarrow> fault + batch" where
  "make_batch w spec sel =
     (case chosen sel (bs_jobs spec) of
        Inl e \<Rightarrow> Inl e
      | Inr jobs \<Rightarrow> Inr \<lparr>ba_spec = spec, ba_id = batch_id w spec, ba_jobs = jobs,
                         ba_skipped = filter (\<lambda>job. \<not> holds sel (bj_name job)) (bs_jobs spec)\<rparr>)"

definition labelling :: "batch \<Rightarrow> string \<Rightarrow> string" where
  "labelling b job = LABEL @ ba_id b @ (if job = [] then [] else CHR ''/'' # job)"

definition told :: "'w batching_scheme \<Rightarrow> batch \<Rightarrow> batch_job \<Rightarrow> string \<Rightarrow> topic \<Rightarrow> string \<Rightarrow>
    ('s center_scheme, dispatched) comp" where
  "told w b job state topic reason =
     andThen (publish w (ba_id b) topic (bj_name job)
       [(''target'', JStr (bj_target job)), (''reason'', JStr reason)]) (\<lambda>_.
     ret \<lparr>di_job = bj_name job, di_target = bj_target job, di_state = state, di_handle = [], di_kind = [],
          di_reason = reason\<rparr>)"

text \<open>\<open>Dispatcher.hold\<close>: the request kept under a handle of its own, once.\<close>

definition hold :: "'w batching_scheme \<Rightarrow> request \<Rightarrow> string \<Rightarrow> ('s center_scheme, run_record) comp" where
  "hold w request reason =
     (let handle = ''held-'' @ b_digest w (req_target request @ CHR 0x0A # req_name request @ CHR 0x0A # req_command request) in
      andThen (trying is_lookup
        (andThen (run_named handle (Some (req_target request))) (\<lambda>known. ret (run_submitted_at known)))
        (\<lambda>_. now_text w)) (\<lambda>stamped.
      let record = \<lparr>run_handle = handle, run_target = req_target request, run_kind = [], run_script = req_command request,
            run_args = [], run_git_sha = [], run_dirty = None, run_submitted_at = stamped,
            run_fetch_path = req_fetch request, run_name = req_name request, run_node = req_node request,
            run_source = [], run_commit = [], run_digest = [], run_state = Some (word_text HELD), run_exit_code = None,
            run_verdict = Some (word_text HELD), run_reported = None, run_evidence = [], run_creation = [],
            run_request = Some request, run_lease = None, run_reason = reason, run_project = b_project w\<rparr>
      in andThen (record_run w record) (\<lambda>_. ret record)))"

definition batch_held ::
  "'w batching_scheme \<Rightarrow> batch \<Rightarrow> batch_job \<Rightarrow> fault \<Rightarrow> ('s center_scheme, dispatched) comp" where
  "batch_held w b job refusal =
     andThen (hold w (job_request job (labelling b (bj_name job))) (fault_text refusal)) (\<lambda>_.
     told w b job (word_text HELD) T_HELD (fault_text refusal))"

definition batch_refused ::
  "'w batching_scheme \<Rightarrow> batch \<Rightarrow> batch_job \<Rightarrow> fault \<Rightarrow> ('s center_scheme, dispatched) comp" where
  "batch_refused w b job refusal = told w b job (word_text VANISHED) T_REFUSED (fault_text refusal)"

definition batch_dispatch ::
  "'w batching_scheme \<Rightarrow> batch \<Rightarrow> batch_job \<Rightarrow> ('s center_scheme, dispatched) comp" where
  "batch_dispatch w b job =
     trying_else refusal_fault (dispatch w (job_request job (labelling b (bj_name job))))
       (\<lambda>refusal. if is_quota_refusal (fault_text refusal) then batch_held w b job refusal
                  else batch_refused w b job refusal)
       (\<lambda>run. andThen (publish w (ba_id b) T_SUBMITTED (bj_name job)
          ([(''handle'', JStr (hd_id (ro_handle run))), (''target'', JStr (bj_target job)),
            (''kind'', JStr (hd_kind (ro_handle run))), (''command'', JStr (bj_command job))]
           @ (if bj_node job \<noteq> [] then [(''node'', JStr (bj_node job))] else []))) (\<lambda>_.
          ret \<lparr>di_job = bj_name job, di_target = bj_target job, di_state = ''dispatched'',
               di_handle = hd_id (ro_handle run), di_kind = hd_kind (ro_handle run), di_reason = []\<rparr>))"

definition batch_skip :: "'w batching_scheme \<Rightarrow> batch \<Rightarrow> batch_job \<Rightarrow> ('s center_scheme, dispatched) comp" where
  "batch_skip w b job = told w b job (word_text SKIPPED) T_SKIPPED UNSELECTED"

definition batch_open :: "'w batching_scheme \<Rightarrow> batch \<Rightarrow> ('s center_scheme, unit) comp" where
  "batch_open w b =
     andThen (reading (replay (ba_id b))) (\<lambda>events.
       if events \<noteq> [] then ret ()
       else andThen (publish w (ba_id b) T_OPENED []
              [(''name'', JStr (bs_name (ba_spec b))), (''jobs'', JList (map (JStr \<circ> bj_name) (bs_jobs (ba_spec b)))),
               (''root'', JStr (b_root w))]) (\<lambda>_. ret ()))"

definition batch_run :: "'w batching_scheme \<Rightarrow> batch \<Rightarrow> ('s center_scheme, dispatched list) comp" where
  "batch_run w b =
     andThen (batch_open w b) (\<lambda>_.
     andThen (each (batch_dispatch w b) (ba_jobs b)) (\<lambda>sent.
     andThen (each (batch_skip w b) (ba_skipped b)) (\<lambda>left.
     ret (sent @ left))))"

end
