(* ===== verification/Watch.thy ===== *)
theory Watch
  imports Batch Outcomes
begin

text \<open>
  The live view over a dispatched batch (\<open>batch/watch.py\<close>): each pass settles what ended through the
  monitor, reads every job's row from the newest answer of its target and the run registry, publishes
  what changed about it once per run, records what a settled run spent, and closes the batch. The
  instants of the stream are read through a parameter, as floats are.
\<close>

record observation =
  ob_provider :: string
  ob_gpu :: string
  ob_region :: string
  ob_t_submit :: rat
  ob_t_running :: rat
  ob_t_ended :: rat
  ob_billed_usd :: rat
  ob_tier :: string
  ob_datacenter :: string
  ob_verdict :: string
  ob_ready_s :: rat
  ob_probe_mbps :: rat

record watching = center +
  wa_costs :: "observation list"

record viewing = batching +
  v_epoch :: "stamp \<Rightarrow> fault + rat"
  v_number :: "string \<Rightarrow> rat"
  v_busy_note :: "settlement_busy \<Rightarrow> string"

record job_status =
  jt_job :: string
  jt_target :: string
  jt_handle :: string
  jt_state :: string
  jt_verdict :: string
  jt_detail :: string

record batch_status =
  bt_batch :: string
  bt_jobs :: "job_status list"
  bt_running :: nat
  bt_note :: string

definition bt_settled :: "batch_status \<Rightarrow> bool" where
  "bt_settled st \<longleftrightarrow> bt_running st = 0"

definition UNKNOWN :: string where "UNKNOWN = ''unknown''"

definition UNFAILED :: "string list" where
  "UNFAILED = [word_text OK, word_text SKIPPED]"

text \<open>\<open>str(event.data[key])\<close>, which raises where the key is missing.\<close>

definition data_text :: "event \<Rightarrow> string \<Rightarrow> fault + string" where
  "data_text e k = (case map_of (ev_data e) k of None \<Rightarrow> Inl (LookupError k) | Some v \<Rightarrow> Inr (py_str v))"

text \<open>\<open>estimate.core.platform\<close>: a rental by its provider's kind, a queue by its host's alias.\<close>

definition platform :: "'w viewing_scheme \<Rightarrow> string \<Rightarrow> string \<Rightarrow> string" where
  "platform w alias kind = (if kind \<in> set (x_backends w) then kind else alias)"

definition timeline ::
  "'w viewing_scheme \<Rightarrow> job_status \<Rightarrow> event list \<Rightarrow> ('s watching_scheme, string \<times> rat \<times> rat \<times> rat) comp" where
  "timeline w row events =
     (let mine = filter (\<lambda>e. ev_job e = jt_job row \<and> map_of (ev_data e) ''handle'' = Some (JStr (jt_handle row))) events;
          sent = filter (\<lambda>e. ev_topic e = T_SUBMITTED) mine;
          started = filter (\<lambda>e. ev_topic e = T_STATE \<and> map_of (ev_data e) ''verdict'' = Some (JStr (word_text RUNNING))) mine
      in andThen (case sent of [] \<Rightarrow> ret [] | e # _ \<Rightarrow> returning (data_text e ''kind'')) (\<lambda>kind.
         andThen (now_text w) (\<lambda>t.
         andThen (returning (v_epoch w t)) (\<lambda>ended.
         andThen (case sent of [] \<Rightarrow> ret ended | e # _ \<Rightarrow> returning (v_epoch w (ev_at e))) (\<lambda>opened.
         andThen (case started of [] \<Rightarrow> ret 0 | e # _ \<Rightarrow> returning (v_epoch w (ev_at e))) (\<lambda>running.
         ret (platform w (jt_target row) kind, opened, running, ended)))))))"

definition sweep_detail :: "string \<Rightarrow> monitor_report \<Rightarrow> string" where
  "sweep_detail handle swept_report =
     (case map (\<lambda>f. case fi_pulled_path f of None \<Rightarrow> [] | Some p \<Rightarrow> p) (filter (\<lambda>f. fi_handle f = handle) (mr_finished swept_report))
           @ map fa_reason (filter (\<lambda>f. fa_handle f = handle) (mr_failed swept_report)) of
        [] \<Rightarrow> [] | first # _ \<Rightarrow> first)"

definition left_out :: "event list \<Rightarrow> string list \<Rightarrow> ('s watching_scheme, job_status list) comp" where
  "left_out events sent =
     each (\<lambda>(job, e).
         andThen (returning (data_text e ''target'')) (\<lambda>target.
         andThen (returning (data_text e ''reason'')) (\<lambda>reason.
         ret \<lparr>jt_job = job, jt_target = target, jt_handle = [], jt_state = [], jt_verdict = word_text SKIPPED,
              jt_detail = reason\<rparr>)))
       (filter (\<lambda>(job, _). job \<notin> set sent) (latest [T_SKIPPED] events))"

definition status_row ::
  "string \<Rightarrow> event \<Rightarrow> monitor_report \<Rightarrow> ('s watching_scheme, job_status) comp" where
  "status_row job sent swept_report =
     andThen (returning (data_text sent ''handle'')) (\<lambda>handle.
     andThen (returning (data_text sent ''target'')) (\<lambda>target.
     trying_else is_lookup (run_named handle (Some target))
       (\<lambda>_. ret \<lparr>jt_job = job, jt_target = target, jt_handle = handle, jt_state = [], jt_verdict = UNKNOWN,
                 jt_detail = ''the run registry has no record of this handle''\<rparr>)
       (\<lambda>record. ret \<lparr>jt_job = job, jt_target = target, jt_handle = handle,
          jt_state = (case run_state record of None \<Rightarrow> [] | Some t \<Rightarrow> t),
          jt_verdict = opt_text (run_verdict record) (word_text RUNNING),
          jt_detail = sweep_detail handle swept_report\<rparr>)))"

definition answered_row ::
  "string \<Rightarrow> event \<Rightarrow> monitor_report \<Rightarrow> ('s watching_scheme, job_status) comp" where
  "answered_row job answer swept_report =
     andThen (returning (data_text answer ''target'')) (\<lambda>target.
       if ev_topic answer = T_REFUSED
       then andThen (returning (data_text answer ''reason'')) (\<lambda>reason.
            ret \<lparr>jt_job = job, jt_target = target, jt_handle = [], jt_state = [], jt_verdict = word_text VANISHED,
                 jt_detail = reason\<rparr>)
       else if ev_topic answer = T_HELD
       then andThen (returning (data_text answer ''reason'')) (\<lambda>reason.
            ret \<lparr>jt_job = job, jt_target = target, jt_handle = [], jt_state = word_text HELD, jt_verdict = word_text HELD,
                 jt_detail = ''waiting on the target'' @ CHR 0x27 # ''s quota: '' @ reason\<rparr>)
       else status_row job answer swept_report)"

text \<open>\<open>_money\<close>: a number of the payload, zero for anything else; a truth value is a number to Python.\<close>

definition money :: "'w viewing_scheme \<Rightarrow> event option \<Rightarrow> string \<Rightarrow> rat" where
  "money w e field =
     (case e of
        None \<Rightarrow> 0
      | Some x \<Rightarrow>
          (case map_of (ev_data x) field of
             Some (JInt i) \<Rightarrow> of_int i
           | Some (JFloat t) \<Rightarrow> v_number w t
           | Some (JBool b) \<Rightarrow> (if b then 1 else 0)
           | _ \<Rightarrow> 0))"

text \<open>\<open>round(x, 4)\<close>, halves to even.\<close>

definition round4 :: "rat \<Rightarrow> rat" where
  "round4 x =
     (let y = x * 10000; f = \<lfloor>y\<rfloor>; d = y - of_int f;
          n = (if d < 1 / 2 then f else if 1 / 2 < d then f + 1 else if even f then f else f + 1)
      in of_int n / 10000)"

definition observe ::
  "'w viewing_scheme \<Rightarrow> string \<Rightarrow> job_status \<Rightarrow> event list \<Rightarrow> ('s watching_scheme, unit) comp" where
  "observe w batch row events =
     andThen (timeline w row events) (\<lambda>(key, opened, running, ended).
     let quoted = map_of (latest [T_ESTIMATED] events) (jt_job row);
         actual = money w quoted ''rate_usd_hr'' * (ended - opened) / 3600;
         expected = money w quoted ''expected_usd'';
         caught = (running \<noteq> 0)
     in andThen (publish w batch T_COST (jt_job row)
          [(''platform'', JStr key),
           (''setup_s'', JFloat (b_float w (if caught then running - opened else 0))),
           (''run_s'', JFloat (b_float w (if caught then ended - running else 0))),
           (''observed'', JBool caught),
           (''expected_usd'', JFloat (b_float w (round4 expected))),
           (''actual_usd'', JFloat (b_float w (round4 actual))),
           (''delta_usd'', JFloat (b_float w (round4 (actual - expected))))]) (\<lambda>_.
        if caught
        then changing (\<lambda>s. s\<lparr>wa_costs := wa_costs s @ [\<lparr>ob_provider = key, ob_gpu = [], ob_region = [],
               ob_t_submit = opened, ob_t_running = running, ob_t_ended = ended, ob_billed_usd = round4 actual,
               ob_tier = [], ob_datacenter = [], ob_verdict = [], ob_ready_s = 0, ob_probe_mbps = 0\<rparr>]\<rparr>)
        else ret ()))"

definition record_row ::
  "'w viewing_scheme \<Rightarrow> string \<Rightarrow> job_status \<Rightarrow> event list \<Rightarrow> ('s watching_scheme, bool) comp" where
  "record_row w batch row events =
     (let seen = map_of (latest [T_STATE] events) (jt_job row);
          reported = (\<lambda>e. map_of (ev_data e) ''handle'' = Some (JStr (jt_handle row)) \<and>
                          map_of (ev_data e) ''verdict'' = Some (JStr (jt_verdict row)));
          moved = (case seen of None \<Rightarrow> True | Some e \<Rightarrow> \<not> reported e);
          over = map_of (latest [T_SETTLED] events) (jt_job row)
      in andThen (if moved
           then andThen (publish w batch T_STATE (jt_job row)
                  [(''handle'', JStr (jt_handle row)), (''state'', JStr (jt_state row)), (''verdict'', JStr (jt_verdict row))])
                  (\<lambda>_. ret ())
           else ret ()) (\<lambda>_.
         if \<not> settled_text (jt_verdict row) \<or>
            (case over of None \<Rightarrow> False | Some e \<Rightarrow> map_of (ev_data e) ''handle'' = Some (JStr (jt_handle row)))
         then ret False
         else andThen (observe w batch row events) (\<lambda>_.
              andThen (publish w batch T_SETTLED (jt_job row)
                [(''handle'', JStr (jt_handle row)), (''verdict'', JStr (jt_verdict row)), (''detail'', JStr (jt_detail row))]) (\<lambda>_.
              ret True))))"

definition close_batch ::
  "'w viewing_scheme \<Rightarrow> string \<Rightarrow> batch_status \<Rightarrow> bool \<Rightarrow> ('s watching_scheme, unit) comp" where
  "close_batch w batch st any_landed =
     (if \<not> bt_settled st \<or> \<not> any_landed then ret ()
      else
        let counted = (\<lambda>P. JInt (int (length (filter (\<lambda>job. P (jt_verdict job)) (bt_jobs st))))) in
        andThen (publish w batch T_CLOSED []
          [(''jobs'', JInt (int (length (bt_jobs st)))), (''ok'', counted (\<lambda>v. v = word_text OK)),
           (''failed'', counted (\<lambda>v. v \<notin> set UNFAILED)), (''skipped'', counted (\<lambda>v. v = word_text SKIPPED))]) (\<lambda>_. ret ()))"

definition watch_once ::
  "'w viewing_scheme \<Rightarrow> string \<Rightarrow> string \<Rightarrow> ('s watching_scheme, batch_status) comp" where
  "watch_once w batch deadline =
     andThen (once w None deadline) (\<lambda>swept_report.
     andThen (reading (replay batch)) (\<lambda>events.
     andThen (each (\<lambda>(job, answer). answered_row job answer swept_report) (offered events)) (\<lambda>rows.
     andThen (each (\<lambda>row. record_row w batch row events) rows) (\<lambda>found.
     andThen (left_out events (map jt_job rows)) (\<lambda>rest.
     let st = \<lparr>bt_batch = batch, bt_jobs = rows @ rest,
               bt_running = length (filter (\<lambda>row. \<not> settled_text (jt_verdict row)) rows),
               bt_note = (case mr_busy swept_report of None \<Rightarrow> [] | Some busy \<Rightarrow> v_busy_note w busy)\<rparr>
     in andThen (close_batch w batch st (list_ex id found)) (\<lambda>_. ret st))))))"

end
