(* ===== verification/Batch_Properties.thy ===== *)
theory Batch_Properties
  imports Watch Settle_Order "HOL-Library.Multiset"
begin

text \<open>
  What a batch promises: a run of it answers every declared job once, whatever its targets say, and
  keeps a line for each; a watching pass publishes what a run came to once.
\<close>

section \<open>Lines are only added\<close>

definition lines_grow :: "'s store_scheme \<Rightarrow> 's store_scheme \<Rightarrow> bool" where
  "lines_grow s t \<longleftrightarrow> prefix (st_events s) (st_events t)"

interpretation lines: step_preorder lines_grow
  by unfold_locales (auto simp: lines_grow_def)

lemma replay_grows: "lines_grow s t \<Longrightarrow> prefix (replay b s) (replay b t)"
  by (auto simp: lines_grow_def replay_def prefix_def)

lemma st_events_logged [simp]: "st_events (logged w run gone s) = st_events s"
  by (simp add: logged_def)

lemma transition_events [simp]: "st_events (snd (transition w run v f e s)) = st_events s"
  by (simp add: transition_apply split: option.split)

lemma perform_events [simp]: "st_events (snd (perform w op s)) = st_events s"
proof (cases op)
  case (Bind run handle)
  then show ?thesis
    by (simp add: bind_def comp_simps row_of_def append_runs_def Let_def split: option.split)
next
  case (Reserve run)
  then show ?thesis by (simp add: reserve_def comp_simps row_of_def append_runs_def)
qed (simp_all add: record_run_apply resolve_def report_def delivery_def forget_apply relet_apply
    prepared_def reopen_def andThen_ret_state split: option.split)

lemma perform_all_events [simp]: "st_events (perform_all w ops s) = st_events s"
  by (induction ops arbitrary: s) simp_all

lemma lines_publish [steps]: "along lines_grow (publish w batch topic job data)"
  by (rule alongI) (simp add: publish_apply Let_def journal_publish_def lines_grow_def)

lemma lines_now [steps]: "along lines_grow (now_text w)"
  by (rule alongI) (simp add: now_text_def lines_grow_def)

section \<open>One row per job\<close>

text \<open>What a row of a run is worth: the line of its job that says so.\<close>

definition row_told :: "string \<Rightarrow> dispatched \<Rightarrow> 's store_scheme \<Rightarrow> bool" where
  "row_told b row s \<longleftrightarrow>
     (\<exists>e \<in> set (replay b s). ev_job e = di_job row \<and>
        map_of (ev_data e) ''target'' = Some (JStr (di_target row)) \<and>
        (if di_state row = ''dispatched''
         then ev_topic e = T_SUBMITTED \<and> map_of (ev_data e) ''handle'' = Some (JStr (di_handle row))
         else map_of (ev_data e) ''reason'' = Some (JStr (di_reason row)) \<and>
           (ev_topic e, di_state row) \<in> {(T_HELD, word_text HELD), (T_REFUSED, word_text VANISHED), (T_SKIPPED, word_text SKIPPED)}))"

lemma row_told_grows: "row_told b row s \<Longrightarrow> lines_grow s t \<Longrightarrow> row_told b row t"
  unfolding row_told_def using replay_grows [THEN set_mono_prefix] by blast

text \<open>A step that always answers its job's row and keeps its line.\<close>

definition answers :: "string \<Rightarrow> (batch_job \<Rightarrow> ('s center_scheme, dispatched) comp) \<Rightarrow> bool" where
  "answers b f \<longleftrightarrow> (\<forall>job s. \<exists>row t. f job s = (Inr row, t) \<and> di_job row = bj_name job \<and> lines_grow s t \<and> row_told b row t)"

lemma answers_each:
  assumes "answers b f"
  shows "\<exists>rows t. each f jobs s = (Inr rows, t) \<and> map di_job rows = map bj_name jobs \<and> lines_grow s t \<and>
    list_all (\<lambda>row. row_told b row t) rows"
proof (induction jobs arbitrary: s)
  case (Cons job jobs)
  from assms obtain row t where one: "f job s = (Inr row, t)" "di_job row = bj_name job" "lines_grow s t" "row_told b row t"
    unfolding answers_def by blast
  from Cons obtain rows u where rest: "each f jobs t = (Inr rows, u)" "map di_job rows = map bj_name jobs" "lines_grow t u"
    "list_all (\<lambda>row. row_told b row u) rows" by blast
  with one show ?case
    by (auto simp: andThen_apply intro: lines.R_trans row_told_grows)
qed (simp add: lines.R_refl)

lemma told_answers:
  assumes "(topic, state) \<in> {(T_HELD, word_text HELD), (T_REFUSED, word_text VANISHED), (T_SKIPPED, word_text SKIPPED)}"
  shows "\<exists>row t. told w b job state topic reason s = (Inr row, t) \<and> di_job row = bj_name job \<and> lines_grow s t \<and>
    row_told (ba_id b) row t"
proof -
  obtain e t where p: "publish w (ba_id b) topic (bj_name job) [(''target'', JStr (bj_target job)), (''reason'', JStr reason)] s = (Inr e, t)"
    by (simp add: publish_apply Let_def)
  then have "replay (ba_id b) t = replay (ba_id b) s @ [e]" "ev_topic e = topic" "ev_job e = bj_name job"
    "ev_data e = [(''target'', JStr (bj_target job)), (''reason'', JStr reason)]"
    using replay_publish [of "ba_id b" w "ba_id b" topic "bj_name job" "[(''target'', JStr (bj_target job)), (''reason'', JStr reason)]" s]
    by (auto simp: publish_apply Let_def)
  moreover have "lines_grow s t" using p by (rule alongD [OF lines_publish])
  moreover have "state \<noteq> ''dispatched''" using assms by auto
  ultimately show ?thesis using p assms by (auto simp: told_def andThen_apply row_told_def)
qed

lemma run_named_refusal: "fst (run_named h t s) = Inl e \<Longrightarrow> is_lookup e"
  by (auto simp: run_named_def andThen_apply Let_def split: list.splits if_splits)

lemma hold_answers:
  "\<exists>kept t. hold w request reason s = (Inr kept, t) \<and> st_events t = st_events s"
proof -
  obtain r u where r: "run_named (''held-'' @ b_digest w (req_target request @ CHR 0x0A # req_name request @ CHR 0x0A # req_command request))
      (Some (req_target request)) s = (r, u)" by fastforce
  have "u = s" using run_named_state [of _ _ s] r by (metis snd_conv)
  moreover have "is_lookup e" if "r = Inl e" for e using run_named_refusal r that by (metis fst_conv)
  ultimately show ?thesis using r
    by (cases r) (simp_all add: hold_def Let_def andThen_apply trying_apply now_text_def record_run_apply)
qed

lemma dispatch_events [simp]: "st_events (snd (dispatch w request s)) = st_events s"
  by (simp add: dispatch_state)

text \<open>A dispatch fails only with what a batch takes as a refusal.\<close>

definition refuses_only :: "'w outside_scheme \<Rightarrow> bool" where
  "refuses_only w \<longleftrightarrow> (\<forall>n r e. fst (x_dispatch w n r) = Inl e \<longrightarrow> refusal_fault e)"

lemma dispatch_answers:
  assumes "refuses_only w"
  shows "answers (ba_id b) (batch_dispatch w b)"
  unfolding answers_def
proof (intro allI)
  fix job and s :: "'s center_scheme"
  let ?request = "job_request job (labelling b (bj_name job))"
  obtain r u where r: "dispatch w ?request s = (r, u)" by fastforce
  then have same: "st_events u = st_events s" using dispatch_events [of w ?request s] by simp
  then have grown: "lines_grow s u" by (simp add: lines_grow_def)
  show "\<exists>row t. batch_dispatch w b job s = (Inr row, t) \<and> di_job row = bj_name job \<and> lines_grow s t \<and> row_told (ba_id b) row t"
  proof (cases r)
    case (Inl e)
    with r have "fst (x_dispatch w (moment s) ?request) = Inl e"
      by (simp add: dispatch_def andThen_apply doing_def split: prod.splits)
    with assms have caught: "refusal_fault e" by (simp add: refuses_only_def)
    show ?thesis
    proof (cases "is_quota_refusal (fault_text e)")
      case True
      obtain kept v where v: "hold w ?request (fault_text e) u = (Inr kept, v)" "st_events v = st_events u"
        using hold_answers by blast
      obtain row t where "told w b job (word_text HELD) T_HELD (fault_text e) v = (Inr row, t)" "di_job row = bj_name job"
        "lines_grow v t" "row_told (ba_id b) row t" using told_answers [of T_HELD "word_text HELD"] by blast
      with v grown r Inl caught True same show ?thesis
        by (auto simp: batch_dispatch_def batch_held_def trying_else_apply andThen_apply lines_grow_def)
    next
      case False
      obtain row t where "told w b job (word_text VANISHED) T_REFUSED (fault_text e) u = (Inr row, t)" "di_job row = bj_name job"
        "lines_grow u t" "row_told (ba_id b) row t" using told_answers [of T_REFUSED "word_text VANISHED"] by blast
      with grown r Inl caught False same show ?thesis
        by (auto simp: batch_dispatch_def batch_refused_def trying_else_apply lines_grow_def)
    qed
  next
    case (Inr run)
    let ?data = "[(''handle'', JStr (hd_id (ro_handle run))), (''target'', JStr (bj_target job)),
            (''kind'', JStr (hd_kind (ro_handle run))), (''command'', JStr (bj_command job))]
           @ (if bj_node job \<noteq> [] then [(''node'', JStr (bj_node job))] else [])"
    obtain e t where p: "publish w (ba_id b) T_SUBMITTED (bj_name job) ?data u = (Inr e, t)"
      by (simp add: publish_apply Let_def)
    then have "replay (ba_id b) t = replay (ba_id b) u @ [e]" "ev_topic e = T_SUBMITTED" "ev_job e = bj_name job" "ev_data e = ?data"
      using replay_publish [of "ba_id b" w "ba_id b" T_SUBMITTED "bj_name job" ?data u] by (auto simp: publish_apply Let_def)
    moreover have "lines_grow u t" using p by (rule alongD [OF lines_publish])
    ultimately show ?thesis using p r Inr same
      by (auto simp: batch_dispatch_def trying_else_apply andThen_apply row_told_def lines_grow_def)
  qed
qed

lemma chosen_skipped:
  assumes "make_batch w spec sel = Inr b"
  shows "mset (ba_jobs b) + mset (ba_skipped b) = mset (bs_jobs spec)" and "ba_spec b = spec" and "ba_id b = batch_id w spec"
proof -
  have "holds [] name" for name by (simp add: holds_def)
  with assms show "mset (ba_jobs b) + mset (ba_skipped b) = mset (bs_jobs spec)"
    by (auto simp: make_batch_def chosen_def Let_def mset_filter multiset_partition [symmetric] split: if_splits list.splits sum.splits)
qed (use assms in \<open>auto simp: make_batch_def split: sum.splits\<close>)

section \<open>Properties\<close>

text \<open>
  C29. A run of a batch answers every declared job once, whatever its targets say. As long as a
  dispatch fails only with what a batch takes as a refusal, the run returns; its rows are the chosen
  jobs and then the ones the selection left out, which together are the declared jobs; and for each
  row the batch's stream holds the line that says so: the submission with its handle, the hold or the
  refusal with its reason, or the skip.
\<close>

theorem batch_answers_every_job:
  assumes "make_batch w spec sel = Inr b" and "refuses_only w"
  shows "\<exists>rows t. batch_run w b s = (Inr rows, t) \<and>
    map di_job rows = map bj_name (ba_jobs b) @ map bj_name (ba_skipped b) \<and>
    mset (map di_job rows) = mset (map bj_name (bs_jobs spec)) \<and>
    list_all (\<lambda>row. row_told (batch_id w spec) row t) rows"
proof -
  obtain u where u: "batch_open w b s = (Inr (), u)"
    by (cases "replay (ba_id b) s") (simp_all add: batch_open_def andThen_apply publish_apply Let_def)
  obtain sent v where v: "each (batch_dispatch w b) (ba_jobs b) u = (Inr sent, v)" "map di_job sent = map bj_name (ba_jobs b)"
    "list_all (\<lambda>row. row_told (ba_id b) row v) sent"
    using answers_each [OF dispatch_answers [OF assms(2)]] by blast
  have "answers (ba_id b) (batch_skip w b)"
    unfolding answers_def batch_skip_def using told_answers [of T_SKIPPED "word_text SKIPPED"] by blast
  from answers_each [OF this] obtain left t where t: "each (batch_skip w b) (ba_skipped b) v = (Inr left, t)"
    "map di_job left = map bj_name (ba_skipped b)" "lines_grow v t" "list_all (\<lambda>row. row_told (ba_id b) row t) left" by blast
  have "mset (map di_job (sent @ left)) = mset (map bj_name (bs_jobs spec))"
    unfolding map_append v(2) t(2) using chosen_skipped(1) [OF assms(1)] by (metis image_mset_union mset_append mset_map)
  moreover have "list_all (\<lambda>row. row_told (ba_id b) row t) (sent @ left)"
    using v(3) t(3,4) by (auto simp: list_all_iff intro: row_told_grows)
  moreover have "batch_run w b s = (Inr (sent @ left), t)" using u v(1) t(1) by (simp add: batch_run_def andThen_apply)
  ultimately show ?thesis using v(2) t(2) chosen_skipped(3) [OF assms(1)] by (metis map_append)
qed

text \<open>A batch whose one target has no room, under the sample of a settling process.\<close>

definition sample_batch_job :: batch_job where
  "sample_batch_job = \<lparr>bj_name = ''one'', bj_target = ''gold'', bj_command = ''true'', bj_data = [], bj_runtime_s = 0,
     bj_queue = [], bj_walltime = [], bj_mem_gb = 0, bj_gpus = 0, bj_gpu_name = [], bj_max_usd = 0, bj_spot = False,
     bj_arch = [], bj_nodes = 1, bj_env = [], bj_container = [], bj_fetch = [], bj_node = []\<rparr>"

definition sample_batching :: batching where
  "sample_batching = outside.extend sample_outside
     \<lparr>b_job = \<lambda>_. Inr sample_batch_job, b_digest = id, b_spec_digest = \<lambda>_. ''0a'', b_float = \<lambda>_. ''0.0'', b_root = [], b_project = []\<rparr>"

theorem batch_answers_every_job_witness:
  "\<exists>b rows t. make_batch sample_batching \<lparr>bs_name = ''b'', bs_jobs = [sample_batch_job]\<rparr> [] = Inr b \<and>
     batch_run sample_batching b (sample_center RUNNING) = (Inr rows, t) \<and> map di_job rows = [''one'']"
proof -
  let ?spec = "\<lparr>bs_name = ''b'', bs_jobs = [sample_batch_job]\<rparr>"
  obtain b where b: "make_batch sample_batching ?spec [] = Inr b" and jobs: "ba_jobs b = [sample_batch_job]" "ba_skipped b = []"
    by (simp add: make_batch_def chosen_def holds_def)
  have "refuses_only sample_batching"
    by (simp add: refuses_only_def sample_batching_def outside.defs sample_outside_def refusal_fault_def)
  from batch_answers_every_job [OF b this, of "sample_center RUNNING"] jobs b
  show ?thesis by (auto simp: sample_batch_job_def)
qed

section \<open>A watching pass\<close>

text \<open>Reading the clock adds no line.\<close>

definition unsaid :: "'s store_scheme \<Rightarrow> 's store_scheme \<Rightarrow> bool" where
  "unsaid s t \<longleftrightarrow> st_events t = st_events s \<and> lk_ticks s \<le> lk_ticks t"

interpretation quiet: step_preorder unsaid
  by unfold_locales (auto simp: unsaid_def)

lemma quiet_now [steps]: "along unsaid (now_text w)"
  by (rule alongI) (simp add: now_text_def unsaid_def)

lemma quiet_timeline: "along unsaid (timeline w row events)"
  unfolding timeline_def Let_def by (intro steps)

text \<open>One line, stamped no earlier than the state it was written in.\<close>

definition adds_line :: "'w world_scheme \<Rightarrow> string \<Rightarrow> 's store_scheme \<Rightarrow> 's store_scheme \<Rightarrow> event \<Rightarrow> bool" where
  "adds_line w b s t e \<longleftrightarrow>
     replay b t = replay b s @ [e] \<and> (\<exists>n. lk_ticks s \<le> n \<and> n < lk_ticks t \<and> ev_at e = now_at w n)"

lemma publish_adds:
  "\<exists>t. publish w b topic job data s =
      (Inr \<lparr>ev_at = now_at w (lk_ticks s), ev_batch = b, ev_topic = topic, ev_job = job, ev_data = data\<rparr>, t) \<and>
    adds_line w b s t \<lparr>ev_at = now_at w (lk_ticks s), ev_batch = b, ev_topic = topic, ev_job = job, ev_data = data\<rparr>"
proof -
  have "lk_ticks (snd (publish w b topic job data s)) = Suc (lk_ticks s)"
    by (simp add: publish_apply Let_def journal_publish_def)
  then show ?thesis
    using replay_publish [of b w b topic job data s] by (auto simp: adds_line_def publish_apply Let_def)
qed

lemma publish_then_quiet:
  assumes "andThen (publish w b topic job data) f s = (r, t)" and "\<And>e. along unsaid (f e)"
  shows "\<exists>e. adds_line w b s t e \<and> ev_topic e = topic"
proof -
  let ?e = "\<lparr>ev_at = now_at w (lk_ticks s), ev_batch = b, ev_topic = topic, ev_job = job, ev_data = data\<rparr>"
  obtain u where u: "publish w b topic job data s = (Inr ?e, u)" "adds_line w b s u ?e" using publish_adds by blast
  then have "f ?e u = (r, t)" using assms(1) by (simp add: andThen_apply)
  then have "unsaid u t" by (rule alongD [OF assms(2)])
  with u(2) have "adds_line w b s t ?e" by (auto simp: unsaid_def adds_line_def replay_def)
  then show ?thesis by fastforce
qed

lemma quiet_costs: "along unsaid (changing (\<lambda>s. s\<lparr>wa_costs := g s\<rparr>))"
  by (rule quiet.along_changing) (simp add: unsaid_def)

lemma observe_adds:
  assumes "observe w b row events s = (Inr (), t)"
  shows "\<exists>e. adds_line w b s t e \<and> ev_topic e = T_COST"
proof (rule andThen_InrE [OF assms [unfolded observe_def Let_def]], goal_cases)
  case (1 p u)
  obtain key opened running ended where p: "p = (key, opened, running, ended)" by (cases p)
  have "unsaid s u" using 1(1) by (rule alongD [OF quiet_timeline])
  then have same: "replay b u = replay b s" "lk_ticks s \<le> lk_ticks u" by (simp_all add: unsaid_def replay_def)
  have "\<exists>e. adds_line w b u t e \<and> ev_topic e = T_COST"
    by (rule publish_then_quiet [OF 1(2) [unfolded p prod.case]]) (intro steps quiet_costs)
  then obtain e where e: "adds_line w b u t e" "ev_topic e = T_COST" by blast
  then have "adds_line w b s t e" using same by (auto simp: adds_line_def intro: le_trans)
  with e(2) show ?case by blast
qed

text \<open>The stream's stamps are in the past, and the clock does not go back.\<close>

definition stamped_past :: "'w world_scheme \<Rightarrow> string \<Rightarrow> 's store_scheme \<Rightarrow> bool" where
  "stamped_past w b s \<longleftrightarrow>
     (\<forall>e \<in> set (replay b s). \<forall>n. lk_ticks s \<le> n \<longrightarrow> ev_at e \<le> now_at w n) \<and>
     (\<forall>m n. lk_ticks s \<le> m \<longrightarrow> m \<le> n \<longrightarrow> now_at w m \<le> now_at w n)"

lemma adds_line_past:
  assumes "adds_line w b s t e" and "stamped_past w b s"
  shows "stamped_past w b t"
    and "\<And>topics job. ev_topic e \<in> set topics \<Longrightarrow> ev_job e = job \<Longrightarrow> map_of (latest topics (replay b t)) job = Some e"
    and "\<And>topics job. ev_topic e \<notin> set topics \<Longrightarrow> map_of (latest topics (replay b t)) job = map_of (latest topics (replay b s)) job"
proof -
  from assms(1) obtain n where n: "replay b t = replay b s @ [e]" "lk_ticks s \<le> n" "n < lk_ticks t" "ev_at e = now_at w n"
    by (auto simp: adds_line_def)
  have past: "ev_at x \<le> ev_at e" if "x \<in> set (replay b s)" for x
    using assms(2) n that by (simp add: stamped_past_def)
  show "stamped_past w b t"
    using assms(2) n by (auto simp: stamped_past_def)
  show "map_of (latest topics (replay b t)) job = Some e" if "ev_topic e \<in> set topics" "ev_job e = job" for topics job
    using that past latest_Some [of topics "replay b s" job] by (auto simp: n(1) latest_snoc split: option.split)
  show "map_of (latest topics (replay b t)) job = map_of (latest topics (replay b s)) job" if "ev_topic e \<notin> set topics" for topics job
    using that by (simp add: n(1) latest_snoc)
qed

text \<open>What a first recording leaves behind, when it said the state of the run and when it settled it.\<close>

definition state_said :: "string \<Rightarrow> job_status \<Rightarrow> 's store_scheme \<Rightarrow> bool" where
  "state_said b row s \<longleftrightarrow>
     (\<exists>e. map_of (latest [T_STATE] (replay b s)) (jt_job row) = Some e \<and>
        map_of (ev_data e) ''handle'' = Some (JStr (jt_handle row)) \<and> map_of (ev_data e) ''verdict'' = Some (JStr (jt_verdict row)))"

definition settled_said :: "string \<Rightarrow> job_status \<Rightarrow> 's store_scheme \<Rightarrow> bool" where
  "settled_said b row s \<longleftrightarrow>
     (\<exists>e. map_of (latest [T_SETTLED] (replay b s)) (jt_job row) = Some e \<and>
        map_of (ev_data e) ''handle'' = Some (JStr (jt_handle row)))"

lemma record_row_said:
  assumes "state_said b row s"
  shows "record_row w b row (replay b s) s =
    (if \<not> settled_text (jt_verdict row) \<or> settled_said b row s then (Inr False, s)
     else andThen (observe w b row (replay b s)) (\<lambda>_.
       andThen (publish w b T_SETTLED (jt_job row)
         [(''handle'', JStr (jt_handle row)), (''verdict'', JStr (jt_verdict row)), (''detail'', JStr (jt_detail row))]) (\<lambda>_.
       ret True)) s)"
  using assms by (auto simp: record_row_def state_said_def settled_said_def Let_def andThen_apply split: option.splits)

definition settlements :: "string \<Rightarrow> 's store_scheme \<Rightarrow> nat" where
  "settlements b s = length (filter (\<lambda>e. ev_topic e = T_SETTLED) (replay b s))"

abbreviation settle_line :: "job_status \<Rightarrow> payload" where
  "settle_line row \<equiv>
     [(''handle'', JStr (jt_handle row)), (''verdict'', JStr (jt_verdict row)), (''detail'', JStr (jt_detail row))]"

abbreviation settling_row ::
  "'w viewing_scheme \<Rightarrow> string \<Rightarrow> job_status \<Rightarrow> event list \<Rightarrow> ('s watching_scheme, bool) comp" where
  "settling_row w b row events \<equiv>
     andThen (observe w b row events) (\<lambda>_. andThen (publish w b T_SETTLED (jt_job row) (settle_line row)) (\<lambda>_. ret True))"

text \<open>Once the state is said, what is left of a recording is the settlement, if one is due.\<close>

lemma record_row_states:
  assumes "stamped_past w b s" and "record_row w b row (replay b s) s = (Inr landed_now, t)"
  obtains u where "stamped_past w b u" and "state_said b row u" and "settled_said b row u = settled_said b row s"
    and "settlements b u = settlements b s"
    and "(if \<not> settled_text (jt_verdict row) \<or> settled_said b row s then (Inr False, u)
      else settling_row w b row (replay b s) u) = (Inr landed_now, t)"
proof (cases "state_said b row s")
  case True
  with assms that [of s] show ?thesis by (simp add: record_row_said cong: if_cong)
next
  case False
  let ?state = "[(''handle'', JStr (jt_handle row)), (''state'', JStr (jt_state row)), (''verdict'', JStr (jt_verdict row))]"
  obtain v e where v: "publish w b T_STATE (jt_job row) ?state s = (Inr e, v)" "adds_line w b s v e"
    "ev_topic e = T_STATE" "ev_job e = jt_job row" "ev_data e = ?state"
    using publish_adds [of w b T_STATE "jt_job row" ?state s] by auto
  note past = adds_line_past [OF v(2) assms(1)]
  have "state_said b row v" using past(2) [of "[T_STATE]" "jt_job row"] v(3-5) by (simp add: state_said_def)
  moreover have "settled_said b row v = settled_said b row s"
    using past(3) [of "[T_SETTLED]" "jt_job row"] v(3) by (simp add: settled_said_def)
  moreover have "settlements b v = settlements b s" using v(2,3) by (auto simp: settlements_def adds_line_def)
  moreover have "(if \<not> settled_text (jt_verdict row) \<or> settled_said b row s then (Inr False, v)
      else settling_row w b row (replay b s) v) = (Inr landed_now, t)"
    using assms(2) False v(1)
    by (auto simp: record_row_def state_said_def settled_said_def Let_def andThen_apply split: option.splits if_splits)
  ultimately show ?thesis using that past(1) by blast
qed

text \<open>
  C30. A watching pass says what a run came to once. Recording a row publishes a settlement of its
  job exactly when the row has settled and the newest settlement of the job was not of this handle,
  so that an earlier submission never silences a later one; and recording the same row on the next
  pass says nothing more at all.
\<close>

theorem watch_settles_once:
  assumes "stamped_past w b s" and "record_row w b row (replay b s) s = (Inr landed_now, t)"
  shows "(landed_now \<longleftrightarrow> settled_text (jt_verdict row) \<and> \<not> settled_said b row s) \<and>
    settlements b t = settlements b s + (if landed_now then 1 else 0) \<and>
    record_row w b row (replay b t) t = (Inr False, t)"
proof -
  let ?job = "jt_job row"
  obtain u where u: "stamped_past w b u" "state_said b row u" "settled_said b row u = settled_said b row s"
    "settlements b u = settlements b s"
    "(if \<not> settled_text (jt_verdict row) \<or> settled_said b row s then (Inr False, u)
      else settling_row w b row (replay b s) u) = (Inr landed_now, t)" using record_row_states [OF assms] .
  show ?thesis
  proof (cases "\<not> settled_text (jt_verdict row) \<or> settled_said b row s")
    case True
    with u have "landed_now = False" "t = u" by auto
    with u True show ?thesis using record_row_said [OF u(2), of w] by auto
  next
    case False
    with u(5) obtain x e where x: "observe w b row (replay b s) u = (Inr (), x)"
      and e: "publish w b T_SETTLED ?job (settle_line row) x = (Inr e, t)" and now: "landed_now"
      by (auto elim!: andThen_InrE)
    obtain c where c: "adds_line w b u x c" "ev_topic c = T_COST" using observe_adds [OF x] by blast
    note cost = adds_line_past [OF c(1) u(1)]
    have added: "adds_line w b x t e" "ev_topic e = T_SETTLED" "ev_job e = ?job" "ev_data e = (settle_line row)"
      using publish_adds [of w b T_SETTLED ?job "settle_line row" x] e by auto
    note over = adds_line_past [OF added(1) cost(1)]
    have said: "settled_said b row t" using over(2) [of "[T_SETTLED]" ?job] added(2-4) by (simp add: settled_said_def)
    have "state_said b row t"
      using u(2) over(3) [of "[T_STATE]" ?job] cost(3) [of "[T_STATE]" ?job] added(2) c(2) by (simp add: state_said_def)
    from record_row_said [OF this, of w] said have "record_row w b row (replay b t) t = (Inr False, t)" by simp
    moreover have "settlements b t = settlements b s + 1"
      using c added(1,2) u(4) by (auto simp: settlements_def adds_line_def)
    ultimately show ?thesis using False now by simp
  qed
qed

definition sample_viewing :: viewing where
  "sample_viewing = batching.extend (sample_batching\<lparr>now_at := \<lambda>n. replicate n CHR ''z''\<rparr>)
     \<lparr>v_epoch = \<lambda>_. Inr 0, v_number = \<lambda>_. 0, v_busy_note = \<lambda>_. []\<rparr>"

definition sample_watching :: watching where
  "sample_watching = center.extend (sample_center RUNNING) \<lparr>wa_costs = []\<rparr>"

definition sample_status :: job_status where
  "sample_status = \<lparr>jt_job = ''one'', jt_target = ''gold'', jt_handle = ''7'', jt_state = [], jt_verdict = ''ok'', jt_detail = []\<rparr>"

theorem watch_settles_once_witness:
  "\<exists>t. record_row sample_viewing ''b'' sample_status (replay ''b'' sample_watching) sample_watching = (Inr True, t) \<and>
     record_row sample_viewing ''b'' sample_status (replay ''b'' t) t = (Inr False, t)"
proof -
  have empty: "replay ''b'' sample_watching = []" by (simp add: replay_def sample_watching_def center.defs sample_center_def)
  have now: "now_at sample_viewing n = replicate n CHR ''z''" for n
    by (simp add: sample_viewing_def batching.defs)
  have mono: "replicate m CHR ''z'' \<le> replicate n CHR ''z''" if "m \<le> n" for m n
    using that
  proof (induction m arbitrary: n)
    case (Suc m)
    then show ?case by (cases n) simp_all
  qed simp
  have past: "stamped_past sample_viewing ''b'' sample_watching" by (simp add: stamped_past_def empty now mono)
  have "fst (record_row sample_viewing ''b'' sample_status [] sample_watching) = Inr True"
    by (simp add: record_row_def observe_def timeline_def sample_status_def latest_def andThen_apply publish_apply now_text_def Let_def
        settled_text_def sample_viewing_def batching.defs) code_simp
  then obtain t where t: "record_row sample_viewing ''b'' sample_status (replay ''b'' sample_watching) sample_watching = (Inr True, t)"
    unfolding empty by (metis surjective_pairing)
  from watch_settles_once [OF past t] t show ?thesis by blast
qed

end
