(* ===== verification/Costs.thy ===== *)
theory Costs
  imports Watch
begin

text \<open>
  What a rental costs (\<open>costs/\<close>): a provider's billing mechanics, the observations the lake keeps of
  finished rentals, the setup time fitted from them, the catalog that prices every offer of a card,
  and the scorecard that ranks offers by what one delivered job costs. Floats are the rationals they
  stand for, so the tests for infinities and NaN always pass and rounding of sums is not modelled;
  a billing granularity is at least one second.
\<close>

section \<open>Billing\<close>

definition SECONDS_PER_HOUR :: rat where "SECONDS_PER_HOUR = 3600"
definition RELEASE_SECONDS :: int where "RELEASE_SECONDS = 120"
definition DEFAULT_RUN_SECONDS :: rat where "DEFAULT_RUN_SECONDS = 3600"
definition DEFAULT_SETUP_S :: rat where "DEFAULT_SETUP_S = 300"

record billing =
  bl_provider :: string
  bl_gpu :: string
  bl_rate_usd_hr :: rat
  bl_granularity_s :: int
  bl_minimum_s :: int
  bl_fees_usd :: rat

definition offer_billing :: "offer \<Rightarrow> billing" where
  "offer_billing f =
     \<lparr>bl_provider = off_provider f, bl_gpu = off_gpu f, bl_rate_usd_hr = off_rate_usd_hr f,
      bl_granularity_s = off_granularity_s f, bl_minimum_s = off_minimum_s f, bl_fees_usd = off_fees_usd f\<rparr>"

definition billed_seconds :: "billing \<Rightarrow> rat \<Rightarrow> rat \<Rightarrow> rat \<Rightarrow> int" where
  "billed_seconds b setup_s run_s drain_s =
     (let wall = setup_s + run_s + drain_s in
      max (bl_minimum_s b) (\<lceil>wall / of_int (bl_granularity_s b)\<rceil> * bl_granularity_s b))"

definition cost_usd :: "billing \<Rightarrow> rat \<Rightarrow> rat \<Rightarrow> rat \<Rightarrow> rat" where
  "cost_usd b setup_s run_s drain_s =
     bl_fees_usd b + bl_rate_usd_hr b * of_int (billed_seconds b setup_s run_s drain_s) / SECONDS_PER_HOUR"


section \<open>The ledger of observations\<close>

definition run_s :: "observation \<Rightarrow> rat" where
  "run_s row = (if ob_t_running row = 0 \<or> ob_t_ended row = 0 then 0
                else max 0 (ob_t_ended row - ob_t_running row))"

definition setup_s :: "observation \<Rightarrow> rat" where
  "setup_s row = (if ob_t_running row = 0 then 0 else max 0 (ob_t_running row - ob_t_submit row))"

definition observations :: "string \<Rightarrow> string \<Rightarrow> 's watching_scheme \<Rightarrow> observation list" where
  "observations provider gpu s =
     filter (\<lambda>row. (provider \<noteq> [] \<longrightarrow> ob_provider row = provider) \<and> (gpu \<noteq> [] \<longrightarrow> ob_gpu row = gpu)) (wa_costs s)"

definition record_observation :: "observation \<Rightarrow> ('s watching_scheme, unit) comp" where
  "record_observation row = changing (\<lambda>s. s\<lparr>wa_costs := wa_costs s @ [row]\<rparr>)"

text \<open>
  \<open>statistics.quantiles(values, n=10, method="inclusive")\<close>, its \<open>i\<close>-th cut point of two values or
  more, \<open>statistics.median\<close> and \<open>statistics.fmean\<close>.
\<close>

definition decile :: "rat list \<Rightarrow> nat \<Rightarrow> rat" where
  "decile values i =
     (let xs = sort values; m = length xs - 1; j = i * m div 10; d = i * m mod 10
      in (xs ! j * of_nat (10 - d) + xs ! (j + 1) * of_nat d) / 10)"

definition median :: "rat list \<Rightarrow> rat" where
  "median values =
     (let xs = sort values; n = length xs
      in if odd n then xs ! (n div 2) else (xs ! (n div 2 - 1) + xs ! (n div 2)) / 2)"

definition fmean :: "rat list \<Rightarrow> rat" where
  "fmean values = sum_list values / of_nat (length values)"

record setup_fit =
  sf_provider :: string
  sf_gpu :: string
  sf_samples :: nat
  sf_mean_s :: rat
  sf_p50_s :: rat
  sf_p90_s :: rat

definition setup_fit_of :: "string \<Rightarrow> string \<Rightarrow> 's watching_scheme \<Rightarrow> setup_fit option" where
  "setup_fit_of provider gpu s =
     (let setups = filter (\<lambda>x. 0 < x) (map setup_s (observations provider gpu s)) in
      if length setups < 3 then None
      else Some \<lparr>sf_provider = provider, sf_gpu = gpu, sf_samples = length setups,
                 sf_mean_s = fmean setups, sf_p50_s = median setups, sf_p90_s = decile setups 9\<rparr>)"


section \<open>The catalog\<close>

text \<open>\<open>s.split()\<close>: the runs of text between blanks.\<close>

fun blank_words :: "string \<Rightarrow> string \<Rightarrow> string list" where
  "blank_words [] word = (if word = [] then [] else [rev word])"
| "blank_words (c # cs) word =
     (if is_space c then (if word = [] then blank_words cs [] else rev word # blank_words cs [])
      else blank_words cs (c # word))"

definition split_blank :: "string \<Rightarrow> string list" where
  "split_blank s = blank_words s []"

text \<open>Case folding of ASCII names, the alphabet of card names.\<close>

definition card_key :: "string \<Rightarrow> string" where
  "card_key name =
     lower (join_with '' '' (split_blank (map (\<lambda>c. if c = CHR ''_'' then CHR '' '' else c) name)))"

definition catalog_offers :: "offer list \<Rightarrow> string \<Rightarrow> string \<Rightarrow> offer list" where
  "catalog_offers roster gpu provider =
     filter (\<lambda>f. (gpu = [] \<or> card_key (off_gpu f) = card_key gpu) \<and>
                 (provider = [] \<or> off_provider f = provider)) roster"

record quote =
  qu_offer :: offer
  qu_expected_usd :: rat
  qu_p90_usd :: rat
  qu_setup_samples :: nat

definition quote_of :: "'s watching_scheme option \<Rightarrow> rat \<Rightarrow> rat \<Rightarrow> offer \<Rightarrow> quote" where
  "quote_of ledger default_setup_s run f =
     (let fit = (case ledger of None \<Rightarrow> None | Some s \<Rightarrow> setup_fit_of (off_provider f) (off_gpu f) s);
          (expected, tail) = (case fit of None \<Rightarrow> (default_setup_s, default_setup_s)
                              | Some x \<Rightarrow> (sf_p50_s x, sf_p90_s x))
      in \<lparr>qu_offer = f, qu_expected_usd = cost_usd (offer_billing f) expected run 0,
          qu_p90_usd = cost_usd (offer_billing f) tail run 0,
          qu_setup_samples = (case fit of None \<Rightarrow> 0 | Some x \<Rightarrow> sf_samples x)\<rparr>)"

definition quotes :: "offer list \<Rightarrow> string \<Rightarrow> rat \<Rightarrow> 's watching_scheme option \<Rightarrow> rat \<Rightarrow> quote list" where
  "quotes roster gpu run ledger default_setup_s =
     sort_key qu_expected_usd (map (quote_of ledger default_setup_s run) (catalog_offers roster gpu []))"


section \<open>The scorecard\<close>

datatype landing_verdict = LANDED | SLOW | WRONG_CARD | UNREACHABLE | REFUSED | LANDING_FAILED

definition landing_words :: "(string, landing_verdict) dict" where
  "landing_words = [(''landed'', LANDED), (''slow'', SLOW), (''wrong-card'', WRONG_CARD),
     (''unreachable'', UNREACHABLE), (''refused'', REFUSED), (''failed'', LANDING_FAILED)]"

definition landing_of :: "observation \<Rightarrow> landing_verdict option" where
  "landing_of row =
     (if ob_verdict row = [] then (if ob_t_running row \<noteq> 0 then Some LANDED else None)
      else (case map_of landing_words (ob_verdict row) of None \<Rightarrow> Some LANDING_FAILED | v \<Rightarrow> v))"

definition quantile :: "rat list \<Rightarrow> nat \<Rightarrow> rat option" where
  "quantile values i =
     (case values of [] \<Rightarrow> None | [x] \<Rightarrow> Some x | _ \<Rightarrow> Some (decile values i))"

record rental_track =
  tk_provider :: string
  tk_gpu :: string
  tk_landings :: nat
  tk_landed :: nat
  tk_refused :: nat
  tk_ready_p50_s :: "rat option"
  tk_ready_p90_s :: "rat option"
  tk_mbps_p10 :: "rat option"

definition track_of :: "observation list \<Rightarrow> string \<Rightarrow> string \<Rightarrow> rental_track" where
  "track_of rows provider gpu =
     (let judged = filter (\<lambda>row. landing_of row \<noteq> None) rows;
          ready = map (\<lambda>row. if ob_ready_s row \<noteq> 0 then ob_ready_s row else setup_s row) judged;
          waits = filter (\<lambda>x. 0 < x) ready;
          probes = filter (\<lambda>x. 0 < x) (map ob_probe_mbps judged)
      in \<lparr>tk_provider = provider, tk_gpu = gpu, tk_landings = length judged,
          tk_landed = length (filter (\<lambda>row. landing_of row = Some LANDED) judged),
          tk_refused = length (filter (\<lambda>row. landing_of row = Some REFUSED) judged),
          tk_ready_p50_s = quantile waits 5, tk_ready_p90_s = quantile waits 9,
          tk_mbps_p10 = quantile probes 1\<rparr>)"

definition billed_share :: "rental_track \<Rightarrow> rat" where
  "billed_share t =
     (let missed = int (tk_landings t) - int (tk_landed t) in
      if missed \<noteq> 0 then of_int (missed - int (tk_refused t)) / of_int missed else 1)"

definition delivered :: "rental_track \<Rightarrow> rat" where
  "delivered t = (of_nat (tk_landed t) + 1) / (of_nat (tk_landings t) + 2)"

record score =
  sc_offer :: offer
  sc_track :: rental_track
  sc_useful_usd_hr :: rat
  sc_job_usd :: rat
  sc_billed_s :: int
  sc_setup_s :: rat

text \<open>\<open>round(x, 6)\<close>, halves to even.\<close>

definition round6 :: "rat \<Rightarrow> rat" where
  "round6 x =
     (let y = x * 1000000; f = \<lfloor>y\<rfloor>; d = y - of_int f;
          n = (if d < 1 / 2 then f else if 1 / 2 < d then f + 1 else if even f then f else f + 1)
      in of_int n / 1000000)"

definition score_order :: "score \<Rightarrow> rat \<times> rat \<times> rat" where
  "score_order x = (round6 (sc_useful_usd_hr x), - delivered (sc_track x), sc_setup_s x)"

text \<open>A scorecard is the observations it was built from, in order; \<open>rows[kind]\<close> keeps that order.\<close>

definition tracked_landings :: "observation list \<Rightarrow> string \<Rightarrow> string \<Rightarrow> rental_track" where
  "tracked_landings rows kind gpu =
     (let every = filter (\<lambda>row. ob_provider row = kind) rows;
          card = filter (\<lambda>row. gpu \<noteq> [] \<and> card_key (ob_gpu row) = card_key gpu) every
      in track_of (if card \<noteq> [] then card else every) kind (if card \<noteq> [] then gpu else []))"

definition score_offer :: "observation list \<Rightarrow> offer \<Rightarrow> string \<Rightarrow> rat \<Rightarrow> score" where
  "score_offer rows f kind run =
     (let t = tracked_landings rows kind (off_gpu f);
          setup = (case tk_ready_p50_s t of None \<Rightarrow> DEFAULT_SETUP_S | Some x \<Rightarrow> if x = 0 then DEFAULT_SETUP_S else x);
          b = offer_billing f;
          job = cost_usd b setup run (of_int RELEASE_SECONDS);
          lost = cost_usd b setup 0 (of_int RELEASE_SECONDS);
          failures = (1 - delivered t) / delivered t;
          delivery = job + failures * billed_share t * lost;
          gpu_hours = run / SECONDS_PER_HOUR * of_int (max (off_gpu_count f) 1)
      in \<lparr>sc_offer = f, sc_track = t, sc_useful_usd_hr = delivery / gpu_hours, sc_job_usd = job,
          sc_billed_s = billed_seconds b setup run (of_int RELEASE_SECONDS), sc_setup_s = setup\<rparr>)"

end
