(* ===== verification/Leases.thy ===== *)
theory Leases
  imports Costs Asks
begin

text \<open>
  What bounds a rental's bill: the provider's cap, the lease priced from an accepted offer with its
  release deadline (\<open>dispatch/hosts/lease.py\<close>), the refusals every metered dispatch owes before it
  reaches a provider (\<open>dispatch/backends/base.py\<close>), and the warden's check at a rent
  (\<open>policy/warden.py\<close>) against the owner's grants and the \<open>[policy]\<close> budget. \<open>Decimal\<close> divisions are
  exact here; an instant is microseconds since the epoch.
\<close>

section \<open>Caps\<close>

text \<open>What a cap still lets its provider bill: unread (\<open>None\<close>), an amount, or without end (\<open>inf\<close>).\<close>

datatype allowance = Unread | Left rat | Endless

definition cap_remaining :: "cap \<Rightarrow> rat \<Rightarrow> rat option \<Rightarrow> allowance" where
  "cap_remaining c spent_usd balance_usd =
     (case cap_bound c of
        CARD \<Rightarrow> Left (max (cap_limit_usd c - spent_usd) 0)
      | PREPAID \<Rightarrow> (case balance_usd of None \<Rightarrow> Unread | Some b \<Rightarrow> Left (max b 0))
      | THRESHOLD \<Rightarrow> Endless)"

text \<open>\<open>f"{x:.2f}"\<close> of an amount that is not negative, and \<open>str\<close> of a bound.\<close>

definition cents :: "rat \<Rightarrow> string" where
  "cents x = (let n = round_even (x * 100) in int_text (n div 100) @ ''.'' @ two_digits (n mod 100))"

fun bound_text :: "bound \<Rightarrow> string" where
  "bound_text CARD = ''card''"
| "bound_text PREPAID = ''prepaid''"
| "bound_text THRESHOLD = ''threshold''"

text \<open>
  A registered provider: its kind, what bounds its bill, the least it bills, and the CUDA version it
  rents on. \<open>ProviderBackend.cap\<close> refuses a card whose limit the owner did not declare.
\<close>

record backend =
  bk_name :: string
  bk_bound :: bound
  bk_minimum_s :: int
  bk_cuda_floor :: rat
  bk_inventory :: bool

definition declaring_words :: "string \<Rightarrow> string \<Rightarrow> string" where
  "declaring_words project provider = project @ '' serve grant card '' @ provider @ '' --usd N''"

definition backend_cap :: "string \<Rightarrow> backend \<Rightarrow> rat \<Rightarrow> fault + cap" where
  "backend_cap project b card_usd =
     (if bk_bound b \<noteq> CARD then Inr \<lparr>cap_provider = bk_name b, cap_bound = bk_bound b, cap_limit_usd = 0\<rparr>
      else if card_usd = 0
      then Inl (MissionError (bk_name b @ '' bills a card after the fact, and that card'' @ CHR 0x27 #
             ''s limit is the only cap on the bill: the owner declares it with `'' @
             declaring_words project (bk_name b) @ ''` from a terminal, or rent from a prepaid or '' @
             ''threshold-capped provider''))
      else Inr \<lparr>cap_provider = bk_name b, cap_bound = CARD, cap_limit_usd = card_usd\<rparr>)"

definition backend_billed :: "backend \<Rightarrow> offer \<Rightarrow> offer" where
  "backend_billed b f = f\<lparr>off_minimum_s := bk_minimum_s b\<rparr>"


section \<open>Admission of a metered dispatch\<close>

text \<open>
  \<open>_IMAGE_CUDA.search\<close>: the first \<open>cuda\<close>, in any case, with at most one separator and a version
  after it, read as \<open>float("major.minor")\<close>.
\<close>

definition version_at :: "string \<Rightarrow> rat option" where
  "version_at s =
     (let major = takeWhile is_digit s; rest = dropWhile is_digit s in
      if major = [] then None
      else (case rest of
              [] \<Rightarrow> None
            | c # cs \<Rightarrow>
                let minor = takeWhile is_digit cs in
                if c \<noteq> CHR ''.'' \<or> minor = [] then None
                else Some (of_nat (digits_value major) + of_nat (digits_value minor) / 10 ^ length minor)))"

definition cuda_at :: "string \<Rightarrow> rat option" where
  "cuda_at s =
     (if lower (take 4 s) \<noteq> ''cuda'' then None
      else (case drop 4 s of
              [] \<Rightarrow> None
            | c # cs \<Rightarrow> if c \<in> {CHR '':'', CHR ''_'', CHR ''-''} then version_at cs else version_at (c # cs)))"

fun image_cuda :: "string \<Rightarrow> rat option" where
  "image_cuda [] = None"
| "image_cuda (c # cs) = (case cuda_at (c # cs) of None \<Rightarrow> image_cuda cs | found \<Rightarrow> found)"

text \<open>The image half of \<open>admit\<close>; \<open>shown\<close> prints a float for the message.\<close>

definition admit_image :: "(rat \<Rightarrow> string) \<Rightarrow> backend \<Rightarrow> string option \<Rightarrow> fault + unit" where
  "admit_image shown b img =
     (case img of
        None \<Rightarrow> Inr ()
      | Some ref \<Rightarrow>
          (case image_cuda ref of
             None \<Rightarrow> Inr ()
           | Some v \<Rightarrow>
               if v < bk_cuda_floor b
               then Inl (MissionError (''image '' @ repr_text ref @ '' names CUDA '' @ shown v @
                      '', below this house'' @ CHR 0x27 # ''s CUDA '' @ shown (bk_cuda_floor b) @
                      '' floor; rent a CUDA '' @ shown (bk_cuda_floor b) @ '' or newer image instead''))
               else Inr ()))"

definition admit_rent :: "string \<Rightarrow> (rat \<Rightarrow> string) \<Rightarrow> backend \<Rightarrow> string option \<Rightarrow> resources \<Rightarrow> cap \<Rightarrow> fault + unit" where
  "admit_rent project shown b img r c =
     (if res_max_usd r = 0 then Inl (MissionError ''provider dispatch needs an explicit max-usd budget'')
      else
        case cap_remaining c 0 None of
          Left most \<Rightarrow>
            if res_max_usd r > most
            then Inl (MissionError (''max-usd $'' @ cents (res_max_usd r) @ '' is more than the $'' @ cents most @
                   '' '' @ bound_text (cap_bound c) @ '' cap on '' @ bk_name b @
                   ''; lower max-usd, or the owner raises the card'' @ CHR 0x27 # ''s limit with `'' @
                   declaring_words project (bk_name b) @ ''` from a terminal''))
            else admit_image shown b img
        | _ \<Rightarrow> admit_image shown b img)"

definition hourly_cap :: "resources \<Rightarrow> int \<Rightarrow> fault + rat" where
  "hourly_cap r landing =
     (case walltime_s r of
        Inl e \<Rightarrow> Inl e
      | Inr seconds \<Rightarrow>
          if seconds = 0 then Inr 0
          else if seconds + landing = 0 then Inl (ValueError ''float division by zero'')
          else Inr (res_max_usd r * SECONDS_PER_HOUR / of_int (seconds + landing)))"


section \<open>Leases\<close>

definition billable_seconds :: "billing \<Rightarrow> rat \<Rightarrow> int" where
  "billable_seconds b max_usd =
     (let available = (max_usd - bl_fees_usd b) * SECONDS_PER_HOUR / bl_rate_usd_hr b;
          quanta = \<lfloor>available / of_int (bl_granularity_s b)\<rfloor>
      in quanta * bl_granularity_s b)"

text \<open>\<open>Lease.priced\<close> with the instant it reads; the deadline is that instant plus the lease's lifetime.\<close>

definition lease_priced :: "offer \<Rightarrow> resources \<Rightarrow> cap \<Rightarrow> int \<Rightarrow> int \<Rightarrow> fault + lease" where
  "lease_priced f r c setup now =
     (let b = offer_billing f in
      if bl_rate_usd_hr b \<le> 0 \<or> bl_fees_usd b < 0 \<or> res_max_usd r \<le> bl_fees_usd b \<or> bl_granularity_s b < 1 \<or>
         bl_minimum_s b < 0 \<or> setup < 0
      then Inl (MissionError ''rental needs finite, positive, affordable billing terms'')
      else
        let seconds = billable_seconds b (res_max_usd r) in
        case walltime_s r of
          Inl e \<Rightarrow> Inl e
        | Inr requested \<Rightarrow>
            if seconds < bl_minimum_s b \<or> seconds \<le> setup + requested + RELEASE_SECONDS
            then Inl (MissionError ''rental quote exceeds budget after setup, walltime, and release reserve'')
            else
              let lifetime = seconds - RELEASE_SECONDS;
                  lifetime = (if requested \<noteq> 0 then min lifetime (setup + requested + RELEASE_SECONDS) else lifetime)
              in Inr \<lparr>ls_offer = f, ls_release_by = now + lifetime * 1000000, ls_max_usd = res_max_usd r,
                      ls_cap = Some c\<rparr>)"


section \<open>The warden at a rent\<close>

record budget =
  bg_usd :: rat
  bg_days :: int

definition budget_allows :: "budget \<Rightarrow> rat \<Rightarrow> rat \<Rightarrow> bool" where
  "budget_allows g spent_usd max_usd \<longleftrightarrow> spent_usd + max_usd \<le> bg_usd g"

text \<open>What the ledger says was billed since an instant of \<open>time()\<close>.\<close>

definition billed_since :: "rat \<Rightarrow> observation list \<Rightarrow> rat" where
  "billed_since since rows = sum_list (map ob_billed_usd (filter (\<lambda>row. since \<le> ob_t_submit row) rows))"

definition over_budget :: "budget \<Rightarrow> rat \<Rightarrow> rat \<Rightarrow> string" where
  "over_budget g spent max_usd =
     ''rentals billed $'' @ cents spent @ '' of the $'' @ cents (bg_usd g) @ '' the last '' @
     int_text (bg_days g) @ '' days allow, and this one may cost $'' @ cents max_usd"

text \<open>
  \<open>Warden.rent\<close>: \<open>found\<close> is what \<open>route\<close> answers for the host's kind, \<open>clock\<close> the reading of
  \<open>time()\<close> and \<open>t\<close> the instant a filed ask carries.
\<close>

definition warden_rent ::
  "'o leaving_scheme \<Rightarrow> string \<Rightarrow> fault + backend option \<Rightarrow> budget option \<Rightarrow> rat \<Rightarrow> observation list \<Rightarrow> rat \<Rightarrow> int \<Rightarrow>
     ('s workspace_scheme, cap) comp" where
  "warden_rent w kind found policy max_usd ledger clock t =
     andThen (returning found) (\<lambda>answer.
       case answer of
         None \<Rightarrow> raising (MissionError (''a '' @ repr_text kind @ '' host rents nothing, so nothing caps it''))
       | Some b \<Rightarrow>
           andThen (reading (\<lambda>s. read_grants w (wk_file s))) (\<lambda>r.
           andThen (returning r) (\<lambda>gs.
           andThen (returning (backend_cap (ow_project w) b (card_limit (bk_name b) gs))) (\<lambda>c.
             case policy of
               None \<Rightarrow> ret c
             | Some g \<Rightarrow>
                 let since = clock - of_int (bg_days g) * 86400; spent = billed_since since ledger in
                 if budget_allows g spent max_usd then ret c
                 else andThen (allowed w A_RENT (cap_provider c) (over_budget g spent max_usd) t) (\<lambda>_. ret c)))))"

end
