(* ===== verification/Rentals.thy ===== *)
theory Rentals
  imports Leases "HOL-Library.Product_Lexorder"
begin

text \<open>
  Renting a machine: the durable creation checkpoints of a request (\<open>dispatch/hosts/allocation.py\<close>,
  \<open>Dispatcher.allocating\<close>), the template every cloud rents through (\<open>dispatch/backends/cloud/core.py\<close>),
  and the landing that rents, equips and launches, or unwinds (\<open>dispatch/hosts/landing.py\<close>).

  What a provider really did is kept in the state as deeds, which the code never reads: a create may
  make a machine and lose its answer. The provider's answers, the ssh calls and the steps that put a
  workspace on the machine are parameters, indexed by how much was done so far.
\<close>

section \<open>The provider's side\<close>

record endpoint =
  ep_address :: string
  ep_port :: int
  ep_user :: string
  ep_identity :: string

definition destination :: "endpoint \<Rightarrow> string" where
  "destination ep = (if ep_user ep \<noteq> [] then ep_user ep @ ''@'' @ ep_address ep else ep_address ep)"

record rental =
  rl_handle :: string
  rl_endpoint :: endpoint

text \<open>A machine as its cloud reports it (\<open>Machine\<close>, a \<open>Rented\<close> with an address).\<close>

record rented =
  rt_handle :: string
  rt_label :: string
  rt_gpu :: string
  rt_status :: string
  rt_usd_hr :: "rat option"

record machine = rented +
  mc_host :: string
  mc_port :: int
  mc_user :: string

text \<open>
  What one create comes to: a handle, a refusal because the offer is gone (nothing was made), a fault
  with nothing made, or a fault on the way back from a machine that was made.
\<close>

datatype create_answer = Created string | NoCapacity string | Refused fault | Lost fault string

text \<open>
  The one deed kept is a create the provider answered for or lost the answer of: the provider, the machine's
  handle, and the label the create was asked under. A cloud that names its machines itself (Hot Aisle drops the
  name) lists the machine under another label; the registry still names the create by the one asked.
\<close>

datatype deed = Made string string string

record catalog_item =
  ci_name :: string
  ci_offer :: offer

record renting = watching +
  rn_deeds :: "deed list"

definition deed_of :: "deed \<Rightarrow> ('s renting_scheme, unit) comp" where
  "deed_of d = changing (\<lambda>s. s\<lparr>rn_deeds := rn_deeds s @ [d]\<rparr>)"

definition occasion :: "'s renting_scheme \<Rightarrow> nat" where
  "occasion s = lk_ticks s + moment s + length (rn_deeds s)"

record renter = asking +
  r_backend :: "string \<Rightarrow> backend"
  r_shown :: "rat \<Rightarrow> string"
  r_program :: string
  r_mint :: "nat \<Rightarrow> string"
  r_admits :: "nat \<Rightarrow> fault option"
  r_identity :: "string \<Rightarrow> fault + (string \<times> string)"
  r_hunt :: "nat \<Rightarrow> string \<Rightarrow> resources \<Rightarrow> rat \<Rightarrow> fault + catalog_item list"
  r_spoken :: "resources \<Rightarrow> string"
  r_create :: "nat \<Rightarrow> string \<Rightarrow> catalog_item \<Rightarrow> string \<Rightarrow> create_answer"
  r_boot :: "nat \<Rightarrow> string \<Rightarrow> string \<Rightarrow> (rat \<times> (fault + machine)) list"
  r_knock :: "nat \<Rightarrow> endpoint \<Rightarrow> nat \<Rightarrow> fault option"
  r_wait :: "nat \<Rightarrow> endpoint \<Rightarrow> fault option"
  r_equip :: "nat \<Rightarrow> rental \<Rightarrow> fault option"
  r_start :: "nat \<Rightarrow> rental \<Rightarrow> fault option"


section \<open>One creation and its checkpoints\<close>

definition begin_creation :: "'w world_scheme \<Rightarrow> run_record \<Rightarrow> lease option \<Rightarrow> ('s lake_scheme, unit) comp" where
  "begin_creation w rec granted = andThen (prepared w rec (word_text SUBMITTING) granted) (\<lambda>_. ret ())"

definition created :: "'w world_scheme \<Rightarrow> run_record \<Rightarrow> string \<Rightarrow> ('s lake_scheme, string) comp" where
  "created w rec h =
     (if h = [] \<or> h = ''None''
      then raising (MissionError (''provider returned no handle for '' @ run_creation rec @ ''; reconcile its label''))
      else andThen (bind w rec h) (\<lambda>_. ret h))"

definition interrupted :: "'w world_scheme \<Rightarrow> run_record \<Rightarrow> ('s lake_scheme, unit) comp" where
  "interrupted w rec =
     andThen (named (run_creation rec) (run_target rec)) (\<lambda>current.
       if run_verdict current = Some (word_text PREPARED)
       then andThen (prepared w current (word_text FAILED) None) (\<lambda>_. ret ())
       else if run_verdict current = Some (word_text SUBMITTING) then ret ()
       else if \<not> settled_opt (run_verdict current) \<and> run_evidence current = ''not_started''
       then andThen (resolve w current (Some (word_text FAILED)) None (word_text FAILED)) (\<lambda>_. ret ())
       else ret ())"

definition refused_creation :: "'w world_scheme \<Rightarrow> run_record \<Rightarrow> ('s lake_scheme, unit) comp" where
  "refused_creation w rec =
     andThen (named (run_creation rec) (run_target rec)) (\<lambda>current.
       if run_verdict current = Some (word_text SUBMITTING)
       then andThen (reopen w current) (\<lambda>_. ret ())
       else ret ())"

text \<open>A job to dispatch, with what the plan and the shipment say of it.\<close>

record order =
  or_host :: string
  or_kind :: string
  or_image :: "string option"
  or_key :: string
  or_env :: string
  or_spelling :: string
  or_fetch :: string
  or_source_key :: string
  or_commit :: string
  or_digest :: string
  or_name :: string
  or_node :: string
  or_resources :: resources

definition text_of :: "string option \<Rightarrow> string" where
  "text_of v = (case v of None \<Rightarrow> [] | Some t \<Rightarrow> t)"

definition order_request :: "order \<Rightarrow> request" where
  "order_request d =
     (let r = or_resources d in
      \<lparr>req_target = or_host d, req_command = or_spelling d, req_name = or_name d, req_node = or_node d,
       req_fetch = text_or_none (or_fetch d), req_needs = [], req_env = or_env d, req_container = res_container r,
       req_queue = text_of (res_queue r), req_walltime = text_of (res_walltime r),
       req_mem_gb = (case res_mem_gb r of None \<Rightarrow> 0 | Some n \<Rightarrow> n), req_gpus = res_gpus r,
       req_gpu_name = res_gpu_name r, req_max_usd = res_max_usd r, req_nodes = res_nodes r, req_attempt = 1,
       req_spot = res_spot r, req_arch = res_arch r, req_datacenter = res_datacenter r\<rparr>)"

definition order_record :: "order \<Rightarrow> string \<Rightarrow> stamp \<Rightarrow> string \<Rightarrow> string \<Rightarrow> run_record" where
  "order_record d name stamped ev project =
     \<lparr>run_handle = name, run_target = or_host d, run_kind = or_kind d, run_script = or_spelling d, run_args = [],
      run_git_sha = [], run_dirty = None, run_submitted_at = stamped, run_fetch_path = text_or_none (or_fetch d),
      run_name = or_name d, run_node = or_node d, run_source = or_source_key d, run_commit = or_commit d,
      run_digest = or_digest d, run_state = Some (word_text PREPARED), run_exit_code = None,
      run_verdict = Some (word_text PREPARED), run_reported = None, run_evidence = ev, run_creation = name,
      run_request = Some (order_request d), run_lease = None, run_reason = [], run_project = project\<rparr>"

definition allocating :: "'w renter_scheme \<Rightarrow> order \<Rightarrow> string \<Rightarrow> ('s renting_scheme, run_record) comp" where
  "allocating w d ev =
     andThen (reading (\<lambda>s. r_admits w (occasion s))) (\<lambda>refusal.
       case refusal of
         Some e \<Rightarrow> raising e
       | None \<Rightarrow>
           andThen (reading (\<lambda>s. ''mainboard-'' @ r_mint w (occasion s))) (\<lambda>name.
           andThen (now_text w) (\<lambda>stamped.
             let rec = order_record d name stamped ev (x_project w) in
             andThen (trying is_value (reserve w rec) (\<lambda>e. raising (MissionError (fault_text e)))) (\<lambda>_. ret rec))))"

section \<open>A cloud\<close>

definition BOOT_SECONDS :: rat where "BOOT_SECONDS = 900"
definition OFFERS_TRIED :: nat where "OFFERS_TRIED = 5"
definition SSH_ATTEMPTS :: nat where "SSH_ATTEMPTS = 40"
definition LANDING_SECONDS :: int where "LANDING_SECONDS = 3600"

text \<open>
  \<open>_booted\<close>: the readings of one wait, each the monotonic clock and the cloud's answer; the wait ends
  with the readings, the clock past the deadline.
\<close>

fun boot_wait :: "string \<Rightarrow> string \<Rightarrow> string \<Rightarrow> rat \<Rightarrow> (rat \<times> (fault + machine)) list \<Rightarrow> fault + endpoint" where
  "boot_wait kind h private deadline [] =
     Inl (MissionError (kind @ '' machine '' @ h @ '' published no address in 900s''))"
| "boot_wait kind h private deadline ((t, answer) # later) =
     (if \<not> t < deadline then Inl (MissionError (kind @ '' machine '' @ h @ '' published no address in 900s''))
      else case answer of
             Inl e \<Rightarrow> Inl e
           | Inr found \<Rightarrow>
               if rt_status found = ''gone'' then Inl (MissionError (kind @ '' machine '' @ h @ '' ended while booting''))
               else if rt_status found = ''running'' \<and> mc_host found \<noteq> []
               then Inr \<lparr>ep_address = mc_host found, ep_port = mc_port found, ep_user = mc_user found, ep_identity = private\<rparr>
               else boot_wait kind h private deadline later)"

definition booted :: "'w renter_scheme \<Rightarrow> string \<Rightarrow> string \<Rightarrow> string \<Rightarrow> ('s renting_scheme, endpoint) comp" where
  "booted w kind h private =
     andThen (reading (\<lambda>s. r_boot w (occasion s) kind h)) (\<lambda>readings.
       case readings of
         [] \<Rightarrow> returning (boot_wait kind h private 0 [])
       | (start, _) # _ \<Rightarrow> returning (boot_wait kind h private (start + BOOT_SECONDS) readings))"

text \<open>\<open>reachable\<close>: knock until ssh answers; only an unreachable host is knocked on again.\<close>

fun knocking :: "(nat \<Rightarrow> fault option) \<Rightarrow> endpoint \<Rightarrow> nat \<Rightarrow> nat \<Rightarrow> string \<Rightarrow> fault + endpoint" where
  "knocking answers ep attempts 0 lastly =
     Inl (MissionError (''ssh never answered at '' @ destination ep @ '' after '' @ nat_text attempts @
       '' attempts; the rental is up but unreachable, so nothing was landed on it. The last knock said: '' @ lastly))"
| "knocking answers ep attempts (Suc n) lastly =
     (case answers (attempts - Suc n) of
        None \<Rightarrow> Inr ep
      | Some e \<Rightarrow> if is_unreachable e then knocking answers ep attempts n (fault_text e) else Inl e)"

definition reachable :: "'w renter_scheme \<Rightarrow> endpoint \<Rightarrow> ('s renting_scheme, endpoint) comp" where
  "reachable w ep =
     andThen (reading (\<lambda>s. r_knock w (occasion s) ep)) (\<lambda>answers.
       returning (knocking answers ep SSH_ATTEMPTS SSH_ATTEMPTS ''nothing''))"

definition landed_at :: "'w renter_scheme \<Rightarrow> string \<Rightarrow> string \<Rightarrow> string \<Rightarrow> ('s renting_scheme, endpoint) comp" where
  "landed_at w kind h private =
     andThen (booted w kind h private) (\<lambda>found.
     andThen (reachable w found) (\<lambda>ep.
     andThen (reading (\<lambda>s. r_wait w (occasion s) ep)) (\<lambda>answer.
       case answer of None \<Rightarrow> ret ep | Some e \<Rightarrow> raising e)))"

definition offered_as :: "backend \<Rightarrow> catalog_item \<Rightarrow> offer" where
  "offered_as b item = backend_billed b (ci_offer item)"

text \<open>\<open>_offers\<close>: ranked by the scorecard of what the lake kept, the best five.\<close>

definition best_offers :: "'w renter_scheme \<Rightarrow> backend \<Rightarrow> resources \<Rightarrow> ('s renting_scheme, catalog_item list) comp" where
  "best_offers w b r =
     andThen (returning (hourly_cap r LANDING_SECONDS)) (\<lambda>ceiling.
     andThen (reading (\<lambda>s. r_hunt w (occasion s) (bk_name b) (r\<lparr>res_gpus := max (res_gpus r) 1\<rparr>) ceiling)) (\<lambda>hunted.
     andThen (returning hunted) (\<lambda>found.
     andThen (returning (walltime_s r)) (\<lambda>seconds.
     andThen (reading (observations [] [])) (\<lambda>rows.
       let run = (if seconds \<noteq> 0 then of_int seconds else DEFAULT_RUN_SECONDS);
           best = sort_key (\<lambda>item. score_order (score_offer rows (offered_as b item) (bk_name b) run)) found
       in if take OFFERS_TRIED best \<noteq> [] then ret (take OFFERS_TRIED best)
          else raising (MissionError (bk_name b @ '' lists no '' @ r_spoken w (r\<lparr>res_gpus := max (res_gpus r) 1\<rparr>) @
                 '' offer right now; `mb host offers` shows every cloud'' @ CHR 0x27 # ''s'')))))))"

text \<open>One create, and what the provider did.\<close>

definition creating :: "'w renter_scheme \<Rightarrow> string \<Rightarrow> catalog_item \<Rightarrow> string \<Rightarrow> ('s renting_scheme, string + string) comp" where
  "creating w kind item name =
     andThen (reading (\<lambda>s. r_create w (occasion s) kind item name)) (\<lambda>answer.
       case answer of
         Created h \<Rightarrow> andThen (deed_of (Made kind name h)) (\<lambda>_. ret (Inr h))
       | NoCapacity why \<Rightarrow> ret (Inl why)
       | Refused e \<Rightarrow> raising e
       | Lost e h \<Rightarrow> andThen (deed_of (Made kind name h)) (\<lambda>_. raising e))"

definition clock_now :: "'w renter_scheme \<Rightarrow> ('s renting_scheme, int) comp" where
  "clock_now w = (\<lambda>s. (Inr (x_clock w (lk_ticks s)), s\<lparr>lk_ticks := Suc (lk_ticks s)\<rparr>))"

fun try_offers ::
  "'w renter_scheme \<Rightarrow> backend \<Rightarrow> run_record \<Rightarrow> resources \<Rightarrow> cap \<Rightarrow> nat \<Rightarrow> catalog_item list \<Rightarrow> ('s renting_scheme, string) comp" where
  "try_offers w b rec r c tried [] =
     raising (MissionError (bk_name b @ '' had no capacity for the '' @ nat_text tried @ '' best offers''))"
| "try_offers w b rec r c tried (item # items) =
     andThen (clock_now w) (\<lambda>now.
     andThen (returning (lease_priced (offered_as b item) r c LANDING_SECONDS now)) (\<lambda>granted.
     andThen (begin_creation w rec (Some granted)) (\<lambda>_.
     andThen (creating w (bk_name b) item (run_creation rec)) (\<lambda>answer.
       case answer of
         Inl _ \<Rightarrow> andThen (refused_creation w rec) (\<lambda>_. try_offers w b rec r c tried items)
       | Inr h \<Rightarrow> created w rec h))))"

definition cloud_created ::
  "'w renter_scheme \<Rightarrow> backend \<Rightarrow> run_record \<Rightarrow> resources \<Rightarrow> cap \<Rightarrow> ('s renting_scheme, string) comp" where
  "cloud_created w b rec r c =
     andThen (best_offers w b r) (\<lambda>found. try_offers w b rec r c (length found) found)"

text \<open>\<open>except BaseException: h; raise\<close>.\<close>

definition unwinding :: "('s, 'a) comp \<Rightarrow> ('s, unit) comp \<Rightarrow> ('s, 'a) comp" where
  "unwinding m h = trying (\<lambda>_. True) m (\<lambda>e. andThen h (\<lambda>_. raising e))"

definition cloud_rent ::
  "'w renter_scheme \<Rightarrow> order \<Rightarrow> run_record \<Rightarrow> cap \<Rightarrow> ('s renting_scheme, rental) comp" where
  "cloud_rent w d rec c =
     (let b = r_backend w (or_kind d); r = or_resources d in
      andThen (returning (admit_rent (r_program w) (r_shown w) b (or_image d) r c)) (\<lambda>_.
      andThen (returning (r_identity w (or_key d))) (\<lambda>(public, private).
      andThen (cloud_created w b rec r c) (\<lambda>h.
        unwinding
          (andThen (landed_at w (bk_name b) h private) (\<lambda>ep. ret \<lparr>rl_handle = h, rl_endpoint = ep\<rparr>))
          (backend_cancel w (bk_name b) h)))))"

text \<open>\<open>CloudBackend.state\<close>: the machine's status, then the exit file of its job.\<close>

definition cloud_state :: "string \<Rightarrow> fault + machine \<Rightarrow> fault + string \<Rightarrow> fault + job_state" where
  "cloud_state h answer exit_file =
     (let js = (\<lambda>status code v. \<lparr>js_handle = h, js_label = None, js_state = Some status, js_exit_code = code,
              js_verdict = v, js_stage = [], js_since = [], js_estimated_start = [], js_note = []\<rparr>) in
      case answer of
        Inl e \<Rightarrow> Inl e
      | Inr found \<Rightarrow>
          if rt_status found = ''gone'' then Inr (js (rt_status found) None ''vanished'')
          else if rt_status found \<noteq> ''running'' \<or> mc_host found = [] then Inr (js (rt_status found) None ''running'')
          else
            (case (case exit_file of
                     Inl e \<Rightarrow> if is_unreachable e \<or> is_mission e then Inr [] else Inl e
                   | Inr spoke \<Rightarrow> Inr (strip spoke)) of
               Inl e \<Rightarrow> Inl e
             | Inr spoke \<Rightarrow>
                 let digits = dropWhile (\<lambda>c. c = CHR ''-'') spoke in
                 if digits = [] \<or> \<not> list_all is_digit digits then Inr (js (rt_status found) None ''running'')
                 else (case parse_int spoke of
                         None \<Rightarrow> Inl (ValueError ''invalid literal for int()'')
                       | Some code \<Rightarrow> Inr (js (rt_status found) (Some code) (if code = 0 then ''ok'' else ''failed'')))))"


section \<open>The landing\<close>

definition mark_failed :: "'w world_scheme \<Rightarrow> run_record option \<Rightarrow> ('s lake_scheme, unit) comp" where
  "mark_failed w registered =
     (case registered of
        None \<Rightarrow> ret ()
      | Some run \<Rightarrow> andThen (resolve w run (Some (word_text FAILED)) None (word_text FAILED)) (\<lambda>_. ret ()))"

text \<open>\<open>try: m finally: c\<close> for a clean-up that may raise, its own fault then the one that leaves.\<close>

definition ensuring :: "('s, 'a) comp \<Rightarrow> ('s, unit) comp \<Rightarrow> ('s, 'a) comp" where
  "ensuring m c =
     (\<lambda>s. case m s of (r, t) \<Rightarrow> (case c t of (Inl e, u) \<Rightarrow> (Inl e, u) | (Inr _, u) \<Rightarrow> (r, u)))"

definition abort_landing :: "'w renter_scheme \<Rightarrow> order \<Rightarrow> string \<Rightarrow> ('s renting_scheme, unit) comp" where
  "abort_landing w d h =
     andThen (trying is_lookup (andThen (run_named h (Some (or_host d))) (\<lambda>run. ret (Some run))) (\<lambda>_. ret None)) (\<lambda>registered.
       if (case registered of None \<Rightarrow> False | Some run \<Rightarrow> run_evidence run \<noteq> ''not_started'') then ret ()
       else ensuring (mark_failed w registered) (backend_cancel w (or_kind d) h))"

definition equip :: "'w renter_scheme \<Rightarrow> order \<Rightarrow> rental \<Rightarrow> ('s renting_scheme, unit) comp" where
  "equip w d hired =
     andThen (reading (\<lambda>s. r_equip w (occasion s) hired)) (\<lambda>prepared_for.
       case prepared_for of
         Some e \<Rightarrow> raising e
       | None \<Rightarrow>
           andThen (run_named (rl_handle hired) (Some (or_host d))) (\<lambda>registered.
             if settled_opt (run_verdict registered)
             then raising (MissionError (''rental '' @ rl_handle hired @ '' ended during setup; refusing launch''))
             else andThen (delivery w registered ''pending'') (\<lambda>_.
                  andThen (reading (\<lambda>s. r_start w (occasion s) hired)) (\<lambda>started.
                    case started of None \<Rightarrow> ret () | Some e \<Rightarrow> raising e))))"

text \<open>\<open>Landing.land\<close> over the backend's \<open>rent\<close>; the handle it answers is the rental's.\<close>

definition land ::
  "'w renter_scheme \<Rightarrow> (order \<Rightarrow> run_record \<Rightarrow> cap \<Rightarrow> ('s renting_scheme, rental) comp) \<Rightarrow> order \<Rightarrow> cap \<Rightarrow>
     ('s renting_scheme, handle) comp" where
  "land w rent d c =
     andThen (allocating w d ''not_started'') (\<lambda>rec.
     andThen (unwinding (rent d rec c) (interrupted w rec)) (\<lambda>hired.
     andThen (unwinding (equip w d hired) (abort_landing w d (rl_handle hired))) (\<lambda>_.
     ret \<lparr>hd_id = rl_handle hired, hd_host = or_host d, hd_root = [], hd_kind = or_kind d,
          hd_fetch_path = text_or_none (or_fetch d)\<rparr>)))"

end
