(* ===== verification/Aliases.thy ===== *)
theory Aliases
  imports Rentals Evidence_Properties
begin

text \<open>
  The ssh aliases a held machine is reached by (\<open>dispatch/transport/aliases.py\<close>): one marked block
  per alias in the user's own ssh config, put first on \<open>add\<close> and taken out by its markers on
  \<open>remove\<close>. A config is the text of the file, \<open>None\<close> where there is none.
\<close>

section \<open>The blocks\<close>

definition block_opens :: "string \<Rightarrow> string" where
  "block_opens nm = ''# >>> mainboard host hold '' @ nm @ '' >>>''"

definition block_closes :: "string \<Rightarrow> string" where
  "block_closes nm = ''# <<< mainboard host hold '' @ nm @ '' <<<''"

text \<open>\<open>_outside\<close>: \<open>inside\<close> is the flag the loop keeps.\<close>

fun outside_block :: "string \<Rightarrow> bool \<Rightarrow> string list \<Rightarrow> string list" where
  "outside_block nm inside [] = []"
| "outside_block nm inside (l # ls) =
     (if l = block_opens nm \<or> l = block_closes nm then outside_block nm (l = block_opens nm) ls
      else if \<not> inside then l # outside_block nm inside ls
      else outside_block nm inside ls)"

definition strip_newlines :: "string \<Rightarrow> string" where
  "strip_newlines s = rev (dropWhile (\<lambda>c. c = CHR 0x0A) (rev (dropWhile (\<lambda>c. c = CHR 0x0A) s)))"

definition without_alias :: "string \<Rightarrow> string option \<Rightarrow> string" where
  "without_alias nm config =
     (case config of
        None \<Rightarrow> []
      | Some text \<Rightarrow>
          let body = strip_newlines (join_with [CHR 0x0A] (outside_block nm False (splitlines text)))
          in if body \<noteq> [] then body @ [CHR 0x0A] else [])"

definition alias_lines :: "string \<Rightarrow> endpoint \<Rightarrow> string list" where
  "alias_lines nm ep =
     [''Host '' @ nm, ''  HostName '' @ ep_address ep] @
     (if ep_port ep \<noteq> 0 then [''  Port '' @ int_text (ep_port ep)] else []) @
     (if ep_user ep \<noteq> [] then [''  User '' @ ep_user ep] else []) @
     (if ep_identity ep \<noteq> [] then [''  IdentityFile '' @ ep_identity ep, ''  IdentitiesOnly yes''] else []) @
     [''  StrictHostKeyChecking accept-new'', ''  UserKnownHostsFile /dev/null'', ''  LogLevel ERROR'']"

definition alias_add :: "string \<Rightarrow> endpoint \<Rightarrow> string option \<Rightarrow> string option" where
  "alias_add nm ep config =
     Some (join_with [CHR 0x0A] (block_opens nm # alias_lines nm ep @ [block_closes nm]) @ [CHR 0x0A, CHR 0x0A] @
       without_alias nm config)"

definition alias_remove :: "string \<Rightarrow> string option \<Rightarrow> string option" where
  "alias_remove nm config =
     (case config of None \<Rightarrow> None | Some text \<Rightarrow> Some (without_alias nm (Some text)))"


section \<open>Texts and their lines\<close>

definition one_line :: "string \<Rightarrow> bool" where
  "one_line l \<longleftrightarrow> list_all (\<lambda>c. \<not> line_break c) l"

definition trimmed :: "string list \<Rightarrow> string list" where
  "trimmed ls = rev (dropWhile (\<lambda>l. l = []) (rev (dropWhile (\<lambda>l. l = []) ls)))"

lemma one_line_append [simp]: "one_line (a @ b) \<longleftrightarrow> one_line a \<and> one_line b"
  by (simp add: one_line_def)

lemma one_line_Cons [simp]: "one_line (c # l) \<longleftrightarrow> \<not> line_break c \<and> one_line l"
  by (simp add: one_line_def)

lemma one_line_Nil [simp]: "one_line []"
  by (simp add: one_line_def)

lemma one_line_plain: "list_all (\<lambda>c. \<not> line_break c) l \<Longrightarrow> one_line l"
  by (simp add: one_line_def)


lemma chomp_Cons: "\<not> line_break c \<Longrightarrow> chomp (c # l) = c # chomp l"
proof (cases l rule: rev_cases)
  case (snoc m d)
  assume "\<not> line_break c"
  moreover have "line_break CHR 0x0D" "line_break CHR 0x0A" by (simp_all add: line_break_def)
  ultimately show ?thesis using snoc by (cases m rule: rev_cases) (auto simp: chomp_def)
qed (simp add: chomp_def)

lemma lines_one_line: "list_all one_line (map chomp (lines_kept t))"
proof (induction t)
  case (Cons c cs)
  consider "line_break c" "\<not> (c = CHR 0x0D \<and> (case cs of d # _ \<Rightarrow> d = CHR 0x0A | [] \<Rightarrow> False))"
    | ds where "c = CHR 0x0D" "cs = CHR 0x0A # ds" | "\<not> line_break c"
    by (cases cs) auto
  then show ?case
  proof cases
    case 1
    with Cons show ?thesis by (simp add: chomp_def)
  next
    case 2
    have "line_break CHR 0x0A" by (simp add: line_break_def)
    with 2 Cons show ?thesis by (simp add: chomp_def)
  next
    case 3
    then show ?thesis using Cons by (cases "lines_kept cs") (simp_all add: chomp_Cons chomp_def [of "[]"])
  qed
qed simp

lemma splitlines_one_line: "list_all one_line (splitlines t)"
  unfolding splitlines_def by (rule lines_one_line)

lemma splitlines_joined:
  "list_all one_line ls \<Longrightarrow> ls \<noteq> [] \<Longrightarrow> splitlines (join_with [CHR 0x0A] ls @ CHR 0x0A # b) = ls @ splitlines b"
  by (induction "[CHR 0x0A]" ls rule: join_with.induct) (simp_all add: splitlines_line one_line_def)

text \<open>Stripping newlines off joined lines drops the blank lines at either end.\<close>

lemma join_Cons: "ls \<noteq> [] \<Longrightarrow> join_with sep (l # ls) = l @ sep @ join_with sep ls"
  by (cases ls) simp_all

lemma join_snoc: "ls \<noteq> [] \<Longrightarrow> join_with sep (ls @ [l]) = join_with sep ls @ sep @ l"
proof (induction ls)
  case (Cons a ls)
  then show ?case by (cases "ls = []") (simp_all add: join_Cons)
qed simp

lemma one_line_newline: "one_line l \<Longrightarrow> CHR 0x0A \<notin> set l"
  by (auto simp: one_line_def list_all_iff line_break_def)

lemma dropWhile_joined:
  "list_all one_line ls \<Longrightarrow>
     dropWhile (\<lambda>c. c = CHR 0x0A) (join_with [CHR 0x0A] ls) = join_with [CHR 0x0A] (dropWhile (\<lambda>l. l = []) ls)"
proof (induction ls)
  case (Cons l ls)
  show ?case
  proof (cases "l = []")
    case True
    with Cons show ?thesis by (cases ls) simp_all
  next
    case False
    with Cons.prems have "hd l \<noteq> CHR 0x0A" using one_line_newline [of l] hd_in_set [of l] False by (metis list.pred_inject(2))
    with False show ?thesis by (cases l; cases ls) simp_all
  qed
qed simp

lemma rev_joined: "rev (join_with [c] ls) = join_with [c] (rev (map rev ls))"
proof (induction ls)
  case (Cons l ls)
  show ?case
  proof (cases "ls = []")
    case False
    with Cons show ?thesis by (simp add: join_Cons join_snoc)
  qed simp
qed simp

lemma dropWhile_Nil_rev: "dropWhile (\<lambda>l. l = []) (rev (map rev ls)) = map rev (dropWhile (\<lambda>l. l = []) (rev ls))"
  by (simp add: rev_map dropWhile_map comp_def)

lemma strip_joined:
  assumes "list_all one_line ls"
  shows "strip_newlines (join_with [CHR 0x0A] ls) = join_with [CHR 0x0A] (trimmed ls)"
proof -
  let ?a = "dropWhile (\<lambda>l. l = []) ls"
  have "list_all one_line (rev (map rev ?a))"
    using assms by (auto simp: one_line_def list_all_iff dest: set_dropWhileD)
  then have "dropWhile (\<lambda>c. c = CHR 0x0A) (join_with [CHR 0x0A] (rev (map rev ?a))) =
      join_with [CHR 0x0A] (map rev (dropWhile (\<lambda>l. l = []) (rev ?a)))"
    by (simp only: dropWhile_joined dropWhile_Nil_rev)
  then show ?thesis
    by (simp add: strip_newlines_def dropWhile_joined [OF assms] rev_joined trimmed_def rev_map comp_def map_idI)
qed

lemma trimmed_one_line: "list_all one_line ls \<Longrightarrow> list_all one_line (trimmed ls)"
  by (auto simp: trimmed_def list_all_iff dest!: set_dropWhileD)


lemma trimmed_id: "ls = [] \<or> hd ls \<noteq> [] \<and> last ls \<noteq> [] \<Longrightarrow> trimmed ls = ls"
  by (cases ls) (auto simp: trimmed_def dropWhile_eq_self_iff hd_rev hd_append)

lemma trimmed_ends: "trimmed ls = [] \<or> hd (trimmed ls) \<noteq> [] \<and> last (trimmed ls) \<noteq> []"
proof (rule disjCI)
  assume some: "\<not> (hd (trimmed ls) \<noteq> [] \<and> last (trimmed ls) \<noteq> [])"
  let ?a = "dropWhile (\<lambda>l. l = []) ls" and ?b = "dropWhile (\<lambda>l. l = []) (rev (dropWhile (\<lambda>l. l = []) ls))"
  show "trimmed ls = []"
  proof (rule ccontr)
    assume "trimmed ls \<noteq> []"
    then have b: "?b \<noteq> []" by (simp add: trimmed_def)
    then have a: "?a \<noteq> []" by (metis dropWhile.simps(1) rev.simps(1))
    have "hd ?b \<noteq> []" using b by (rule hd_dropWhile)
    then have "last (trimmed ls) \<noteq> []" using b by (simp add: trimmed_def last_rev)
    moreover have "suffix ?b (rev ?a)" by (rule suffix_dropWhile)
    then have "last ?b = last (rev ?a)" using b by (metis suffix_def last_appendR)
    then have "hd (trimmed ls) = hd ?a" using a b by (simp add: trimmed_def hd_rev last_rev)
    with hd_dropWhile [OF a] have "hd (trimmed ls) \<noteq> []" by simp
    ultimately show False using some by blast
  qed
qed

lemma trimmed_idem [simp]: "trimmed (trimmed ls) = trimmed ls"
  using trimmed_ends by (rule trimmed_id)

lemma trimmed_Nil_join: "join_with [CHR 0x0A] (trimmed ls) = [] \<longleftrightarrow> trimmed ls = []"
proof (cases "trimmed ls")
  case (Cons l m)
  with trimmed_ends [of ls] show ?thesis by (cases m) simp_all
qed simp

lemma trimmed_blank [simp]: "trimmed ([] # ls) = trimmed ls"
  by (simp add: trimmed_def)


section \<open>Adding and removing an alias\<close>

lemma without_alias_lines:
  "splitlines (without_alias nm (Some t)) = trimmed (outside_block nm False (splitlines t))"
proof -
  let ?ls = "outside_block nm False (splitlines t)"
  have "list_all one_line (outside_block nm inside ls)" if "list_all one_line ls" for inside ls
    using that by (induction nm inside ls rule: outside_block.induct) simp_all
  then have ls: "list_all one_line ?ls" using splitlines_one_line by blast
  show ?thesis
    using splitlines_joined [OF trimmed_one_line [OF ls], of "[]"] trimmed_Nil_join [of ?ls]
    unfolding without_alias_def option.case Let_def strip_joined [OF ls]
    by (simp add: splitlines_def)
qed

lemma outside_block_inside:
  "block_opens nm \<notin> set ls \<Longrightarrow> block_closes nm \<notin> set ls \<Longrightarrow>
     outside_block nm True (ls @ block_closes nm # rest) = outside_block nm False rest"
  by (induction ls) (auto simp: block_opens_def block_closes_def)

lemma outside_block_unmarked:
  "block_opens nm \<notin> set ls \<Longrightarrow> block_closes nm \<notin> set ls \<Longrightarrow> outside_block nm False ls = ls"
  by (induction ls) auto

lemma outside_block_marks: "block_opens nm \<notin> set (outside_block nm b ls) \<and> block_closes nm \<notin> set (outside_block nm b ls)"
  by (induction nm b ls rule: outside_block.induct) auto

lemma set_trimmed: "set (trimmed ls) \<subseteq> set ls"
  by (auto simp: trimmed_def dest!: set_dropWhileD)

lemma outside_trimmed:
  "outside_block nm False (trimmed (outside_block nm False ls)) = trimmed (outside_block nm False ls)"
  using outside_block_marks [of nm False ls] set_trimmed by (blast intro: outside_block_unmarked)

definition plain_alias :: "string \<Rightarrow> endpoint \<Rightarrow> bool" where
  "plain_alias nm ep \<longleftrightarrow> one_line nm \<and> one_line (ep_address ep) \<and> one_line (ep_user ep) \<and> one_line (ep_identity ep)"

lemma int_text_one_line: "one_line (int_text n)"
proof -
  have "\<not> line_break c" if "is_digit c" for c
    using that by (auto simp: is_digit_def line_break_def Let_def)
  then have digits: "one_line (nat_text m)" for m
    by (auto simp: one_line_def list_all_iff dest: nat_text_digits)
  have "\<not> line_break (CHR ''-'')" by (simp add: line_break_def)
  with digits show ?thesis by (simp add: int_text_def)
qed

lemma block_one_line:
  "plain_alias nm ep \<Longrightarrow> list_all one_line (block_opens nm # alias_lines nm ep @ [block_closes nm])"
  by (simp add: plain_alias_def block_opens_def block_closes_def alias_lines_def int_text_one_line line_break_def)

lemma alias_lines_unmarked: "block_opens nm \<notin> set (alias_lines nm ep)" "block_closes nm \<notin> set (alias_lines nm ep)"
  by (auto simp: alias_lines_def block_opens_def block_closes_def)

lemma blank_unmarked: "block_opens nm \<noteq> []" "block_closes nm \<noteq> []" "[] \<noteq> block_opens nm" "[] \<noteq> block_closes nm"
  by (simp_all add: block_opens_def block_closes_def)

lemma alias_add_lines:
  assumes "plain_alias nm ep"
  shows "splitlines (the (alias_add nm ep (Some t))) =
    block_opens nm # alias_lines nm ep @ block_closes nm # [] # trimmed (outside_block nm False (splitlines t))"
proof -
  let ?block = "block_opens nm # alias_lines nm ep @ [block_closes nm]"
  have "splitlines (the (alias_add nm ep (Some t))) = ?block @ splitlines (CHR 0x0A # without_alias nm (Some t))"
    using splitlines_joined [OF block_one_line [OF assms], of "CHR 0x0A # without_alias nm (Some t)"]
    by (simp add: alias_add_def)
  also have "splitlines (CHR 0x0A # without_alias nm (Some t)) = [] # splitlines (without_alias nm (Some t))"
    using splitlines_line [of "[]"] by simp
  finally show ?thesis by (simp add: without_alias_lines)
qed

text \<open>
  C40. Holding a machine and releasing it leaves the user's ssh config as it was: after the alias is
  added and removed, the lines of the config are those it had, less the block the tool wrote for
  that alias before and blank lines at either end; a config that held no such block keeps every
  line.
\<close>

theorem alias_round_trip:
  assumes "plain_alias nm ep"
  shows "\<exists>u. alias_remove nm (alias_add nm ep (Some t)) = Some u \<and>
    splitlines u = trimmed (outside_block nm False (splitlines t)) \<and>
    (block_opens nm \<notin> set (splitlines t) \<and> block_closes nm \<notin> set (splitlines t) \<longrightarrow>
       splitlines u = trimmed (splitlines t))"
proof -
  obtain v where v: "alias_add nm ep (Some t) = Some v" by (simp add: alias_add_def)
  then have "splitlines v = block_opens nm # alias_lines nm ep @ block_closes nm # [] # trimmed (outside_block nm False (splitlines t))"
    using alias_add_lines [OF assms, of t] by simp
  then have "trimmed (outside_block nm False (splitlines v)) = trimmed (outside_block nm False (splitlines t))"
    by (simp add: outside_block_inside [OF alias_lines_unmarked] outside_trimmed blank_unmarked)
  then show ?thesis
    using v by (auto simp: alias_remove_def without_alias_lines outside_block_unmarked)
qed

theorem alias_round_trip_witness:
  "\<exists>u. alias_remove ''v'' (alias_add ''v'' \<lparr>ep_address = ''1.2.3.4'', ep_port = 22, ep_user = ''root'', ep_identity = ''id''\<rparr>
      (Some (''Host gold'' @ [CHR 0x0A]))) = Some u \<and> splitlines u = [''Host gold'']"
proof -
  let ?ep = "\<lparr>ep_address = ''1.2.3.4'', ep_port = 22, ep_user = ''root'', ep_identity = ''id''\<rparr>"
  have "plain_alias ''v'' ?ep" "splitlines (''Host gold'' @ [CHR 0x0A]) = [''Host gold'']"
    "outside_block ''v'' False [''Host gold''] = [''Host gold'']" "trimmed [''Host gold''] = [''Host gold'']"
    by code_simp+
  then show ?thesis using alias_round_trip [of "''v''" ?ep "''Host gold'' @ [CHR 0x0A]"] by auto
qed

end
