(* ===== verification/Holds.thy ===== *)
theory Holds
  imports Aliases
begin

text \<open>
  Machines held for a session: \<open>mb host hold\<close> and \<open>mb host release\<close> (\<open>holding/holds.py\<close>) over the hold
  log of the lake (\<open>state/storage/holds.py\<close>), with the resources a hold asks for as the board resolves
  them (\<open>fleet/board/workspace.py\<close>). The state adds to the lake and the owner's workspace the rows of
  \<open>holds_log\<close> and the text of the user's ssh config.
\<close>

section \<open>Plans and what a hold asks\<close>

record defaults =
  df_queue :: string
  df_walltime :: string
  df_mem_gb :: string
  df_gpus :: int
  df_gpu_name :: string
  df_max_usd :: rat
  df_spot :: bool
  df_arch :: string
  df_datacenter :: bool

definition DEFAULTS :: defaults where
  "DEFAULTS = \<lparr>df_queue = [], df_walltime = ''00:30:00'', df_mem_gb = [], df_gpus = 0, df_gpu_name = [],
     df_max_usd = 0, df_spot = False, df_arch = [], df_datacenter = False\<rparr>"

text \<open>A host's profile, what a hold copies of it unread being one text.\<close>

record profile =
  pf_kind :: string
  pf_platform :: string
  pf_root :: string
  pf_account :: string
  pf_defaults :: defaults
  pf_queues :: "string list"
  pf_scope :: string

record plan =
  pn_host :: string
  pn_env :: string
  pn_image :: "string option"
  pn_key :: string
  pn_containerized :: bool
  pn_profile :: profile

definition int_or :: "int option \<Rightarrow> int \<Rightarrow> int" where
  "int_or v d = (case v of None \<Rightarrow> d | Some n \<Rightarrow> if n = 0 then d else n)"

definition text_or :: "string \<Rightarrow> string \<Rightarrow> string" where
  "text_or a b = (if a = [] then b else a)"

text \<open>\<open>Workspace.resources\<close>; \<open>evaluate\<close> is the reading of an expression over the attempt.\<close>

definition board_resources :: "(string \<Rightarrow> int \<Rightarrow> fault + int) \<Rightarrow> resources \<Rightarrow> plan \<Rightarrow> fault + resources" where
  "board_resources evaluate r p =
     (let d = pf_defaults (pn_profile p);
          memory = (if int_or (res_mem_gb r) 0 \<noteq> 0 then Inr (int_or (res_mem_gb r) 0)
                    else if df_mem_gb d \<noteq> [] then evaluate (df_mem_gb d) (res_attempt r) else Inr 0)
      in map_sum id (\<lambda>m. r\<lparr>
           res_queue := Some (text_or (text_of (res_queue r)) (df_queue d)),
           res_walltime := Some (text_or (text_of (res_walltime r)) (df_walltime d)),
           res_mem_gb := Some m,
           res_gpus := (if res_gpus r \<noteq> 0 then res_gpus r else df_gpus d),
           res_gpu_name := text_or (res_gpu_name r) (if res_arch r \<noteq> [] then [] else df_gpu_name d),
           res_max_usd := (if res_max_usd r \<noteq> 0 then res_max_usd r else df_max_usd d),
           res_account := pf_account (pn_profile p),
           res_spot := (res_spot r \<or> df_spot d),
           res_datacenter := (res_datacenter r \<or> df_datacenter d),
           res_arch := text_or (res_arch r) (if res_gpu_name r \<noteq> [] then [] else df_arch d)\<rparr>) memory)"

record cards =
  cd_gpu_name :: string
  cd_arch :: string
  cd_gpus :: int
  cd_spot :: bool

record asked_hold =
  ah_duration :: string
  ah_alias :: string
  ah_max_usd :: rat

text \<open>\<open>^(?:(?P<hours>\\d+)h)?(?:(?P<minutes>\\d+)m)?$\<close> on a stripped text; an absent group is empty.\<close>

definition digits_then :: "char \<Rightarrow> string \<Rightarrow> string \<times> string" where
  "digits_then c t =
     (let d = takeWhile is_digit t; rest = dropWhile is_digit t
      in if d \<noteq> [] \<and> rest \<noteq> [] \<and> hd rest = c then (d, tl rest) else ([], t))"

definition spoken_duration :: "string \<Rightarrow> (string \<times> string) option" where
  "spoken_duration t =
     (let (hours, rest) = digits_then (CHR ''h'') t; (minutes, left) = digits_then (CHR ''m'') rest
      in if left = [] then Some (hours, minutes) else None)"

text \<open>\<open>str.isdigit\<close> below U+0100: the ASCII digits and the three superscripts, which \<open>int\<close> refuses.\<close>

definition isdigit_text :: "string \<Rightarrow> bool" where
  "isdigit_text t \<longleftrightarrow> t \<noteq> [] \<and> list_all (\<lambda>c. is_digit c \<or> (of_char c :: nat) \<in> {178, 179, 185}) t"

definition read_int :: "string \<Rightarrow> fault + int" where
  "read_int t = (case parse_int t of None \<Rightarrow> Inl (ValueError (''invalid literal for int() with base 10: '' @ repr_text t)) | Some n \<Rightarrow> Inr n)"

definition clock_duration :: "string \<Rightarrow> fault + int" where
  "clock_duration duration =
     (let parts = take 3 (split_on (CHR '':'') (strip duration) @ [[], []]) in
      if \<not> list_all isdigit_text parts
      then Inl (MissionError (''a hold lasts `3h`, `90m`, `1h30m` or `HH:MM:SS`, not '' @ repr_text duration))
      else (case map read_int parts of
              [Inr h, Inr m, Inr r] \<Rightarrow> Inr (h * 3600 + m * 60 + r)
            | _ \<Rightarrow> Inl (ValueError ''invalid literal for int() with base 10'')))"

definition duration_seconds :: "string \<Rightarrow> fault + int" where
  "duration_seconds duration =
     (case spoken_duration (strip duration) of
        Some (hours, minutes) \<Rightarrow>
          if hours \<noteq> [] \<or> minutes \<noteq> []
          then Inr (int (digits_value hours) * 3600 + int (digits_value minutes) * 60)
          else clock_duration duration
      | None \<Rightarrow> clock_duration duration)"

definition asked_resources :: "asked_hold \<Rightarrow> int \<Rightarrow> cards \<Rightarrow> resources" where
  "asked_resources a seconds c =
     \<lparr>res_gpus = cd_gpus c, res_gpu_name = cd_gpu_name c, res_nodes = 1, res_walltime = Some (walltime seconds),
      res_queue = None, res_account = [], res_container = [], res_mem_gb = None, res_max_usd = ah_max_usd a,
      res_attempt = 1, res_spot = cd_spot c, res_arch = cd_arch c, res_datacenter = False\<rparr>"


section \<open>The hold log\<close>

record held_machine =
  hl_alias :: string
  hl_provider :: string
  hl_handle :: string
  hl_gpu :: string
  hl_usd_hr :: "rat option"
  hl_deadline :: int
  hl_profile :: profile

record hold_row =
  hw_ts :: stamp
  hw_alias :: string
  hw_held :: "held_machine option"
  hw_dropped :: bool

record keeping =
  kp_lake :: renting
  kp_work :: workspace
  kp_holds :: "hold_row list"
  kp_config :: "string option"

definition on_lake :: "(renting, 'a) comp \<Rightarrow> ('s keeping_scheme, 'a) comp" where
  "on_lake m = (\<lambda>s. case m (kp_lake s) of (r, lake) \<Rightarrow> (r, s\<lparr>kp_lake := lake\<rparr>))"

definition on_work :: "(workspace, 'a) comp \<Rightarrow> ('s keeping_scheme, 'a) comp" where
  "on_work m = (\<lambda>s. case m (kp_work s) of (r, work) \<Rightarrow> (r, s\<lparr>kp_work := work\<rparr>))"

definition holds_view :: "'s keeping_scheme \<Rightarrow> hold_row list" where
  "holds_view s = latest_rows hw_alias hw_dropped (kp_holds s)"

text \<open>\<open>Holdings.read\<close>: the current holds by alias, each keyed by the alias its record carries.\<close>

definition holdings :: "'s keeping_scheme \<Rightarrow> (string, held_machine) dict" where
  "holdings s =
     foldl (\<lambda>d h. AList.update (hl_alias h) h d) []
       (concat (map (\<lambda>r. case hw_held r of None \<Rightarrow> [] | Some h \<Rightarrow> [h]) (sort_key hw_alias (holds_view s))))"

definition hold_append :: "'w world_scheme \<Rightarrow> string \<Rightarrow> held_machine option \<Rightarrow> bool \<Rightarrow> ('s keeping_scheme, unit) comp" where
  "hold_append w nm held gone =
     andThen (on_lake (now_text w)) (\<lambda>ts.
       changing (\<lambda>s. s\<lparr>kp_holds := kp_holds s @
         [\<lparr>hw_ts = ts, hw_alias = nm, hw_held = held, hw_dropped = gone\<rparr>]\<rparr>))"

definition hold_save :: "'w world_scheme \<Rightarrow> held_machine \<Rightarrow> ('s keeping_scheme, unit) comp" where
  "hold_save w h = hold_append w (hl_alias h) (Some h) False"

definition hold_drop :: "'w world_scheme \<Rightarrow> string \<Rightarrow> ('s keeping_scheme, unit) comp" where
  "hold_drop w nm = hold_append w nm None True"


section \<open>Holding a machine\<close>

text \<open>
  What a hold relies on outside: the plan of a provider host, which kinds rent an ssh machine, the
  declared hosts, the compiler's vouch, the source's key, commit and digest, the owner's grants and
  the budget with the clock of \<open>time()\<close>, the onboarding of a machine, and the park over ssh (its exit
  code and stderr). \<open>h_at\<close> is the instant a filed ask carries.
\<close>

record holder = renter +
  h_plan :: "string \<Rightarrow> string \<Rightarrow> fault + plan"
  h_route :: "string \<Rightarrow> fault + backend option"
  h_rents :: "string \<Rightarrow> bool"
  h_declared :: "string list"
  h_evaluate :: "string \<Rightarrow> int \<Rightarrow> fault + int"
  h_vouch :: "string \<Rightarrow> fault option"
  h_source :: "fault + (string \<times> string \<times> string)"
  h_owner :: leaving
  h_budget :: "budget option"
  h_time :: "nat \<Rightarrow> rat"
  h_at :: "nat \<Rightarrow> int"
  h_setup :: "nat \<Rightarrow> string \<Rightarrow> fault + host_setup"
  h_park :: "nat \<Rightarrow> string \<Rightarrow> int \<times> string"

definition rentable_of :: "'w holder_scheme \<Rightarrow> plan \<Rightarrow> fault + backend" where
  "rentable_of w p =
     (let refused = Inl (MissionError (repr_text (pn_host p) @ '' is a '' @ repr_text (pf_kind (pn_profile p)) @
            '' host; only a provider that rents an ssh machine can be held''))
      in case h_route w (pf_kind (pn_profile p)) of
           Inl e \<Rightarrow> Inl e
         | Inr None \<Rightarrow> refused
         | Inr (Some b) \<Rightarrow> if \<not> pn_containerized p \<and> h_rents w (pf_kind (pn_profile p)) then Inr b else refused)"

text \<open>\<open>casefold\<close> below U+0100, up to what the pattern keeps; \<open>re.sub(r"[^a-z0-9]+", "-", s).strip("-")\<close>.\<close>

definition casefold :: "string \<Rightarrow> string" where
  "casefold t = concat (map (\<lambda>c. if (of_char c :: nat) = 223 then ''ss'' else [lower_char c]) t)"

definition alias_char :: "char \<Rightarrow> bool" where
  "alias_char c \<longleftrightarrow> is_digit c \<or> (let n = of_char c :: nat in 97 \<le> n \<and> n \<le> 122)"

fun dashed :: "bool \<Rightarrow> string \<Rightarrow> string" where
  "dashed before [] = []"
| "dashed before (c # cs) =
     (if alias_char c then c # dashed False cs
      else if before then dashed True cs else CHR ''-'' # dashed True cs)"

definition strip_dashes :: "string \<Rightarrow> string" where
  "strip_dashes s = rev (dropWhile (\<lambda>c. c = CHR ''-'') (rev (dropWhile (\<lambda>c. c = CHR ''-'') s)))"

definition plus_up :: "string \<Rightarrow> string" where
  "plus_up t = concat (map (\<lambda>c. if c = CHR ''+'' then ''-up'' else [c]) t)"

definition hold_named :: "'w holder_scheme \<Rightarrow> string \<Rightarrow> asked_hold \<Rightarrow> cards \<Rightarrow> plan \<Rightarrow> fault + string" where
  "hold_named w provider a c p =
     (let card = text_or (cd_gpu_name c) (text_or (plus_up (cd_arch c)) (df_gpu_name (pf_defaults (pn_profile p))));
          name = text_or (ah_alias a) (strip_dashes (dashed False (casefold (provider @ ''-'' @ card))))
      in if name \<in> set (h_declared w)
         then Inl (MissionError (repr_text name @ '' already names a host; hold it under another --as''))
         else Inr name)"

definition drafted :: "string \<Rightarrow> rental \<Rightarrow> run_record \<Rightarrow> plan \<Rightarrow> int \<Rightarrow> int \<Rightarrow> held_machine" where
  "drafted name hired rec p seconds now =
     \<lparr>hl_alias = name, hl_provider = pn_host p, hl_handle = rl_handle hired,
      hl_gpu = (case run_lease rec of None \<Rightarrow> [] | Some l \<Rightarrow> off_gpu (ls_offer l)),
      hl_usd_hr = map_option (\<lambda>l. off_rate_usd_hr (ls_offer l)) (run_lease rec),
      hl_deadline = now + seconds * 1000000,
      hl_profile = (pn_profile p)\<lparr>pf_kind := ''ssh'', pf_platform := ''linux-64'',
        pf_defaults := DEFAULTS\<lparr>df_walltime := walltime seconds\<rparr>, pf_queues := []\<rparr>\<rparr>"

definition bare_offer :: "string \<Rightarrow> string \<Rightarrow> offer" where
  "bare_offer kind gpu =
     \<lparr>off_provider = kind, off_gpu = gpu, off_gpu_count = 1, off_spot = False, off_region = [], off_rate_usd_hr = 0,
      off_granularity_s = 1, off_minimum_s = 0, off_fees_usd = 0, off_available = None, off_source = ''declared''\<rparr>"

text \<open>\<open>_relet\<close>: the lease, its budget and cap kept, moved to the hold's deadline.\<close>

definition hold_relet :: "'w world_scheme \<Rightarrow> run_record \<Rightarrow> held_machine \<Rightarrow> string \<Rightarrow> ('s keeping_scheme, unit) comp" where
  "hold_relet w rec ready kind =
     (let kept = (case run_lease rec of
            Some l \<Rightarrow> l
          | None \<Rightarrow> \<lparr>ls_offer = bare_offer kind (hl_gpu ready), ls_release_by = hl_deadline ready, ls_max_usd = 0, ls_cap = None\<rparr>)
      in on_lake (andThen (delivery w rec ''pending'') (\<lambda>current.
           andThen (relet w current (kept\<lparr>ls_release_by := hl_deadline ready\<rparr>)) (\<lambda>_. ret ()))))"

definition park :: "'w holder_scheme \<Rightarrow> string \<Rightarrow> ('s keeping_scheme, unit) comp" where
  "park w name =
     andThen (on_lake (reading (\<lambda>s. h_park w (occasion s) name))) (\<lambda>(code, err).
       if code \<noteq> 0 then raising (MissionError (''could not park '' @ name @ '': '' @
              drop (length (strip err) - 400) (strip err)))
       else ret ())"

definition set_up :: "'w holder_scheme \<Rightarrow> string \<Rightarrow> ('s keeping_scheme, host_setup) comp" where
  "set_up w name =
     on_lake (andThen (reading (\<lambda>s. h_setup w (occasion s) name)) (\<lambda>answer.
       andThen (returning answer) (\<lambda>found. save w found)))"

definition keep :: "'w holder_scheme \<Rightarrow> string \<Rightarrow> rental \<Rightarrow> plan \<Rightarrow> int \<Rightarrow> ('s keeping_scheme, held_machine) comp" where
  "keep w name hired p seconds =
     andThen (changing (\<lambda>s. s\<lparr>kp_config := alias_add name (rl_endpoint hired) (kp_config s)\<rparr>)) (\<lambda>_.
     andThen (on_lake (run_named (rl_handle hired) (Some (pn_host p)))) (\<lambda>rec.
     andThen (on_lake (clock_now w)) (\<lambda>now.
     let held = drafted name hired rec p seconds now in
     andThen (hold_save w held) (\<lambda>_.
     andThen (set_up w name) (\<lambda>setup.
     andThen (park w name) (\<lambda>_.
     andThen (on_lake (clock_now w)) (\<lambda>later.
     let ready = held\<lparr>hl_deadline := later + seconds * 1000000, hl_profile := (hl_profile held)\<lparr>pf_root := hs_root setup\<rparr>\<rparr> in
     andThen (hold_save w ready) (\<lambda>_.
     andThen (hold_relet w rec ready (pf_kind (pn_profile p))) (\<lambda>_.
     ret ready)))))))))"


text \<open>\<open>_end\<close>: through the ordinary settle path, or straight through the provider where no record is left.\<close>

definition end_hold :: "'w holder_scheme \<Rightarrow> string \<Rightarrow> string \<Rightarrow> string \<Rightarrow> ('s keeping_scheme, unit) comp" where
  "end_hold w nm h provider =
     andThen (on_lake (trying is_lookup (andThen (run_named h (Some provider)) (\<lambda>_. ret True)) (\<lambda>_. ret False))) (\<lambda>known.
     andThen (if known then on_lake (andThen (cancel w h provider) (\<lambda>_. ret ()))
              else andThen (returning (h_plan w provider [])) (\<lambda>p.
                   andThen (returning (rentable_of w p)) (\<lambda>b.
                   on_lake (backend_cancel w (bk_name b) h)))) (\<lambda>_.
     andThen (changing (\<lambda>s. s\<lparr>kp_config := alias_remove nm (kp_config s)\<rparr>)) (\<lambda>_.
     andThen (hold_drop w nm) (\<lambda>_.
     on_lake (hosts_drop w nm)))))"

definition warden_of :: "'w holder_scheme \<Rightarrow> string \<Rightarrow> rat \<Rightarrow> ('s keeping_scheme, cap) comp" where
  "warden_of w kind max_usd =
     andThen (on_lake (reading (\<lambda>s. (observations [] [] s, occasion s)))) (\<lambda>(rows, n).
     on_work (warden_rent (h_owner w) kind (h_route w kind) (h_budget w) max_usd rows (h_time w n) (h_at w n)))"

definition hold_order :: "plan \<Rightarrow> string \<Rightarrow> string \<Rightarrow> resources \<Rightarrow> string \<times> string \<times> string \<Rightarrow> order" where
  "hold_order p name duration r =
     (\<lambda>(key, commit, digest).
       \<lparr>or_host = pn_host p, or_kind = pf_kind (pn_profile p), or_image = pn_image p, or_key = pn_key p,
        or_env = pn_env p, or_spelling = ''hold '' @ name @ '' for '' @ duration, or_fetch = [], or_source_key = key,
        or_commit = commit, or_digest = digest, or_name = ''hold-'' @ name, or_node = [], or_resources = r\<rparr>)"

definition rent_hold ::
  "'w holder_scheme \<Rightarrow> (order \<Rightarrow> run_record \<Rightarrow> cap \<Rightarrow> (renting, rental) comp) \<Rightarrow> plan \<Rightarrow> resources \<Rightarrow> string \<Rightarrow> string \<Rightarrow>
     ('s keeping_scheme, rental) comp" where
  "rent_hold w rent p r name duration =
     andThen (warden_of w (pf_kind (pn_profile p)) (res_max_usd r)) (\<lambda>c.
     andThen (returning (h_source w)) (\<lambda>source.
     let d = hold_order p name duration r source in
     on_lake (andThen (allocating w d ''not_started'') (\<lambda>rec.
       unwinding (rent d rec c) (interrupted w rec)))))"

definition hold_machine ::
  "'w holder_scheme \<Rightarrow> (order \<Rightarrow> run_record \<Rightarrow> cap \<Rightarrow> (renting, rental) comp) \<Rightarrow> string \<Rightarrow> asked_hold \<Rightarrow> cards \<Rightarrow> string \<Rightarrow>
     ('s keeping_scheme, held_machine) comp" where
  "hold_machine w rent provider a c env =
     andThen (returning (h_plan w provider env)) (\<lambda>p.
     andThen (returning (hold_named w provider a c p)) (\<lambda>name.
     andThen (returning (duration_seconds (ah_duration a))) (\<lambda>seconds.
     andThen (returning (board_resources (h_evaluate w) (asked_resources a seconds c) p)) (\<lambda>r.
     andThen (returning (case h_vouch w (pn_env p) of None \<Rightarrow> Inr () | Some e \<Rightarrow> Inl e)) (\<lambda>_.
     andThen (returning (rentable_of w p)) (\<lambda>_.
     andThen (rent_hold w rent p r name (ah_duration a)) (\<lambda>hired.
     unwinding (keep w name hired p seconds) (end_hold w name (rl_handle hired) provider))))))))"

definition release_hold :: "'w holder_scheme \<Rightarrow> string \<Rightarrow> ('s keeping_scheme, held_machine) comp" where
  "release_hold w nm =
     andThen (reading holdings) (\<lambda>held.
       case map_of held nm of
         None \<Rightarrow> raising (MissionError (repr_text nm @ '' is not held; held machines are '' @
                   repr (JList (map JStr (sort (map fst held))))))
       | Some h \<Rightarrow> andThen (end_hold w nm (hl_handle h) (hl_provider h)) (\<lambda>_. ret h))"

definition hold_settled :: "held_machine \<Rightarrow> ('s keeping_scheme, bool) comp" where
  "hold_settled h =
     on_lake (trying is_lookup (andThen (run_named (hl_handle h) (Some (hl_provider h))) (\<lambda>rec. ret (settled_opt (run_verdict rec))))
       (\<lambda>_. ret True))"

definition expire_one :: "'w holder_scheme \<Rightarrow> int \<Rightarrow> held_machine \<Rightarrow> ('s keeping_scheme, held_machine list) comp" where
  "expire_one w now h =
     andThen (if now < hl_deadline h then hold_settled h else ret True) (\<lambda>due.
       if \<not> due then ret []
       else trying (\<lambda>e. is_mission e \<or> is_os e) (andThen (release_hold w (hl_alias h)) (\<lambda>gone. ret [gone])) (\<lambda>_. ret []))"

definition expire_holds :: "'w holder_scheme \<Rightarrow> ('s keeping_scheme, held_machine list) comp" where
  "expire_holds w =
     andThen (on_lake (clock_now w)) (\<lambda>now.
     andThen (reading holdings) (\<lambda>held.
     andThen (each (expire_one w now) (map snd held)) (\<lambda>gone. ret (concat gone))))"

end
