(* ===== verification/Reaping.thy ===== *)
theory Reaping
  imports Holds
begin

text \<open>
  The reap pass (\<open>settling/reaping/reaper.py\<close>): every provider is asked what machines its account rents,
  each is ruled on against the creations the run registry holds and the machines held, and the ones
  ruled on so are bound to their creation or ended. The log lines of a ruling are not modelled.
\<close>

section \<open>Rulings\<close>

text \<open>Ten minutes, an instant being microseconds since the epoch.\<close>

definition GRACE :: int where "GRACE = 600000000"

definition GONE :: string where "GONE = ''gone''"

definition reap_fault :: "fault \<Rightarrow> bool" where
  "reap_fault e \<longleftrightarrow> is_mission e \<or> is_os e \<or> is_value e \<or> is_lookup e"

datatype reap_action = R_BIND | R_END | R_KEEP | R_REPORT

datatype stage = S_PREPARED | S_SUBMITTING | S_LIVE | S_OWED | S_DONE

type_synonym verdict_rule = "reap_action \<times> string"

fun first_rule :: "(bool \<times> reap_action \<times> string) list \<Rightarrow> verdict_rule option" where
  "first_rule [] = None"
| "first_rule ((applies, action, why) # rules) = (if applies then Some (action, why) else first_rule rules)"

record kept_creation =
  kt_label :: string
  kt_target :: string
  kt_provider :: string
  kt_handle :: string
  kt_stage :: stage
  kt_submitted :: int
  kt_release_by :: "int option"

definition staged :: "run_record \<Rightarrow> stage" where
  "staged rec =
     (let verdict = text_of (run_verdict rec) in
      if verdict = word_text PREPARED then S_PREPARED
      else if verdict = word_text SUBMITTING then S_SUBMITTING
      else if \<not> settled_text verdict then S_LIVE
      else if run_reported rec \<noteq> run_verdict rec then S_OWED else S_DONE)"

definition lapsed :: "kept_creation \<Rightarrow> int \<Rightarrow> bool" where
  "lapsed k now = (case kt_release_by k of None \<Rightarrow> False | Some due \<Rightarrow> GRACE < now - due)"

text \<open>
  What a pass relies on: the backends registered, each with whether it lists its rentals, what each
  listing answers, how an instant written in the registry is read (a naive or unreadable one is
  refused) and how one is shown.
\<close>

record reaper = holder +
  p_providers :: "(string \<times> bool) list"
  p_rentals :: "nat \<Rightarrow> string \<Rightarrow> fault + rented list"
  p_instant :: "stamp \<Rightarrow> fault + int"
  p_spoken :: "int option \<Rightarrow> string"

definition kept_of :: "'w reaper_scheme \<Rightarrow> run_record \<Rightarrow> fault + kept_creation option" where
  "kept_of w rec =
     (if run_creation rec = [] then Inr None
      else map_sum id (\<lambda>instant. Some
        \<lparr>kt_label = run_creation rec, kt_target = run_target rec, kt_provider = run_kind rec,
         kt_handle = run_handle rec, kt_stage = staged rec, kt_submitted = instant,
         kt_release_by = map_option ls_release_by (run_lease rec)\<rparr>) (p_instant w (run_submitted_at rec)))"

definition ruling :: "'w reaper_scheme \<Rightarrow> kept_creation \<Rightarrow> rented \<Rightarrow> string \<Rightarrow> int \<Rightarrow> verdict_rule" where
  "ruling w k m provider now =
     (let submitting = (kt_stage k = S_SUBMITTING) in
      case first_rule
        [(kt_provider k \<noteq> provider, R_REPORT, ''label '' @ kt_label k @ '' was minted for '' @ kt_provider k),
         (kt_stage k = S_PREPARED, R_REPORT, ''its record says no create was ever sent''),
         (submitting \<and> now - kt_submitted k < GRACE, R_KEEP, ''its create may still be in flight''),
         (submitting, R_BIND, ''a create with no recorded handle, bound to this machine''),
         (kt_handle k \<noteq> rt_handle m, R_REPORT, ''its label is recorded against handle '' @ kt_handle k),
         (kt_stage k = S_DONE, R_END, ''its run settled and was reported, so nothing here releases it''),
         (lapsed k now, R_END, ''past its release deadline '' @ p_spoken w (kt_release_by k)),
         (kt_stage k = S_OWED, R_KEEP, ''its run settled and settlement still owes its report'')] of
        Some rule \<Rightarrow> rule
      | None \<Rightarrow> (R_KEEP, ''a live run owns it''))"

record decision =
  dc_provider :: string
  dc_rented :: rented
  dc_action :: reap_action
  dc_reason :: string
  dc_kept :: "kept_creation option"

definition selected :: "decision \<Rightarrow> bool" where
  "selected d \<longleftrightarrow> dc_action d \<in> {R_BIND, R_END}"

definition spared :: "rented \<Rightarrow> (string, string) dict \<Rightarrow> verdict_rule option" where
  "spared m held =
     first_rule
       [(map_of held (rt_handle m) \<noteq> None, R_KEEP, ''held as '' @ text_of (map_of held (rt_handle m))),
        (rt_status m = GONE, R_KEEP, ''the provider reports it already ended'')]"

definition label_count :: "rented list \<Rightarrow> string \<Rightarrow> nat" where
  "label_count listing name = length (filter (\<lambda>m. rt_label m \<noteq> [] \<and> rt_label m = name) listing)"

definition repeated :: "rented \<Rightarrow> rented list \<Rightarrow> verdict_rule option" where
  "repeated m listing =
     (if label_count listing (rt_label m) > 1
      then Some (R_REPORT, ''label '' @ rt_label m @ '' is listed '' @ nat_text (label_count listing (rt_label m)) @
             '' times, so it proves nothing'')
      else None)"

definition stranger :: "rented \<Rightarrow> verdict_rule" where
  "stranger m =
     (if rt_label m = [] then (R_REPORT, ''it carries no label, so nothing proves it ours'')
      else (R_REPORT, ''label '' @ rt_label m @ '' was not minted here''))"

definition judged ::
  "'w reaper_scheme \<Rightarrow> rented \<Rightarrow> kept_creation option \<Rightarrow> string \<Rightarrow> verdict_rule option \<Rightarrow> int \<Rightarrow> decision" where
  "judged w m creation provider given now =
     (let (action, reason) = (case given of
            Some rule \<Rightarrow> rule
          | None \<Rightarrow> (case creation of Some k \<Rightarrow> ruling w k m provider now | None \<Rightarrow> stranger m))
      in \<lparr>dc_provider = provider, dc_rented = m, dc_action = action, dc_reason = reason, dc_kept = creation\<rparr>)"

text \<open>\<open>decide\<close>: a label minted twice keeps the last creation of the sequence, as a dictionary does.\<close>

definition minted :: "kept_creation list \<Rightarrow> (string, kept_creation) dict" where
  "minted ks = foldl (\<lambda>d k. AList.update (kt_label k) k d) [] ks"

definition decide ::
  "'w reaper_scheme \<Rightarrow> rented list \<Rightarrow> string \<Rightarrow> kept_creation list \<Rightarrow> (string, string) dict \<Rightarrow> int \<Rightarrow> decision list" where
  "decide w listing provider ks held now =
     map (\<lambda>m. judged w m (map_of (minted ks) (rt_label m)) provider
            (case spared m held of Some rule \<Rightarrow> Some rule | None \<Rightarrow> repeated m listing) now) listing"


section \<open>One pass\<close>

record reap_report =
  rr_delete :: bool
  rr_decisions :: "decision list"
  rr_acted :: "string list"
  rr_failed :: "(string, string) dict"
  rr_unreached :: "(string, string) dict"
  rr_busy :: bool

fun ask_rentals ::
  "'w reaper_scheme \<Rightarrow> (string \<times> bool) list \<Rightarrow> (string, rented list) dict \<Rightarrow> (string, string) dict \<Rightarrow>
     ('s keeping_scheme, (string, rented list) dict \<times> (string, string) dict) comp" where
  "ask_rentals w [] listings silent = ret (listings, silent)"
| "ask_rentals w ((name, inventory) # rest) listings silent =
     (if \<not> inventory then ask_rentals w rest listings silent
      else andThen (reading (\<lambda>s. p_rentals w (occasion (kp_lake s)) name)) (\<lambda>answer.
             case answer of
               Inr found \<Rightarrow> ask_rentals w rest (AList.update name found listings) silent
             | Inl e \<Rightarrow> if reap_fault e then ask_rentals w rest listings (AList.update name (fault_text e) silent)
                        else raising e))"

fun all_kept :: "'w reaper_scheme \<Rightarrow> run_record list \<Rightarrow> fault + kept_creation list" where
  "all_kept w [] = Inr []"
| "all_kept w (rec # recs) =
     (case kept_of w rec of
        Inl e \<Rightarrow> Inl e
      | Inr k \<Rightarrow> map_sum id (\<lambda>ks. (case k of None \<Rightarrow> ks | Some x \<Rightarrow> x # ks)) (all_kept w recs))"

definition held_handles :: "'s keeping_scheme \<Rightarrow> (string, string) dict" where
  "held_handles s = foldl (\<lambda>d (nm, h). AList.update (hl_handle h) nm d) [] (holdings s)"

definition decided ::
  "'w reaper_scheme \<Rightarrow> (string, rented list) dict \<Rightarrow> ('s keeping_scheme, decision list) comp" where
  "decided w listings =
     andThen (reading (\<lambda>s. all_kept w (listed All [] None [] (kp_lake s)))) (\<lambda>answer.
     andThen (returning answer) (\<lambda>ks.
     andThen (reading held_handles) (\<lambda>held.
     andThen (on_lake (clock_now w)) (\<lambda>now.
       ret (concat (map (\<lambda>(provider, listing). decide w listing provider ks held now) listings))))))"

definition bind_machine :: "'w world_scheme \<Rightarrow> string \<Rightarrow> string \<Rightarrow> string \<Rightarrow> ('s lake_scheme, unit) comp" where
  "bind_machine w lbl target h = andThen (named lbl target) (\<lambda>rec. andThen (created w rec h) (\<lambda>_. ret ()))"

definition reap_bind :: "'w reaper_scheme \<Rightarrow> decision \<Rightarrow> ('s keeping_scheme, unit) comp" where
  "reap_bind w d =
     (case dc_kept d of
        None \<Rightarrow> raising (LookupError ''a bind needs the creation it binds'')
      | Some k \<Rightarrow>
          on_lake (bind_machine w (kt_label k) (kt_target k) (rt_handle (dc_rented d))))"

definition reap_apply :: "'w reaper_scheme \<Rightarrow> decision \<Rightarrow> ('s keeping_scheme, unit) comp" where
  "reap_apply w d =
     (if dc_action d = R_BIND then reap_bind w d
      else on_lake (backend_cancel w (dc_provider d) (rt_handle (dc_rented d))))"

definition attempt :: "'w reaper_scheme \<Rightarrow> decision \<Rightarrow> ('s keeping_scheme, string) comp" where
  "attempt w d =
     trying reap_fault (andThen (reap_apply w d) (\<lambda>_. ret [])) (\<lambda>e. ret (fault_text e))"

definition applied ::
  "'w reaper_scheme \<Rightarrow> decision list \<Rightarrow> ('s keeping_scheme, string list \<times> (string, string) dict) comp" where
  "applied w ds =
     andThen (each (\<lambda>d. andThen (attempt w d) (\<lambda>why. ret (rt_handle (dc_rented d), why))) (filter selected ds)) (\<lambda>attempts.
       ret (map fst (filter (\<lambda>(h, why). why = []) attempts),
            foldl (\<lambda>d (h, why). AList.update h why d) [] (filter (\<lambda>(h, why). why \<noteq> []) attempts)))"

definition reap_swept :: "'w reaper_scheme \<Rightarrow> bool \<Rightarrow> ('s keeping_scheme, reap_report) comp" where
  "reap_swept w delete =
     andThen (on_lake (phase_lock w ''reaping orphaned rentals'' [])) (\<lambda>_.
     andThen (ask_rentals w (p_providers w) [] []) (\<lambda>(listings, silent).
     andThen (decided w listings) (\<lambda>ds.
     andThen (if delete then applied w ds else ret ([], [])) (\<lambda>(acted, failed).
     ret \<lparr>rr_delete = delete, rr_decisions = ds, rr_acted = acted, rr_failed = failed,
          rr_unreached = silent, rr_busy = False\<rparr>))))"

definition reap_once :: "'w reaper_scheme \<Rightarrow> bool \<Rightarrow> ('s keeping_scheme, reap_report) comp" where
  "reap_once w delete =
     andThen (on_lake (reading (\<lambda>s. x_holder w (moment s)))) (\<lambda>holder.
       case holder of
         Some _ \<Rightarrow> ret \<lparr>rr_delete = delete, rr_decisions = [], rr_acted = [], rr_failed = [], rr_unreached = [], rr_busy = True\<rparr>
       | None \<Rightarrow> andThen (on_lake (acquired w)) (\<lambda>_. reap_swept w delete))"

end
