(* ===== verification/Cost_Properties.thy ===== *)
theory Cost_Properties
  imports Leases Leave_Properties Monitor_Properties "HOL-Library.Multiset"
begin

text \<open>
  Money: what a lease lets a machine cost stays inside its budget, a rent goes ahead only under a cap
  and inside the declared budget or the owner's leave, and offers are priced and ranked as their terms
  and the landings kept say.
\<close>

section \<open>What a lease may cost\<close>

lemma floor_quanta:
  fixes x :: rat
  assumes "1 \<le> g"
  shows "of_int (\<lfloor>x / of_int g\<rfloor> * g) \<le> x"
proof -
  have "(0::rat) < of_int g" using assms by simp
  then show ?thesis using of_int_floor_le [of "x / of_int g"] by (simp only: pos_le_divide_eq of_int_mult)
qed

lemma billable_seconds_affordable:
  assumes "0 < bl_rate_usd_hr b" and "1 \<le> bl_granularity_s b"
  shows "bl_fees_usd b + bl_rate_usd_hr b * of_int (billable_seconds b m) / SECONDS_PER_HOUR \<le> m"
proof -
  let ?available = "(m - bl_fees_usd b) * SECONDS_PER_HOUR / bl_rate_usd_hr b"
  have "of_int (billable_seconds b m) \<le> ?available"
    unfolding billable_seconds_def Let_def using assms(2) by (rule floor_quanta)
  with assms(1) show ?thesis
    by (simp add: SECONDS_PER_HOUR_def field_simps)
qed

lemma whole_quanta:
  fixes wall :: rat
  assumes "1 \<le> g" and "wall \<le> of_int (q * g)"
  shows "\<lceil>wall / of_int g\<rceil> * g \<le> q * g"
proof -
  have "wall / of_int g \<le> of_int q" using assms by (simp add: pos_divide_le_eq)
  then have "\<lceil>wall / of_int g\<rceil> \<le> q" by (simp add: ceiling_le_iff)
  with assms(1) show ?thesis by (simp add: mult_right_mono)
qed

lemma cost_within_billable:
  assumes "0 < bl_rate_usd_hr b" and "1 \<le> bl_granularity_s b" and "bl_minimum_s b \<le> billable_seconds b m"
    and "setup + run + drain \<le> of_int (billable_seconds b m)"
  shows "cost_usd b setup run drain \<le> m"
proof -
  have "billed_seconds b setup run drain \<le> billable_seconds b m"
    using assms whole_quanta [OF assms(2), of "setup + run + drain"]
    by (simp add: billed_seconds_def billable_seconds_def Let_def)
  then have "bl_rate_usd_hr b * of_int (billed_seconds b setup run drain) \<le> bl_rate_usd_hr b * of_int (billable_seconds b m)"
    using assms(1) by (simp add: mult_left_mono)
  then have "cost_usd b setup run drain \<le> bl_fees_usd b + bl_rate_usd_hr b * of_int (billable_seconds b m) / SECONDS_PER_HOUR"
    by (simp add: cost_usd_def SECONDS_PER_HOUR_def divide_right_mono)
  also have "\<dots> \<le> m" using assms(1,2) by (rule billable_seconds_affordable)
  finally show ?thesis .
qed

lemma lease_pricedE:
  assumes "lease_priced f r c setup now = Inr l"
  obtains requested where "walltime_s r = Inr requested" and "0 < bl_rate_usd_hr (offer_billing f)"
    and "1 \<le> bl_granularity_s (offer_billing f)" and "0 \<le> setup"
    and "bl_minimum_s (offer_billing f) \<le> billable_seconds (offer_billing f) (res_max_usd r)"
    and "setup + requested + 120 < billable_seconds (offer_billing f) (res_max_usd r)"
    and "l = \<lparr>ls_offer = f, ls_release_by = now + (if requested \<noteq> 0
             then min (billable_seconds (offer_billing f) (res_max_usd r) - 120) (setup + requested + 120)
             else billable_seconds (offer_billing f) (res_max_usd r) - 120) * 1000000,
           ls_max_usd = res_max_usd r, ls_cap = Some c\<rparr>"
  using assms
  by (auto simp: lease_priced_def RELEASE_SECONDS_def Let_def not_less not_le split: if_splits sum.splits)

text \<open>
  C20. A lease keeps its budget. A machine rented under an accepted lease and ended by the lease's
  deadline, or within the two minutes a release takes after it, is billed no more than the budget the
  lease was accepted under, whatever the provider's granularity, minimum and fees; and the deadline
  leaves the job the setup time and the walltime it asked for.
\<close>

theorem lease_within_budget:
  assumes "lease_priced f r c setup now = Inr l"
  shows "(\<forall>wall. 0 \<le> wall \<and> wall \<le> of_int (ls_release_by l - now) / 1000000 + 120 \<longrightarrow>
            cost_usd (offer_billing f) wall 0 0 \<le> ls_max_usd l) \<and>
    (\<forall>requested. walltime_s r = Inr requested \<longrightarrow> (setup + requested) * 1000000 < ls_release_by l - now)"
  using assms
proof (rule lease_pricedE)
  fix requested
  let ?b = "offer_billing f"
  let ?seconds = "billable_seconds ?b (res_max_usd r)"
  let ?lifetime = "if requested \<noteq> 0 then min (?seconds - 120) (setup + requested + 120) else ?seconds - 120"
  assume terms: "walltime_s r = Inr requested" "0 < bl_rate_usd_hr ?b" "1 \<le> bl_granularity_s ?b" "0 \<le> setup"
      "bl_minimum_s ?b \<le> ?seconds" "setup + requested + 120 < ?seconds"
    and l: "l = \<lparr>ls_offer = f, ls_release_by = now + ?lifetime * 1000000, ls_max_usd = res_max_usd r, ls_cap = Some c\<rparr>"
  have span: "of_int (ls_release_by l - now) / 1000000 = (of_int ?lifetime :: rat)" by (simp add: l)
  have "cost_usd ?b wall 0 0 \<le> ls_max_usd l" if "wall \<le> of_int (ls_release_by l - now) / 1000000 + 120" for wall
  proof -
    have "?lifetime + 120 \<le> ?seconds" by auto
    then have "(of_int (?lifetime + 120) :: rat) \<le> of_int ?seconds" by (simp only: of_int_le_iff)
    with that have "wall \<le> of_int ?seconds" unfolding span by simp
    then show ?thesis using cost_within_billable [OF terms(2,3,5), of wall 0 0] by (simp add: l)
  qed
  moreover have "setup + requested < ?lifetime" using terms by auto
  ultimately show ?thesis using terms(1) by (auto simp: l)
qed

definition sample_offer :: offer where
  "sample_offer = \<lparr>off_provider = ''vast'', off_gpu = ''RTX 4090'', off_gpu_count = 1, off_spot = False, off_region = [],
     off_rate_usd_hr = 2, off_granularity_s = 60, off_minimum_s = 1800, off_fees_usd = 1 / 2, off_available = None,
     off_source = ''declared''\<rparr>"

definition sample_asked_for :: resources where
  "sample_asked_for = \<lparr>res_gpus = 1, res_gpu_name = ''RTX 4090'', res_nodes = 1, res_walltime = Some ''01:00:00'',
     res_queue = None, res_account = [], res_container = [], res_mem_gb = None, res_max_usd = 10, res_attempt = 0,
     res_spot = False, res_arch = [], res_datacenter = False\<rparr>"

definition sample_cap :: cap where
  "sample_cap = \<lparr>cap_provider = ''vast'', cap_bound = PREPAID, cap_limit_usd = 0\<rparr>"

lemma sample_priced:
  "lease_priced sample_offer sample_asked_for sample_cap 900 0 =
     Inr \<lparr>ls_offer = sample_offer, ls_release_by = 4620000000, ls_max_usd = 10, ls_cap = Some sample_cap\<rparr>"
  by code_simp

theorem lease_within_budget_witness:
  "cost_usd (offer_billing sample_offer) 4740 0 0 \<le> 10 \<and> (900 + 3600) * 1000000 < (4620000000 :: int)"
proof -
  have "walltime_s sample_asked_for = Inr 3600" by code_simp
  with lease_within_budget [OF sample_priced] show ?thesis by simp
qed


section \<open>A rent and its leave\<close>

lemma allowed_leave:
  assumes "allowed w a target why t s = (Inr x, u)"
  shows "u = s \<and> (\<exists>gs. read_grants w (wk_file s) = Inr gs \<and> covering a target t gs \<noteq> None)"
  using assms
  by (auto simp: allowed_def Let_def elim!: andThen_InrE split: sum.splits if_splits)

lemma backend_cap_bounded:
  "backend_cap project b card_usd = Inr c \<Longrightarrow>
     cap_provider c = bk_name b \<and> cap_bound c = bk_bound b \<and> (bk_bound b = CARD \<longrightarrow> cap_limit_usd c = card_usd \<and> card_usd \<noteq> 0)"
  by (auto simp: backend_cap_def split: if_splits)

lemma admit_rent_within:
  "admit_rent project shown b img r c = Inr () \<Longrightarrow>
     res_max_usd r \<noteq> 0 \<and> (cap_bound c = CARD \<longrightarrow> res_max_usd r \<le> max (cap_limit_usd c) 0)"
  by (auto simp: admit_rent_def cap_remaining_def not_less split: if_splits allowance.splits bound.splits)

text \<open>
  C21. A rent goes ahead only under a cap, and inside the declared budget or the owner's leave. What
  the warden lets through changed nothing, carries the provider's own cap (for a provider billing a
  card, exactly the limit the owner last declared, which is not zero), and either no budget is
  declared, or what was billed in its window and the new rental's budget fit it together, or a live
  grant of the owner covers renting from that provider; and what a backend then admits under that cap
  never exceeds a card's limit.
\<close>

theorem rent_needs_cap_and_leave:
  assumes "warden_rent w kind found policy m ledger clock t s = (Inr c, s')"
  shows "s' = s \<and> (\<exists>b gs. found = Inr (Some b) \<and> read_grants w (wk_file s) = Inr gs \<and>
      cap_provider c = bk_name b \<and> cap_bound c = bk_bound b \<and>
      (cap_bound c = CARD \<longrightarrow> cap_limit_usd c = card_limit (bk_name b) gs \<and> cap_limit_usd c \<noteq> 0) \<and>
      (\<forall>g. policy = Some g \<longrightarrow>
         billed_since (clock - of_int (bg_days g) * 86400) ledger + m \<le> bg_usd g \<or>
         covering A_RENT (bk_name b) t gs \<noteq> None)) \<and>
    (\<forall>project shown b img r. cap_bound c = CARD \<and> admit_rent project shown b img r c = Inr () \<longrightarrow>
       res_max_usd r \<le> max (cap_limit_usd c) 0)"
proof -
  from assms obtain b gs u where found: "found = Inr (Some b)" and gs: "read_grants w (wk_file s) = Inr gs"
    and cap: "backend_cap (ow_project w) b (card_limit (bk_name b) gs) = Inr c" and leave: "s' = s \<and>
      (\<forall>g. policy = Some g \<longrightarrow> budget_allows g (billed_since (clock - of_int (bg_days g) * 86400) ledger) m \<or>
         covering A_RENT (cap_provider c) t gs \<noteq> None)"
    by (auto simp: warden_rent_def Let_def elim!: andThen_InrE split: option.splits if_splits dest!: allowed_leave)
  have "cap_provider c = bk_name b \<and> cap_bound c = bk_bound b \<and>
      (cap_bound c = CARD \<longrightarrow> cap_limit_usd c = card_limit (bk_name b) gs \<and> cap_limit_usd c \<noteq> 0)"
    using backend_cap_bounded [OF cap] by auto
  with found gs leave show ?thesis by (auto simp: budget_allows_def dest: admit_rent_within)
qed

definition sample_backend :: backend where
  "sample_backend = \<lparr>bk_name = ''vast'', bk_bound = PREPAID, bk_minimum_s = 0, bk_cuda_floor = 13, bk_inventory = True\<rparr>"

theorem rent_needs_cap_and_leave_witness:
  "warden_rent sample_leaving ''vast'' (Inr (Some sample_backend)) (Some \<lparr>bg_usd = 50, bg_days = 7\<rparr>) 10 [] 0 0 sample_workspace =
     (Inr sample_cap, sample_workspace) \<and>
   billed_since (0 - of_int (bg_days \<lparr>bg_usd = 50, bg_days = 7\<rparr>) * 86400) [] + 10 \<le> bg_usd \<lparr>bg_usd = 50, bg_days = 7\<rparr>"
proof -
  have run: "warden_rent sample_leaving ''vast'' (Inr (Some sample_backend)) (Some \<lparr>bg_usd = 50, bg_days = 7\<rparr>) 10 [] 0 0 sample_workspace =
     (Inr sample_cap, sample_workspace)"
    by (simp add: warden_rent_def andThen_apply backend_cap_def sample_backend_def sample_cap_def budget_allows_def billed_since_def)
  moreover have "covering A_RENT ''vast'' 0 no_grants = None" by code_simp
  ultimately show ?thesis
    using rent_needs_cap_and_leave [OF run] by (auto simp: sample_backend_def)
qed


section \<open>Quotes and scores\<close>

lemma median_le_decile9:
  assumes "3 \<le> length values"
  shows "median values \<le> decile values 9"
proof -
  let ?xs = "sort values"
  let ?m = "length values - 1"
  let ?j = "9 * ?m div 10"
  have le: "?xs ! i \<le> ?xs ! j" if "i \<le> j" "j < length values" for i j
    using that by (simp add: sorted_nth_mono)
  have "10 * (length values div 2) div 10 \<le> ?j" using assms by (intro div_le_mono) linarith
  then have top: "length values div 2 \<le> ?j" by simp
  have next_in: "?j + 1 < length values" using assms times_div_less_eq_dividend [of 10 "9 * ?m"] by linarith
  have "median values \<le> ?xs ! (length values div 2)"
  proof (cases "odd (length values)")
    case False
    have "?xs ! (length values div 2 - 1) \<le> ?xs ! (length values div 2)" using assms by (intro le) auto
    with False show ?thesis by (simp add: median_def Let_def field_simps)
  qed (simp add: median_def Let_def)
  also have "\<dots> \<le> ?xs ! ?j" using top next_in by (intro le) auto
  also have "\<dots> \<le> decile values 9"
  proof -
    let ?d = "of_nat (9 * ?m mod 10) :: rat"
    have "?xs ! ?j * ?d \<le> ?xs ! (?j + 1) * ?d" using next_in by (intro mult_right_mono le) auto
    moreover have "(of_nat (10 - 9 * ?m mod 10) :: rat) = 10 - ?d"
      by (simp add: of_nat_diff less_imp_le)
    ultimately show ?thesis by (simp add: decile_def Let_def field_simps)
  qed
  finally show ?thesis .
qed

lemma cost_mono:
  assumes "0 \<le> bl_rate_usd_hr b" and "1 \<le> bl_granularity_s b" and "x + run + drain \<le> y + run' + drain'"
  shows "cost_usd b x run drain \<le> cost_usd b y run' drain'"
proof -
  have "\<lceil>(x + run + drain) / of_int (bl_granularity_s b)\<rceil> \<le> \<lceil>(y + run' + drain') / of_int (bl_granularity_s b)\<rceil>"
    using assms(2,3) by (intro ceiling_mono divide_right_mono) auto
  then have "billed_seconds b x run drain \<le> billed_seconds b y run' drain'"
    unfolding billed_seconds_def Let_def using assms(2) by (intro max.mono mult_right_mono) auto
  then have "bl_rate_usd_hr b * of_int (billed_seconds b x run drain) \<le> bl_rate_usd_hr b * of_int (billed_seconds b y run' drain')"
    using assms(1) by (intro mult_left_mono) auto
  then show ?thesis by (simp add: cost_usd_def SECONDS_PER_HOUR_def divide_right_mono)
qed

lemma quote_of_fields:
  "qu_offer (quote_of (Some s) base run f) = f \<and>
   qu_expected_usd (quote_of (Some s) base run f) =
     cost_usd (offer_billing f) (case setup_fit_of (off_provider f) (off_gpu f) s of None \<Rightarrow> base | Some fit \<Rightarrow> sf_p50_s fit) run 0 \<and>
   qu_p90_usd (quote_of (Some s) base run f) =
     cost_usd (offer_billing f) (case setup_fit_of (off_provider f) (off_gpu f) s of None \<Rightarrow> base | Some fit \<Rightarrow> sf_p90_s fit) run 0"
  by (simp add: quote_of_def Let_def split: option.split)

lemma setup_fit_tail: "setup_fit_of p g s = Some fit \<Longrightarrow> sf_p50_s fit \<le> sf_p90_s fit"
  using median_le_decile9 by (auto simp: setup_fit_of_def Let_def not_less split: if_splits)

text \<open>
  Quotes are complete, in order and honest about the tail. The quotes for a card are one for every
  offer of it in the roster, however the card is spelled, cheapest expected cost first; each is the
  offer's own billing applied to the setup time fitted from the provider's observations (its median,
  and its ninth decile for the tail) or to the default while fewer than three were kept, and the tail
  is never below the expected cost.
\<close>

theorem quotes_cheapest_first:
  "mset (map qu_offer (quotes roster gpu run (Some s) base)) =
     mset (filter (\<lambda>f. gpu = [] \<or> card_key (off_gpu f) = card_key gpu) roster) \<and>
   sorted (map qu_expected_usd (quotes roster gpu run (Some s) base)) \<and>
   (\<forall>q f. q \<in> set (quotes roster gpu run (Some s) base) \<and> f = qu_offer q \<longrightarrow>
      qu_expected_usd q = cost_usd (offer_billing f) (case setup_fit_of (off_provider f) (off_gpu f) s of
        None \<Rightarrow> base | Some fit \<Rightarrow> sf_p50_s fit) run 0 \<and>
      (0 \<le> off_rate_usd_hr f \<and> 1 \<le> off_granularity_s f \<longrightarrow> qu_expected_usd q \<le> qu_p90_usd q))"
proof (intro conjI allI impI, goal_cases)
  case 1
  show ?case by (simp add: quotes_def catalog_offers_def multiset.map_comp comp_def quote_of_fields)
next
  case 2
  show ?case by (simp add: quotes_def)
next
  case (3 q f)
  then show ?case by (auto simp: quotes_def quote_of_fields)
next
  case (4 q f)
  then have "q = quote_of (Some s) base run f" by (auto simp: quotes_def quote_of_fields)
  with 4 show ?case
    by (auto simp: quote_of_fields offer_billing_def intro!: cost_mono setup_fit_tail split: option.splits)
qed

definition sample_costs :: "observation list" where
  "sample_costs = map (\<lambda>x. \<lparr>ob_provider = ''vast'', ob_gpu = ''RTX 4090'', ob_region = [], ob_t_submit = 0,
     ob_t_running = x, ob_t_ended = x + 60, ob_billed_usd = 1, ob_tier = [], ob_datacenter = [], ob_verdict = [],
     ob_ready_s = 0, ob_probe_mbps = 0\<rparr>) [600, 120, 240]"

definition sample_ledger :: watching where
  "sample_ledger = center.extend (sample_center RUNNING) \<lparr>wa_costs = sample_costs\<rparr>"

theorem quotes_cheapest_first_witness:
  "map qu_expected_usd (quotes [sample_offer] ''rtx_4090'' 3600 (Some sample_ledger) 300) = [79 / 30] \<and>
   list_all (\<lambda>q. qu_expected_usd q \<le> qu_p90_usd q) (quotes [sample_offer] ''rtx_4090'' 3600 (Some sample_ledger) 300)"
proof -
  let ?quotes = "quotes [sample_offer] ''rtx_4090'' 3600 (Some sample_ledger) 300"
  have "qu_expected_usd q \<le> qu_p90_usd q" if "q \<in> set ?quotes" for q
  proof -
    have "list_all (\<lambda>q. 0 \<le> off_rate_usd_hr (qu_offer q) \<and> 1 \<le> off_granularity_s (qu_offer q)) ?quotes" by code_simp
    with that quotes_cheapest_first [of "[sample_offer]" "''rtx_4090''" 3600 sample_ledger 300]
    show ?thesis by (auto simp: list_all_iff)
  qed
  moreover have "map qu_expected_usd ?quotes = [79 / 30]" by code_simp
  ultimately show ?thesis by (simp add: list_all_iff)
qed

lemma delivered_bounds: "0 < delivered t" "tk_landed t \<le> tk_landings t \<Longrightarrow> delivered t < 1"
  by (simp_all add: delivered_def add_nonneg_pos)

lemma track_counts:
  "tk_landed (track_of rows p g) + tk_refused (track_of rows p g) \<le> tk_landings (track_of rows p g)"
proof -
  let ?landed = "\<lambda>row. landing_of row = Some LANDED"
  let ?refused = "\<lambda>row. landing_of row = Some REFUSED"
  have "length (filter ?landed xs) + length (filter ?refused xs) \<le> length xs" for xs
    by (induction xs) auto
  from this [of "filter (\<lambda>row. landing_of row \<noteq> None) rows"] show ?thesis
    by (simp only: track_of_def Let_def rental_track.simps)
qed

lemma billed_share_bounds: "0 \<le> billed_share (track_of rows p g)"
  using track_counts [of rows p g] by (auto simp: billed_share_def Let_def)

lemma decile_nonneg:
  assumes "2 \<le> length values" and "i \<le> 9" and "\<And>x. x \<in> set values \<Longrightarrow> 0 \<le> x"
  shows "0 \<le> decile values i"
proof -
  let ?m = "length values - 1"
  let ?j = "i * ?m div 10"
  have "10 * ?j \<le> 9 * ?m"
    using times_div_less_eq_dividend [of 10 "i * ?m"] mult_right_mono [OF assms(2), of ?m] by linarith
  then have "?j + 1 < length values" using assms(1) by linarith
  then have "0 \<le> sort values ! ?j" "0 \<le> sort values ! (?j + 1)"
    using assms(3) by (metis add_lessD1 length_sort nth_mem set_sort)+
  then show ?thesis by (simp add: decile_def Let_def)
qed

lemma quantile_nonneg: "quantile (filter (\<lambda>x. 0 < x) xs) i = Some q \<Longrightarrow> i \<le> 9 \<Longrightarrow> 0 \<le> q"
proof -
  assume q: "quantile (filter (\<lambda>x. 0 < x) xs) i = Some q" and i: "i \<le> 9"
  let ?ys = "filter (\<lambda>x. 0 < x) xs"
  have pos: "0 \<le> y" if "y \<in> set ?ys" for y using that by auto
  show "0 \<le> q"
  proof (cases ?ys)
    case (Cons y ys)
    with q i pos show ?thesis
      using decile_nonneg [of ?ys i] by (cases ys) (auto simp: quantile_def)
  qed (use q in \<open>simp add: quantile_def\<close>)
qed

lemma cost_covers_wall:
  assumes "0 \<le> bl_rate_usd_hr b" and "0 \<le> bl_fees_usd b" and "1 \<le> bl_granularity_s b"
  shows "bl_rate_usd_hr b * (x + y + z) / 3600 \<le> cost_usd b x y z"
proof -
  let ?g = "of_int (bl_granularity_s b) :: rat"
  have "(x + y + z) / ?g \<le> of_int \<lceil>(x + y + z) / ?g\<rceil>" by (rule le_of_int_ceiling)
  then have "x + y + z \<le> of_int (\<lceil>(x + y + z) / ?g\<rceil> * bl_granularity_s b)"
    using assms(3) by (simp only: of_int_mult) (simp only: pos_divide_le_eq)
  also have "\<dots> \<le> of_int (billed_seconds b x y z)"
    unfolding billed_seconds_def Let_def by (simp only: of_int_le_iff max.cobounded2)
  finally have "bl_rate_usd_hr b * (x + y + z) \<le> bl_rate_usd_hr b * of_int (billed_seconds b x y z)"
    using assms(1) by (rule mult_left_mono)
  then have "bl_rate_usd_hr b * (x + y + z) / 3600 \<le> bl_rate_usd_hr b * of_int (billed_seconds b x y z) / 3600"
    by (rule divide_right_mono) simp
  with assms(2) show ?thesis by (simp add: cost_usd_def SECONDS_PER_HOUR_def)
qed

lemma tracked_setup:
  "0 \<le> (case tk_ready_p50_s (tracked_landings rows kind gpu) of None \<Rightarrow> DEFAULT_SETUP_S | Some x \<Rightarrow> if x = 0 then DEFAULT_SETUP_S else x)"
  using quantile_nonneg by (fastforce simp: DEFAULT_SETUP_S_def tracked_landings_def track_of_def Let_def split: option.split)

lemma tracked_share: "0 \<le> (1 - delivered (tracked_landings rows kind gpu)) / delivered (tracked_landings rows kind gpu) *
    billed_share (tracked_landings rows kind gpu)"
proof -
  obtain rs p g where t: "tracked_landings rows kind gpu = track_of rs p g" by (simp add: tracked_landings_def Let_def)
  have "0 < delivered (track_of rs p g)" "delivered (track_of rs p g) < 1"
    using delivered_bounds track_counts [of rs p g] by auto
  then show ?thesis unfolding t by (intro mult_nonneg_nonneg divide_nonneg_pos billed_share_bounds) auto
qed

lemma cost_nonneg:
  assumes "0 \<le> bl_rate_usd_hr b" and "0 \<le> bl_fees_usd b" and "1 \<le> bl_granularity_s b" and "0 \<le> x"
  shows "0 \<le> cost_usd b x 0 120"
proof -
  have "0 \<le> bl_rate_usd_hr b * (x + 0 + 120) / 3600" using assms by (intro divide_nonneg_pos mult_nonneg_nonneg) auto
  with cost_covers_wall [OF assms(1-3), of x 0 120] show ?thesis by (rule order_trans [rotated])
qed

text \<open>
  C35. A score never flatters an offer. Whatever landings the lake kept, the dollars per useful GPU hour
  an offer is ranked by are at least its listed price per GPU and at least what one landed attempt
  bills per useful GPU hour; an offer of a provider never measured is priced at one failed attempt
  per delivery.
\<close>

theorem score_never_flatters:
  assumes "0 \<le> off_rate_usd_hr f" and "0 \<le> off_fees_usd f" and "1 \<le> off_granularity_s f" and "0 < run"
  shows "off_rate_usd_hr f / of_int (max (off_gpu_count f) 1) \<le> sc_useful_usd_hr (score_offer rows f kind run) \<and>
    sc_job_usd (score_offer rows f kind run) / (run / 3600 * of_int (max (off_gpu_count f) 1)) \<le>
      sc_useful_usd_hr (score_offer rows f kind run) \<and>
    (filter (\<lambda>row. ob_provider row = kind) rows = [] \<longrightarrow>
       sc_useful_usd_hr (score_offer rows f kind run) * (run / 3600 * of_int (max (off_gpu_count f) 1)) =
         cost_usd (offer_billing f) 300 run 120 + cost_usd (offer_billing f) 300 0 120)"
proof -
  let ?t = "tracked_landings rows kind (off_gpu f)"
  let ?b = "offer_billing f"
  let ?x = "score_offer rows f kind run"
  let ?su = "case tk_ready_p50_s ?t of None \<Rightarrow> DEFAULT_SETUP_S | Some x \<Rightarrow> if x = 0 then DEFAULT_SETUP_S else x"
  let ?h = "run / 3600 * of_int (max (off_gpu_count f) 1)"
  let ?lost = "(1 - delivered ?t) / delivered ?t * billed_share ?t * cost_usd ?b ?su 0 120"
  have useful: "sc_useful_usd_hr ?x = (cost_usd ?b ?su run 120 + ?lost) / ?h"
    and job: "sc_job_usd ?x = cost_usd ?b ?su run 120"
    by (simp_all add: score_offer_def Let_def RELEASE_SECONDS_def SECONDS_PER_HOUR_def)
  have terms: "0 \<le> bl_rate_usd_hr ?b" "0 \<le> bl_fees_usd ?b" "1 \<le> bl_granularity_s ?b"
    using assms by (simp_all add: offer_billing_def)
  have h: "0 < ?h" using assms(4) by (simp add: max_def)
  have "0 \<le> ?lost" by (intro mult_nonneg_nonneg tracked_share cost_nonneg [OF terms] tracked_setup)
  then have "cost_usd ?b ?su run 120 / ?h \<le> sc_useful_usd_hr ?x"
    using h unfolding useful by (intro divide_right_mono) auto
  moreover have "off_rate_usd_hr f * run / 3600 \<le> cost_usd ?b ?su run 120"
  proof -
    have "off_rate_usd_hr f * run \<le> off_rate_usd_hr f * (?su + run + 120)"
      using tracked_setup [of rows kind "off_gpu f"] assms(1) by (intro mult_left_mono) auto
    then have "off_rate_usd_hr f * run / 3600 \<le> off_rate_usd_hr f * (?su + run + 120) / 3600"
      by (rule divide_right_mono) simp
    also have "\<dots> \<le> cost_usd ?b ?su run 120"
      using cost_covers_wall [OF terms, of ?su run 120] by (simp add: offer_billing_def)
    finally show ?thesis .
  qed
  then have "off_rate_usd_hr f * run / 3600 / ?h \<le> cost_usd ?b ?su run 120 / ?h"
    using h by (intro divide_right_mono) auto
  moreover have "off_rate_usd_hr f * run / 3600 / ?h = off_rate_usd_hr f / of_int (max (off_gpu_count f) 1)"
    using assms(4) by simp
  moreover have "sc_useful_usd_hr ?x * ?h = cost_usd ?b 300 run 120 + cost_usd ?b 300 0 120"
    if "filter (\<lambda>row. ob_provider row = kind) rows = []"
  proof -
    have "?t = track_of [] kind []" using that by (simp add: tracked_landings_def)
    then have "(1 - delivered ?t) / delivered ?t * billed_share ?t = 1" "?su = 300"
      by (simp_all add: track_of_def delivered_def billed_share_def quantile_def DEFAULT_SETUP_S_def)
    with h assms(4) show ?thesis unfolding useful by (simp only: nonzero_eq_divide_eq mult_1) simp
  qed
  ultimately show ?thesis by (simp add: job)
qed

theorem score_never_flatters_witness:
  "2 / of_int (max 1 1) \<le> sc_useful_usd_hr (score_offer sample_costs sample_offer ''vast'' 3600) \<and>
   off_rate_usd_hr sample_offer = 2"
proof -
  have "off_rate_usd_hr sample_offer = 2" "off_fees_usd sample_offer = 1 / 2" "off_granularity_s sample_offer = 60"
    "off_gpu_count sample_offer = 1" by (simp_all add: sample_offer_def)
  then show ?thesis using score_never_flatters [of sample_offer 3600 sample_costs "''vast''"] by simp
qed

end
