(* ===== verification/Rental_Properties.thy ===== *)
theory Rental_Properties
  imports Rentals Cost_Properties Outcome_Properties
begin

text \<open>
  A machine a provider made is never out of sight: through every refusal, lost answer and fault of a
  landing, the run registry still holds its creation, under the label the create was sent with or
  under its handle and owed a settlement. The contract a backend's rent keeps is a locale; the landing
  is proved once inside it and interpreted for the clouds.
\<close>

section \<open>Unwinding follows a preorder\<close>

context step_preorder
begin

lemma along_ensuring [steps]:
  assumes "along R m" and "along R c"
  shows "along R (ensuring m c)"
proof (rule alongI)
  fix s
  have "R s (snd (m s))" "R (snd (m s)) (snd (c (snd (m s))))" using assms by (simp_all add: along_def)
  then show "R s (snd (ensuring m c s))"
    using R_trans by (fastforce simp: ensuring_def split: prod.splits sum.splits)
qed

lemma along_unwinding [steps]: "along R m \<Longrightarrow> along R h \<Longrightarrow> along R (unwinding m h)"
  unfolding unwinding_def by (intro along_trying along_andThen along_pure)

end


section \<open>One creation in the registry\<close>

text \<open>\<open>c\<close> is the one current record of the request that \<open>rec\<close> reserved.\<close>

definition creation_at :: "'s lake_scheme \<Rightarrow> run_record \<Rightarrow> run_record \<Rightarrow> bool" where
  "creation_at s rec c \<longleftrightarrow>
     keyed s \<and> at_identity s (identity c) = Some c \<and> run_creation c = run_creation rec \<and>
     run_target c = run_target rec \<and> run_kind c = run_kind rec \<and>
     (\<forall>k x. at_identity s k = Some x \<longrightarrow> run_creation x = run_creation rec \<longrightarrow> k = identity c)"

lemma creation_atD:
  assumes "creation_at s rec c"
  shows "keyed s" "at_identity s (identity c) = Some c" "run_creation c = run_creation rec"
    "run_target c = run_target rec" "run_kind c = run_kind rec"
  using assms by (simp_all add: creation_at_def)

lemma creation_atI:
  assumes "keyed s" and "at_identity s (identity c) = Some c" and "run_creation c = run_creation rec"
    and "run_target c = run_target rec" and "run_kind c = run_kind rec"
    and "\<And>k x. at_identity s k = Some x \<Longrightarrow> run_creation x = run_creation rec \<Longrightarrow> k = identity c"
  shows "creation_at s rec c"
  using assms unfolding creation_at_def by blast

lemma creation_at_unique:
  "creation_at s rec c \<Longrightarrow> at_identity s k = Some x \<Longrightarrow> run_creation x = run_creation rec \<Longrightarrow> k = identity c \<and> x = c"
  unfolding creation_at_def by (metis option.inject)

lemma runs_log_determines:
  assumes "runs_log t = runs_log s"
  shows "at_identity t = at_identity s" and "keyed t = keyed s" and "creation_at t = creation_at s"
proof -
  show at: "at_identity t = at_identity s" by (rule ext) (simp add: at_identity_def runs_def assms)
  show "keyed t = keyed s" by (simp add: keyed_def assms)
  then show "creation_at t = creation_at s" by (intro ext) (simp add: creation_at_def at)
qed

lemma creation_at_named:
  assumes "creation_at s rec c"
  shows "named (run_creation rec) (run_target rec) s = (Inr c, s)"
proof -
  let ?on = "on_target (Some (run_target rec)) s"
  have on: "set ?on = {x \<in> ran (at_identity s). run_target rec \<noteq> [] \<longrightarrow> run_target x = run_target rec}"
    using creation_atD(1) [OF assms] by (auto simp: set_on_target)
  have "c \<in> set ?on" using creation_atD [OF assms] ranI [of "at_identity s" "identity c" c] by (simp add: on)
  then have "find (\<lambda>run. run_creation run = run_creation rec) ?on \<noteq> None"
    using creation_atD(3) [OF assms] by (auto simp: find_None_iff)
  then obtain x where x: "find (\<lambda>run. run_creation run = run_creation rec) ?on = Some x" by blast
  then have "x \<in> ran (at_identity s)" "run_creation x = run_creation rec" using on by (auto simp: find_Some_iff)
  then have "x = c" using creation_at_unique [OF assms] by (auto simp: ran_def simp del: split_paired_Ex)
  with x show ?thesis by (simp add: named_def andThen_apply)
qed

lemma creation_at_logged:
  assumes "creation_at s rec c" and "identity x = identity c" and "run_creation x = run_creation rec"
    and "run_kind x = run_kind rec"
  shows "creation_at (logged w x False s) rec x"
proof (rule creation_atI)
  show "run_target x = run_target rec"
    using assms(2) creation_atD(4) [OF assms(1)] by (simp add: identity_def)
  fix k y
  assume "at_identity (logged w x False s) k = Some y" "run_creation y = run_creation rec"
  then show "k = identity x" using creation_at_unique [OF assms(1), of k y] assms(2) by (auto split: if_splits)
qed (use creation_atD [OF assms(1)] assms in simp_all)

lemma creation_at_other_logged:
  assumes "creation_at s rec c" and "identity x \<noteq> identity c" and "run_creation x \<noteq> run_creation rec"
  shows "creation_at (logged w x d s) rec c"
proof (rule creation_atI)
  fix k y
  assume "at_identity (logged w x d s) k = Some y" "run_creation y = run_creation rec"
  then show "k = identity c" using creation_at_unique [OF assms(1), of k y] assms(3) by (auto split: if_splits)
qed (use creation_atD [OF assms(1)] assms(2) in simp_all)

lemma creation_at_bind:
  assumes "creation_at s rec c" and "identity c = identity rec" and "run_verdict c = Some (word_text SUBMITTING)"
  obtains t where "bind w rec h s = (Inr (bound_to c h), t)" and "creation_at t rec (bound_to c h)"
proof -
  have "at_identity s (identity rec) = Some c" using assms by (simp add: creation_at_def)
  then obtain t where t: "bind w rec h s = (Inr (bound_to c h), t)"
    "at_identity t = (at_identity s)(identity c := None, identity (bound_to c h) := Some (bound_to c h))"
    "keyed t \<longleftrightarrow> keyed s"
    using assms(3) by (rule bind_apply)
  have "creation_at t rec (bound_to c h)"
  proof (rule creation_atI)
    fix k y
    assume "at_identity t k = Some y" "run_creation y = run_creation rec"
    then show "k = identity (bound_to c h)"
      using creation_at_unique [OF assms(1), of k y] t(2) by (auto split: if_splits)
  qed (use creation_atD [OF assms(1)] t in \<open>simp_all add: bound_to_def\<close>)
  with t(1) that show ?thesis by blast
qed


section \<open>What registry operations leave alone\<close>

definition same_deeds :: "'s renting_scheme \<Rightarrow> 's renting_scheme \<Rightarrow> bool" where
  "same_deeds s t \<longleftrightarrow> rn_deeds t = rn_deeds s"

interpretation deeds_kept: step_preorder same_deeds
  by unfold_locales (simp_all add: same_deeds_def)

lemma deeds_primitive [steps]:
  "along same_deeds (now_text w)" "along same_deeds (append_runs rows)"
  by (simp_all add: along_def same_deeds_def append_runs_def)

lemma deeds_registry [steps]:
  "along same_deeds (named x y)" "along same_deeds (transition w run v f e)" "along same_deeds (bind w run h)"
  "along same_deeds (change w run updates)" "along same_deeds (run_named h tg)" "along same_deeds (reserve w run)"
  unfolding named_def transition_def bind_def change_def run_named_def row_of_def reserve_def Let_def
  by (intro steps)+

lemma deeds_derived [steps]:
  "along same_deeds (prepared w run v l)" "along same_deeds (reopen w run)" "along same_deeds (resolve w run a b v)"
  "along same_deeds (delivery w run e)" "along same_deeds (begin_creation w run l')" "along same_deeds (created w run h)"
  "along same_deeds (interrupted w run)" "along same_deeds (refused_creation w run)"
  unfolding prepared_def reopen_def resolve_def delivery_def begin_creation_def created_def interrupted_def refused_creation_def
  by (intro steps)+

lemma deeds_cancel [steps]: "along same_deeds (backend_cancel w kind h)"
  by (auto simp: along_def same_deeds_def backend_cancel_def doing_def andThen_apply split: option.split)

lemma reaches_words:
  "lifecycle_law w \<Longrightarrow> reaches w (Some (word_text a)) (word_text b) \<longleftrightarrow> a = b \<or> moves_to a b"
  by (auto simp: reaches_def lifecycle_law_def moves_to_def transitions_def)

lemma begin_creation_step:
  assumes "lifecycle_law w" and "creation_at s rec c" and "identity c = identity rec" and "run_verdict c = Some (word_text PREPARED)"
  shows "\<exists>t x. begin_creation w rec l s = (Inr (), t) \<and> creation_at t rec x \<and> identity x = identity rec \<and>
    run_verdict x = Some (word_text SUBMITTING) \<and> run_reported x = None \<and> run_evidence x = run_evidence c"
proof -
  let ?x = "c\<lparr>run_state := Some (word_text SUBMITTING), run_verdict := Some (word_text SUBMITTING),
    run_reported := None, run_lease := l\<rparr>"
  have "reaches w (Some (word_text PREPARED)) (word_text SUBMITTING)"
    using assms(1) by (simp only: reaches_words moves_to_simps) simp
  moreover have "at_identity s (identity rec) = Some c" using creation_atD(2) [OF assms(2)] assms(3) by simp
  ultimately have "begin_creation w rec l s = (Inr (), logged w ?x False s)"
    using assms(4) by (simp add: begin_creation_def prepared_def transition_apply andThen_apply)
  moreover have "creation_at (logged w ?x False s) rec ?x"
    using creation_atD [OF assms(2)] by (intro creation_at_logged [OF assms(2)]) simp_all
  ultimately show ?thesis using assms(3) by (intro exI [of _ "logged w ?x False s"] exI [of _ ?x]) simp
qed

lemma refused_creation_step:
  assumes "creation_at s rec c" and "identity c = identity rec" and "run_verdict c = Some (word_text SUBMITTING)"
    and "run_reported c = None"
  shows "\<exists>t x. refused_creation w rec s = (Inr (), t) \<and> creation_at t rec x \<and> identity x = identity rec \<and>
    run_verdict x = Some (word_text PREPARED) \<and> run_reported x = None \<and> run_evidence x = run_evidence c"
proof -
  let ?x = "c\<lparr>run_state := Some (word_text PREPARED), run_verdict := Some (word_text PREPARED), run_lease := None\<rparr>"
  have "refused_creation w rec s = (Inr (), logged w ?x False s)"
    using assms(3) creation_at_named [OF assms(1)] creation_atD(2) [OF assms(1)]
    by (simp add: refused_creation_def reopen_def transition_apply andThen_apply)
  moreover have "creation_at (logged w ?x False s) rec ?x"
    using creation_atD [OF assms(1)] by (intro creation_at_logged [OF assms(1)]) simp_all
  ultimately show ?thesis using assms by (intro exI [of _ "logged w ?x False s"] exI [of _ ?x]) simp
qed

section \<open>What a rent leaves behind\<close>

definition reserved_at :: "'s lake_scheme \<Rightarrow> run_record \<Rightarrow> word \<Rightarrow> bool" where
  "reserved_at s rec v \<longleftrightarrow> (\<exists>c. creation_at s rec c \<and> identity c = identity rec \<and> run_verdict c = Some (word_text v) \<and>
     run_reported c = None \<and> run_evidence c = ''not_started'')"

definition bound_at :: "'s lake_scheme \<Rightarrow> run_record \<Rightarrow> string \<Rightarrow> bool" where
  "bound_at s rec h \<longleftrightarrow> (\<exists>c. creation_at s rec c \<and> run_handle c = h \<and> run_verdict c = Some (word_text QUEUED) \<and>
     run_reported c = None \<and> run_evidence c = ''not_started'')"

text \<open>
  Nothing was made and the request stands where it may be closed or reconciled; or one machine was
  made, under the request's label, and the registry holds it by that label or by its handle.
\<close>

definition rent_left ::
  "string \<Rightarrow> run_record \<Rightarrow> 's renting_scheme \<Rightarrow> fault + string \<Rightarrow> 's renting_scheme \<Rightarrow> bool" where
  "rent_left kind rec s r t \<longleftrightarrow>
     rn_deeds t = rn_deeds s \<and> isl r \<and> (reserved_at t rec PREPARED \<or> reserved_at t rec SUBMITTING) \<or>
     (\<exists>h. rn_deeds t = rn_deeds s @ [Made kind (run_creation rec) h] \<and>
        (isl r \<and> reserved_at t rec SUBMITTING \<or> bound_at t rec h \<and> (isl r \<or> r = Inr h)))"

lemma registry_only:
  assumes "runs_log t = runs_log s"
  shows "reserved_at t = reserved_at s" "bound_at t = bound_at s"
  by (intro ext; simp add: reserved_at_def bound_at_def runs_log_determines(3) [OF assms])+

lemma rent_left_from:
  "rent_left kind rec u r t \<Longrightarrow> rn_deeds u = rn_deeds s \<Longrightarrow> rent_left kind rec s r t"
  by (simp add: rent_left_def)

lemma begin_reserved:
  assumes "lifecycle_law w" and "reserved_at s rec PREPARED"
  obtains t where "begin_creation w rec l s = (Inr (), t)" and "reserved_at t rec SUBMITTING" and "rn_deeds t = rn_deeds s"
proof -
  from assms(2) obtain c where c: "creation_at s rec c" "identity c = identity rec" "run_verdict c = Some (word_text PREPARED)"
    "run_evidence c = ''not_started''" by (auto simp: reserved_at_def)
  from begin_creation_step [OF assms(1) c(1-3), of l] c(4) obtain t where
    t: "begin_creation w rec l s = (Inr (), t)" "reserved_at t rec SUBMITTING" unfolding reserved_at_def by metis
  moreover have "rn_deeds t = rn_deeds s" using alongD [OF deeds_derived(5) t(1)] by (simp add: same_deeds_def)
  ultimately show ?thesis by (rule that)
qed

lemma refused_reserved:
  assumes "reserved_at s rec SUBMITTING"
  obtains t where "refused_creation w rec s = (Inr (), t)" and "reserved_at t rec PREPARED" and "rn_deeds t = rn_deeds s"
proof -
  from assms obtain c where c: "creation_at s rec c" "identity c = identity rec" "run_verdict c = Some (word_text SUBMITTING)"
    "run_reported c = None" "run_evidence c = ''not_started''" by (auto simp: reserved_at_def)
  from refused_creation_step [OF c(1-4), of w] c(5) obtain t where
    t: "refused_creation w rec s = (Inr (), t)" "reserved_at t rec PREPARED" unfolding reserved_at_def by metis
  moreover have "rn_deeds t = rn_deeds s" using alongD [OF deeds_derived(8) t(1)] by (simp add: same_deeds_def)
  ultimately show ?thesis by (rule that)
qed

lemma created_reserved:
  assumes "reserved_at s rec SUBMITTING" and "created w rec h s = (r, t)"
  shows "rn_deeds t = rn_deeds s \<and> (isl r \<and> reserved_at t rec SUBMITTING \<or> bound_at t rec h \<and> r = Inr h)"
proof -
  from assms(1) obtain c where c: "creation_at s rec c" "identity c = identity rec" "run_verdict c = Some (word_text SUBMITTING)"
    "run_reported c = None" "run_evidence c = ''not_started''" by (auto simp: reserved_at_def)
  obtain u where "bind w rec h s = (Inr (bound_to c h), u)" "creation_at u rec (bound_to c h)"
    using creation_at_bind [OF c(1-3)] by blast
  with assms c(4,5) have "isl r \<and> reserved_at t rec SUBMITTING \<or> bound_at t rec h \<and> r = Inr h"
    by (auto simp: created_def andThen_apply bound_at_def bound_to_def intro!: exI [of _ "bound_to c h"] split: if_splits)
  moreover have "rn_deeds t = rn_deeds s" using alongD [OF deeds_derived(6) assms(2)] by (simp add: same_deeds_def)
  ultimately show ?thesis by simp
qed

lemma clock_now_apply: "clock_now w s = (Inr (x_clock w (lk_ticks s)), s\<lparr>lk_ticks := Suc (lk_ticks s)\<rparr>)"
  by (simp add: clock_now_def)

lemma deed_of_apply: "deed_of d s = (Inr (), s\<lparr>rn_deeds := rn_deeds s @ [d]\<rparr>)"
  by (simp add: deed_of_def)

text \<open>One offer at an affordable price: the request is submitting, then the create is sent.\<close>

lemma try_offers_begun:
  assumes "lifecycle_law w" and "reserved_at s rec PREPARED"
    and "lease_priced (offered_as b item) r c LANDING_SECONDS (x_clock w (lk_ticks s)) = Inr l"
  obtains v where "reserved_at v rec SUBMITTING" and "rn_deeds v = rn_deeds s"
    and "try_offers w b rec r c n (item # items) s = andThen (creating w (bk_name b) item (run_creation rec)) (\<lambda>answer.
      case answer of Inl _ \<Rightarrow> andThen (refused_creation w rec) (\<lambda>_. try_offers w b rec r c n items)
      | Inr h \<Rightarrow> created w rec h) v"
proof -
  let ?u = "s\<lparr>lk_ticks := Suc (lk_ticks s)\<rparr>"
  have "reserved_at ?u rec PREPARED" using assms(2) registry_only(1) [of ?u s] by simp
  then obtain v where v: "begin_creation w rec (Some l) ?u = (Inr (), v)" "reserved_at v rec SUBMITTING" "rn_deeds v = rn_deeds ?u"
    using begin_reserved [OF assms(1)] by blast
  show ?thesis
  proof (rule that [OF v(2)])
    show "rn_deeds v = rn_deeds s" using v(3) by simp
    show "try_offers w b rec r c n (item # items) s = andThen (creating w (bk_name b) item (run_creation rec)) (\<lambda>answer.
      case answer of Inl _ \<Rightarrow> andThen (refused_creation w rec) (\<lambda>_. try_offers w b rec r c n items)
      | Inr h \<Rightarrow> created w rec h) v"
      using v(1) assms(3) by (simp add: clock_now_apply andThen_apply)
  qed
qed

lemma made_reserved:
  assumes "reserved_at v rec SUBMITTING"
  shows "reserved_at (v\<lparr>rn_deeds := ds\<rparr>) rec SUBMITTING"
  using assms registry_only(1) [of "v\<lparr>rn_deeds := ds\<rparr>" v] by simp

lemma try_offers_left:
  assumes "lifecycle_law w" and "reserved_at s rec PREPARED" and "try_offers w b rec r c n items s = (answer, t)"
  shows "rent_left (bk_name b) rec s answer t"
  using assms(2,3)
proof (induction items arbitrary: s)
  case Nil
  then show ?case by (auto simp: rent_left_def)
next
  case (Cons item items)
  show ?case
  proof (cases "lease_priced (offered_as b item) r c LANDING_SECONDS (x_clock w (lk_ticks s))")
    case (Inl e)
    with Cons.prems registry_only(1) [of "s\<lparr>lk_ticks := Suc (lk_ticks s)\<rparr>" s] show ?thesis
      by (auto simp: rent_left_def clock_now_apply andThen_apply)
  next
    case (Inr l)
    obtain v where v: "reserved_at v rec SUBMITTING" "rn_deeds v = rn_deeds s"
      and run: "try_offers w b rec r c n (item # items) s = andThen (creating w (bk_name b) item (run_creation rec)) (\<lambda>answer.
        case answer of Inl _ \<Rightarrow> andThen (refused_creation w rec) (\<lambda>_. try_offers w b rec r c n items)
        | Inr h \<Rightarrow> created w rec h) v"
      using try_offers_begun [OF assms(1) Cons.prems(1) Inr] by blast
    note run = run [unfolded Cons.prems(2)]
    show ?thesis
    proof (cases "r_create w (occasion v) (bk_name b) item (run_creation rec)")
      case (Created h)
      with run have "created w rec h (v\<lparr>rn_deeds := rn_deeds v @ [Made (bk_name b) (run_creation rec) h]\<rparr>) = (answer, t)"
        by (simp add: creating_def andThen_apply deed_of_apply)
      from created_reserved [OF made_reserved [OF v(1)] this] v show ?thesis by (auto simp: rent_left_def)
    next
      case (NoCapacity why)
      obtain x where x: "refused_creation w rec v = (Inr (), x)" "reserved_at x rec PREPARED" "rn_deeds x = rn_deeds v"
        using refused_reserved [OF v(1)] by blast
      with run NoCapacity have "try_offers w b rec r c n items x = (answer, t)" by (simp add: creating_def andThen_apply)
      from rent_left_from [OF Cons.IH [OF x(2) this]] x(3) v(2) show ?thesis by simp
    qed (use run v made_reserved [OF v(1)] in \<open>auto simp: creating_def andThen_apply deed_of_apply rent_left_def\<close>)
  qed
qed

interpretation unmoved: step_preorder "(=)"
  by unfold_locales simp_all

lemma unmoved_asking [steps]: "along (=) (best_offers w b r)" "along (=) (landed_at w kind h private)"
  unfolding best_offers_def landed_at_def booted_def reachable_def Let_def by (intro steps)+

lemma backend_cancel_registry:
  assumes "backend_cancel w kind h s = (r, t)"
  shows "runs_log t = runs_log s" and "rn_deeds t = rn_deeds s"
  using assms by (auto simp: backend_cancel_def doing_def andThen_apply split: option.splits)

lemma unwinding_cases:
  assumes "unwinding m h s = (r, t)"
  obtains x where "m s = (Inr x, t)" and "r = Inr x"
    | e u where "m s = (Inl e, u)" and "t = snd (h u)" and "isl r"
  using assms by (auto simp: unwinding_def trying_apply andThen_apply split: prod.splits sum.splits)

text \<open>What a landing relies on: a rent that starts from a reserved request leaves it accounted for.\<close>

locale rentable =
  fixes w :: "'w renter_scheme"
    and rent :: "order \<Rightarrow> run_record \<Rightarrow> cap \<Rightarrow> ('s renting_scheme, rental) comp"
    and drives :: "order \<Rightarrow> bool"
  assumes rent_leaves: "drives d \<Longrightarrow> reserved_at s rec PREPARED \<Longrightarrow> rent d rec c s = (r, t) \<Longrightarrow>
      rent_left (or_kind d) rec s (map_sum id rl_handle r) t"

lemma cloud_created_leaves:
  assumes "lifecycle_law w" and "reserved_at s rec PREPARED" and "cloud_created w b rec r c s = (answer, u)"
  shows "rent_left (bk_name b) rec s answer u"
proof -
  obtain found v where found: "best_offers w b r s = (found, v)" by fastforce
  then have "v = s" using alongD [OF unmoved_asking(1)] by metis
  with found assms(2,3) show ?thesis
    by (cases found) (auto simp: cloud_created_def andThen_apply rent_left_def dest!: try_offers_left [OF assms(1,2)])
qed

text \<open>Opening a machine, or ending it: neither moves the registry or makes another machine.\<close>

lemma opened_or_ended:
  assumes "unwinding (andThen (landed_at w kind h key) (\<lambda>ep. ret \<lparr>rl_handle = h, rl_endpoint = ep\<rparr>))
      (backend_cancel w kind h) u = (r, t)"
  shows "runs_log t = runs_log u \<and> rn_deeds t = rn_deeds u \<and> (isl r \<or> (\<exists>ep. r = Inr \<lparr>rl_handle = h, rl_endpoint = ep\<rparr>))"
proof -
  obtain x v where landed: "landed_at w kind h key u = (x, v)" by fastforce
  then have "v = u" using alongD [OF unmoved_asking(2)] by metis
  with assms landed show ?thesis
  proof (cases rule: unwinding_cases [OF assms, case_names ok failed])
    case (failed e z)
    with landed \<open>v = u\<close> have "z = u" by (auto simp: andThen_apply split: sum.splits)
    with failed backend_cancel_registry [of w kind h u "fst (backend_cancel w kind h u)" t] show ?thesis by simp
  qed (auto simp: andThen_apply split: sum.splits)
qed

lemma cloud_rent_cases:
  assumes "cloud_rent w d rec c s = (r, t)" and "cloud_created w (r_backend w (or_kind d)) rec (or_resources d) c s = (answer, u)"
  obtains (closed) "t = s" and "isl r" | (raised) e where "answer = Inl e" and "t = u" and "isl r"
    | (made) h key where "answer = Inr h" and
        "unwinding (andThen (landed_at w (bk_name (r_backend w (or_kind d))) h key) (\<lambda>ep. ret \<lparr>rl_handle = h, rl_endpoint = ep\<rparr>))
          (backend_cancel w (bk_name (r_backend w (or_kind d))) h) u = (r, t)"
proof (cases "admit_rent (r_program w) (r_shown w) (r_backend w (or_kind d)) (or_image d) (or_resources d) c")
  case (Inl e)
  with assms(1) have "t = s" "isl r" by (auto simp: cloud_rent_def Let_def andThen_apply)
  then show thesis by (rule closed)
next
  case admitted: (Inr _)
  show thesis
  proof (cases "r_identity w (or_key d)")
    case (Inl e)
    with admitted assms(1) have "t = s" "isl r" by (auto simp: cloud_rent_def Let_def andThen_apply)
    then show thesis by (rule closed)
  next
    case (Inr key)
    with admitted assms raised made show thesis
      by (cases answer; cases key) (auto simp: cloud_rent_def Let_def andThen_apply)
  qed
qed

lemma cloud_rent_leaves:
  assumes "lifecycle_law w" and "bk_name (r_backend w (or_kind d)) = or_kind d"
    and "reserved_at s rec PREPARED" and "cloud_rent w d rec c s = (r, t)"
  shows "rent_left (or_kind d) rec s (map_sum id rl_handle r) t"
proof -
  obtain answer u where made: "cloud_created w (r_backend w (or_kind d)) rec (or_resources d) c s = (answer, u)" by fastforce
  then have left: "rent_left (or_kind d) rec s answer u"
    using cloud_created_leaves [OF assms(1,3)] assms(2) by metis
  from assms(4) made show ?thesis
  proof (cases rule: cloud_rent_cases)
    case closed
    with assms(3) show ?thesis by (cases r) (simp_all add: rent_left_def)
  next
    case (raised e)
    with left show ?thesis by (cases r) (simp_all add: rent_left_def)
  next
    case (made h key)
    note ended = opened_or_ended [OF made(2)]
    then have "reserved_at t = reserved_at u" "bound_at t = bound_at u" using registry_only by blast+
    with ended left made(1) show ?thesis by (cases r) (auto simp: rent_left_def)
  qed
qed

section \<open>The landing\<close>

text \<open>A record of the request bound to a handle and not yet reported: the sweep still owes it a settlement.\<close>

definition owed :: "run_record \<Rightarrow> string \<Rightarrow> 's lake_scheme \<Rightarrow> bool" where
  "owed rec h s \<longleftrightarrow> keyed s \<and> (\<exists>c. at_identity s (identity c) = Some c \<and> run_creation c = run_creation rec \<and> run_target c = run_target rec \<and>
     run_kind c = run_kind rec \<and> run_handle c = h \<and> run_reported c = None \<and> run_verdict c \<noteq> None)"

lemma owedI:
  assumes "keyed s" "at_identity s (identity c) = Some c" "run_creation c = run_creation rec" "run_target c = run_target rec"
    "run_kind c = run_kind rec" "run_handle c = h" "run_reported c = None" "run_verdict c \<noteq> None"
  shows "owed rec h s"
  using assms unfolding owed_def by blast

lemma owed_log: "runs_log t = runs_log s \<Longrightarrow> owed rec h t = owed rec h s"
  by (simp add: owed_def runs_log_determines(1,2) [of t s])

definition keeps_owed :: "run_record \<Rightarrow> string \<Rightarrow> 's lake_scheme \<Rightarrow> 's lake_scheme \<Rightarrow> bool" where
  "keeps_owed rec h s t \<longleftrightarrow> (owed rec h s \<longrightarrow> owed rec h t)"

interpretation owing: step_preorder "keeps_owed rec h" for rec h
  by unfold_locales (simp_all add: keeps_owed_def)

text \<open>The updates of a run that say nothing of what was reported.\<close>

fun unreporting :: "field \<Rightarrow> bool" where
  "unreporting (Reported v) = False"
| "unreporting _ = True"

lemma unreporting_fields:
  assumes "list_all unreporting fs"
  shows "run_reported (fold set_field fs c) = run_reported c" "run_creation (fold set_field fs c) = run_creation c"
    "run_kind (fold set_field fs c) = run_kind c" "run_handle (fold set_field fs c) = run_handle c"
    "run_target (fold set_field fs c) = run_target c" "run_verdict c \<noteq> None \<Longrightarrow> run_verdict (fold set_field fs c) \<noteq> None"
  using assms
proof (induction fs arbitrary: c)
  case (Cons f fs)
  { case 1 then show ?case using Cons.IH by (cases f) simp_all }
  { case 2 then show ?case using Cons.IH by (cases f) simp_all }
  { case 3 then show ?case using Cons.IH by (cases f) simp_all }
  { case 4 then show ?case using Cons.IH by (cases f) simp_all }
  { case 5 then show ?case using Cons.IH by (cases f) simp_all }
  { case 6 then show ?case using Cons.IH(6) [of "set_field f c"] by (cases f) simp_all }
qed simp_all

lemma owed_logged:
  assumes "at_identity s k = Some x" and "identity y = identity x" and "run_creation y = run_creation x" "run_kind y = run_kind x"
    "run_reported y = run_reported x" and "run_verdict x \<noteq> None \<Longrightarrow> run_verdict y \<noteq> None"
  shows "keeps_owed rec h s (logged w y False s)"
  unfolding keeps_owed_def
proof
  assume "owed rec h s"
  then obtain c where keyed: "keyed s" and c: "at_identity s (identity c) = Some c" "run_creation c = run_creation rec"
    "run_target c = run_target rec" "run_kind c = run_kind rec" "run_handle c = h" "run_reported c = None" "run_verdict c \<noteq> None"
    by (auto simp: owed_def)
  have same: "run_target y = run_target x" "run_handle y = run_handle x" using assms(2) by (simp_all add: identity_def)
  show "owed rec h (logged w y False s)"
  proof (cases "identity x = identity c")
    case True
    then have "x = c" using at_identity_key [OF keyed assms(1)] assms(1) c(1) by (metis option.inject)
    with keyed c assms(3-6) same show ?thesis by (intro owedI [of _ y]) simp_all
  next
    case False
    with keyed c assms(2) show ?thesis by (intro owedI [of _ c]) simp_all
  qed
qed

lemma owing_change:
  assumes "list_all unreporting updates"
  shows "along (keeps_owed rec h) (change w run updates)"
proof (rule alongI)
  fix s :: "'s lake_scheme"
  have "keeps_owed rec h s (logged w (fold set_field updates x) False s)" if "at_identity s (identity run) = Some x" for x
    using unreporting_fields [OF assms, of x] by (intro owed_logged [OF that]) simp_all
  then show "keeps_owed rec h s (snd (change w run updates s))"
    by (auto simp: change_apply owing.R_refl split: option.split)
qed

lemma owing_readers [steps]:
  "along (keeps_owed rec h) (run_named x tg)" "along (keeps_owed rec h) (backend_cancel w kind x)"
proof -
  show "along (keeps_owed rec h) (run_named x tg)" unfolding run_named_def Let_def by (intro steps)
  show "along (keeps_owed rec h) (backend_cancel w kind x)"
  proof (rule alongI)
    fix s
    have "runs_log (snd (backend_cancel w kind x s)) = runs_log s"
      by (simp add: backend_cancel_def doing_def andThen_apply split: option.split)
    from owed_log [OF this] show "keeps_owed rec h s (snd (backend_cancel w kind x s))" unfolding keeps_owed_def by blast
  qed
qed

lemma owing_writers [steps]:
  "along (keeps_owed rec h) (resolve w run a b v)" "along (keeps_owed rec h) (delivery w run e)"
  unfolding resolve_def delivery_def by (simp_all add: owing_change)

lemma owing_landing [steps]:
  "along (keeps_owed rec h) (equip w d hired)" "along (keeps_owed rec h) (abort_landing w d x)"
  unfolding equip_def abort_landing_def mark_failed_def by (intro steps)+

text \<open>
  The registry accounts for a machine: its creation is still submitting under the label the create was
  sent with, or is bound to its handle and on the list of runs owed an outcome.
\<close>

definition accounted :: "'s lake_scheme \<Rightarrow> order \<Rightarrow> string \<Rightarrow> string \<Rightarrow> bool" where
  "accounted s d name h \<longleftrightarrow> (\<exists>c. at_identity s (identity c) = Some c \<and> run_creation c = name \<and> run_target c = or_host d \<and>
     run_kind c = or_kind d \<and> (run_handle c = name \<and> run_verdict c = Some (word_text SUBMITTING) \<or> run_handle c = h \<and> tracked c))"

lemma owed_accounted:
  "owed rec h s \<Longrightarrow> run_target rec = or_host d \<Longrightarrow> run_kind rec = or_kind d \<Longrightarrow> accounted s d (run_creation rec) h"
  unfolding owed_def accounted_def tracked_def by metis

lemma reserved_accounted:
  assumes "reserved_at s rec SUBMITTING" and "run_target rec = or_host d" and "run_kind rec = or_kind d"
    and "run_handle rec = run_creation rec"
  shows "accounted s d (run_creation rec) h"
proof -
  from assms(1) obtain c where c: "creation_at s rec c" "identity c = identity rec" "run_verdict c = Some (word_text SUBMITTING)"
    by (auto simp: reserved_at_def)
  moreover have "run_handle c = run_creation rec" using c(2) assms(4) by (simp add: identity_def)
  ultimately show ?thesis
    unfolding accounted_def using creation_atD [OF c(1)] assms(2,3) by (intro exI [of _ c]) simp
qed

lemma bound_owed: "bound_at s rec h \<Longrightarrow> owed rec h s"
  unfolding bound_at_def by (auto dest: creation_atD intro!: owedI)

lemma interrupted_submitting: "reserved_at s rec SUBMITTING \<Longrightarrow> interrupted w rec s = (Inr (), s)"
  by (auto simp: reserved_at_def interrupted_def andThen_apply creation_at_named)

lemma interrupted_bound:
  assumes "bound_at s rec h" and "interrupted w rec s = (r, t)"
  shows "owed rec h t"
proof -
  from assms(1) obtain c where c: "creation_at s rec c" "run_verdict c = Some (word_text QUEUED)" "run_evidence c = ''not_started''"
    by (auto simp: bound_at_def)
  have "\<not> settled_text ''queued''" using settled_text_word [of QUEUED] by simp
  with c have "interrupted w rec s = andThen (resolve w c (Some (word_text FAILED)) None (word_text FAILED)) (\<lambda>_. ret ()) s"
    by (simp add: interrupted_def andThen_apply creation_at_named)
  moreover have "along (keeps_owed rec h) (andThen (resolve w c (Some (word_text FAILED)) None (word_text FAILED)) (\<lambda>_. ret ()))"
    by (intro steps)
  ultimately have "keeps_owed rec h s t" using assms(2) alongD by metis
  with bound_owed [OF assms(1)] show ?thesis by (simp add: keeps_owed_def)
qed

lemma interrupted_left:
  assumes "rent_left (or_kind d) rec s (Inl e) u" and "interrupted w rec u = (r, t)"
    and "run_target rec = or_host d" and "run_kind rec = or_kind d" and "run_handle rec = run_creation rec"
  shows "rn_deeds t = rn_deeds s \<or> (\<exists>h. rn_deeds t = rn_deeds s @ [Made (or_kind d) (run_creation rec) h] \<and>
    accounted t d (run_creation rec) h)"
proof -
  have deeds: "rn_deeds t = rn_deeds u" using alongD [OF deeds_derived(7) assms(2)] by (simp add: same_deeds_def)
  from assms(1) consider "rn_deeds u = rn_deeds s"
    | h where "rn_deeds u = rn_deeds s @ [Made (or_kind d) (run_creation rec) h]" "reserved_at u rec SUBMITTING"
    | h where "rn_deeds u = rn_deeds s @ [Made (or_kind d) (run_creation rec) h]" "bound_at u rec h"
    by (auto simp: rent_left_def)
  then show ?thesis
  proof cases
    case (2 h)
    with interrupted_submitting [OF 2(2), of w] assms(2) reserved_accounted [OF 2(2) assms(3-5)] deeds show ?thesis by auto
  next
    case (3 h)
    with owed_accounted [OF interrupted_bound [OF 3(2) assms(2)] assms(3,4)] deeds show ?thesis by auto
  qed (simp add: deeds)
qed

lemma reserve_cases:
  "keyed s \<Longrightarrow> reserve w run s = (Inr (), logged w run False s) \<or> (\<exists>m. reserve w run s = (Inl (ValueError m), s))"
  by (simp add: reserve_apply)

text \<open>The label the next request is minted is new to the registry (a fresh uuid).\<close>

definition fresh_label :: "'w renter_scheme \<Rightarrow> 's renting_scheme \<Rightarrow> bool" where
  "fresh_label w s \<longleftrightarrow>
     (\<forall>k x. at_identity s k = Some x \<longrightarrow> run_creation x \<noteq> ''mainboard-'' @ r_mint w (occasion s))"

lemma fresh_labelD:
  "fresh_label w s \<Longrightarrow> at_identity s k = Some x \<Longrightarrow> run_creation x \<noteq> ''mainboard-'' @ r_mint w (occasion s)"
  unfolding fresh_label_def by blast

lemma allocating_cases:
  assumes "keyed s" and "fresh_label w s"
    and "allocating w d ''not_started'' s = (r, t)"
  shows "rn_deeds t = rn_deeds s \<and> (isl r \<or> (\<exists>rec. r = Inr rec \<and> reserved_at t rec PREPARED \<and>
    run_target rec = or_host d \<and> run_kind rec = or_kind d \<and> run_handle rec = run_creation rec))"
proof (cases "r_admits w (occasion s)")
  case (Some e)
  with assms(3) show ?thesis by (auto simp: allocating_def andThen_apply)
next
  case None
  let ?u = "s\<lparr>lk_ticks := Suc (lk_ticks s)\<rparr>"
  let ?rec = "order_record d (''mainboard-'' @ r_mint w (occasion s)) (now_at w (lk_ticks s)) ''not_started'' (x_project w)"
  have u: "keyed ?u" using assms(1) by (simp add: keyed_def)
  have made: "creation_at (logged w ?rec False ?u) ?rec ?rec"
  proof (rule creation_atI)
    fix k y
    assume "at_identity (logged w ?rec False ?u) k = Some y" "run_creation y = run_creation ?rec"
    then show "k = identity ?rec" using fresh_labelD [OF assms(2), of k y] by (auto simp: order_record_def split: if_splits)
  qed (use u in simp_all)
  have "r = Inr ?rec \<and> t = logged w ?rec False ?u \<or> isl r \<and> t = ?u"
    using None assms(3) reserve_cases [OF u, of w ?rec] by (auto simp: allocating_def andThen_apply trying_apply Let_def)
  moreover have "reserved_at (logged w ?rec False ?u) ?rec PREPARED" "run_target ?rec = or_host d" "run_kind ?rec = or_kind d"
    "run_handle ?rec = run_creation ?rec"
    unfolding reserved_at_def using made by (auto simp: order_record_def intro!: exI [of _ ?rec])
  ultimately show ?thesis by (auto simp: logged_def)
qed

lemma deeds_landing [steps]: "along same_deeds (equip w d hired)" "along same_deeds (abort_landing w d h)"
  unfolding equip_def abort_landing_def mark_failed_def by (intro steps)+

context rentable
begin

lemma equipped_left:
  assumes "bound_at s rec (rl_handle hired)" and "unwinding (equip w d hired) (abort_landing w d (rl_handle hired)) s = (r, t)"
  shows "rn_deeds t = rn_deeds s \<and> owed rec (rl_handle hired) t"
proof -
  have "along same_deeds (unwinding (equip w d hired) (abort_landing w d (rl_handle hired)))"
    "along (keeps_owed rec (rl_handle hired)) (unwinding (equip w d hired) (abort_landing w d (rl_handle hired)))"
    by (intro steps)+
  from alongD [OF this(1) assms(2)] alongD [OF this(2) assms(2)] bound_owed [OF assms(1)]
  show ?thesis by (simp add: same_deeds_def keeps_owed_def)
qed

text \<open>The reserved request, rented for or released by \<open>interrupted\<close>.\<close>

lemma rented_left:
  assumes "drives d" and "keyed s"
    and fresh: "fresh_label w s"
    and "andThen (allocating w d ''not_started'') (\<lambda>rec. unwinding (rent d rec c) (interrupted w rec)) s = (r, t)"
  shows "isl r \<and> rn_deeds t = rn_deeds s \<or> (\<exists>name h. rn_deeds t = rn_deeds s @ [Made (or_kind d) name h] \<and>
    accounted t d name h \<and> (\<forall>got. r = Inr got \<longrightarrow> rl_handle got = h \<and>
      (\<exists>rec. bound_at t rec h \<and> run_creation rec = name \<and> run_target rec = or_host d \<and> run_kind rec = or_kind d)))"
proof -
  obtain a u where alloc: "allocating w d ''not_started'' s = (a, u)" by fastforce
  note alloced = allocating_cases [OF assms(2) fresh alloc]
  show ?thesis
  proof (cases a)
    case (Inl e)
    with alloc alloced assms(4) show ?thesis by (auto simp: andThen_apply)
  next
    case (Inr rec)
    with alloced have rec: "reserved_at u rec PREPARED" "run_target rec = or_host d" "run_kind rec = or_kind d"
      "run_handle rec = run_creation rec" "rn_deeds u = rn_deeds s" by simp_all
    from alloc Inr assms(4) have run: "unwinding (rent d rec c) (interrupted w rec) u = (r, t)" by (simp add: andThen_apply)
    then show ?thesis
    proof (cases rule: unwinding_cases [case_names ok failed])
      case (ok got)
      note left = rent_left_from [OF rent_leaves [OF assms(1) rec(1) ok(1)] rec(5)]
      then have bound: "bound_at t rec (rl_handle got)"
        and deeds: "rn_deeds t = rn_deeds s @ [Made (or_kind d) (run_creation rec) (rl_handle got)]"
        by (auto simp: rent_left_def)
      with ok owed_accounted [OF bound_owed rec(2,3)] rec(2,3) show ?thesis by auto
    next
      case (failed e v)
      note left = rent_left_from [OF rent_leaves [OF assms(1) rec(1) failed(1)] rec(5)]
      obtain x y where undone: "interrupted w rec v = (x, y)" by fastforce
      with interrupted_left [OF _ undone rec(2-4), of s e] left failed show ?thesis by auto
    qed
  qed
qed

lemma land_accounts:
  assumes "drives d" and "keyed s"
    and fresh: "fresh_label w s"
    and "land w rent d c s = (r, t)"
  shows "isl r \<and> rn_deeds t = rn_deeds s \<or> (\<exists>name h. rn_deeds t = rn_deeds s @ [Made (or_kind d) name h] \<and>
    accounted t d name h \<and> (\<forall>got. r = Inr got \<longrightarrow> hd_id got = h))"
proof -
  let ?hire = "andThen (allocating w d ''not_started'') (\<lambda>rec. unwinding (rent d rec c) (interrupted w rec))"
  obtain b v where hired: "?hire s = (b, v)" by fastforce
  note left = rented_left [OF assms(1,2) fresh hired]
  have run: "land w rent d c s = (case b of Inl e \<Rightarrow> (Inl e, v) | Inr hired \<Rightarrow>
      andThen (unwinding (equip w d hired) (abort_landing w d (rl_handle hired))) (\<lambda>_.
        ret \<lparr>hd_id = rl_handle hired, hd_host = or_host d, hd_root = [], hd_kind = or_kind d,
          hd_fetch_path = text_or_none (or_fetch d)\<rparr>) v)"
    using hired by (simp add: land_def andThen_apply [of ?hire] flip: andThen_assoc)
  show ?thesis
  proof (cases b)
    case (Inl e)
    with run left assms(4) show ?thesis by auto
  next
    case (Inr got)
    with left obtain rec where bound: "bound_at v rec (rl_handle got)" and rec: "run_target rec = or_host d" "run_kind rec = or_kind d"
      and deeds: "rn_deeds v = rn_deeds s @ [Made (or_kind d) (run_creation rec) (rl_handle got)]" by auto
    obtain x y where set_up: "unwinding (equip w d got) (abort_landing w d (rl_handle got)) v = (x, y)" by fastforce
    with run Inr assms(4) have "t = y" "\<forall>z. r = Inr z \<longrightarrow> hd_id z = rl_handle got"
      by (auto simp: andThen_apply split: sum.splits)
    with equipped_left [OF bound set_up] owed_accounted [OF _ rec] deeds show ?thesis by auto
  qed
qed

end

interpretation cloud: rentable w "cloud_rent w" "\<lambda>d. lifecycle_law w \<and> bk_name (r_backend w (or_kind d)) = or_kind d" for w
  by unfold_locales (auto intro: cloud_rent_leaves)

text \<open>
  C12. No machine is lost. A landing makes at most one machine, however the create, the boot, the knocks,
  the equipping, the launch and their clean-up go and wherever they raise; and when one was made, the
  registry accounts for it: the creation is still submitting under the label sent with it, for a
  reconciliation by that label, or it is bound to the machine's handle and owed a settlement, so that
  the sweep ends it. A landing that answers names that machine.
\<close>

theorem landing_loses_no_machine:
  assumes "lifecycle_law w" and "bk_name (r_backend w (or_kind d)) = or_kind d" and "keyed s"
    and "fresh_label w s"
    and "land w (cloud_rent w) d c s = (r, t)"
  shows "isl r \<and> rn_deeds t = rn_deeds s \<or> (\<exists>name h. rn_deeds t = rn_deeds s @ [Made (or_kind d) name h] \<and>
    accounted t d name h \<and> (\<forall>got. r = Inr got \<longrightarrow> hd_id got = h))"
  by (rule cloud.land_accounts) (use assms in auto)

definition sample_order :: order where
  "sample_order = \<lparr>or_host = ''cloudy'', or_kind = ''lambda'', or_image = None, or_key = [], or_env = ''default'',
     or_spelling = ''train'', or_fetch = [], or_source_key = ''k'', or_commit = ''c'', or_digest = ''d'', or_name = ''n'',
     or_node = [], or_resources = sample_asked_for\<rparr>"

definition sample_renter :: renter where
  "sample_renter = asking.extend sample_asking
     \<lparr>r_backend = (\<lambda>kind. \<lparr>bk_name = kind, bk_bound = PREPAID, bk_minimum_s = 0, bk_cuda_floor = 13, bk_inventory = True\<rparr>),
      r_shown = (\<lambda>_. ''13.0''), r_program = ''mb'', r_mint = nat_text, r_admits = (\<lambda>_. None),
      r_identity = (\<lambda>_. Inr (''pub'', ''key'')),
      r_hunt = (\<lambda>_ _ _ _. Inr [\<lparr>ci_name = ''a'', ci_offer = sample_offer\<rparr>]), r_spoken = (\<lambda>_. ''gpu''),
      r_create = (\<lambda>_ _ _ _. Created ''m-7''), r_boot = (\<lambda>_ _ _. []), r_knock = (\<lambda>_ _ _. None),
      r_wait = (\<lambda>_ _. None), r_equip = (\<lambda>_ _. None), r_start = (\<lambda>_ _. None)\<rparr>"

definition sample_renting :: renting where
  "sample_renting = watching.extend sample_ledger \<lparr>rn_deeds = []\<rparr>"

lemma sample_renter_law: "lifecycle_law sample_renter"
  using sample_asking_law by (simp add: lifecycle_law_def sample_renter_def asking.defs)

lemma opened_deeds:
  "rn_deeds (snd (unwinding (andThen (landed_at w kind h key) (\<lambda>ep. ret \<lparr>rl_handle = h, rl_endpoint = ep\<rparr>))
     (backend_cancel w kind h) u)) = rn_deeds u"
  using opened_or_ended [OF prod.collapse [symmetric], of w kind h key u] by blast

text \<open>A cloud with one offer, on which every create makes a machine that publishes no address.\<close>

definition always_makes :: "'w renter_scheme \<Rightarrow> bool" where
  "always_makes w \<longleftrightarrow> lifecycle_law w \<and> (\<forall>n kind item name. r_create w n kind item name = Created ''m-7'') \<and>
     (\<forall>key. r_identity w key = Inr (''pub'', ''key'')) \<and>
     (\<forall>n kind r usd. r_hunt w n kind r usd = Inr [\<lparr>ci_name = ''a'', ci_offer = sample_offer\<rparr>]) \<and>
     (\<forall>kind. r_backend w kind = \<lparr>bk_name = kind, bk_bound = PREPAID, bk_minimum_s = 0, bk_cuda_floor = 13, bk_inventory = True\<rparr>)"

lemma sample_renter_makes: "always_makes sample_renter"
  using sample_renter_law by (simp add: always_makes_def) (simp add: sample_renter_def asking.defs)

lemma always_makesD:
  assumes "always_makes w"
  shows "lifecycle_law w" "r_create w n kind item name = Created ''m-7''" "r_identity w key = Inr (''pub'', ''key'')"
    "r_hunt w n kind r usd = Inr [\<lparr>ci_name = ''a'', ci_offer = sample_offer\<rparr>]"
    "r_backend w kind = \<lparr>bk_name = kind, bk_bound = PREPAID, bk_minimum_s = 0, bk_cuda_floor = 13, bk_inventory = True\<rparr>"
  using assms by (simp_all add: always_makes_def)

lemma sample_order_simps: "or_kind sample_order = ''lambda''" "or_image sample_order = None" "or_resources sample_order = sample_asked_for"
  by (simp_all add: sample_order_def)

text \<open>What the sample cloud is asked: one hour for ten dollars.\<close>

definition asks_alike :: "resources \<Rightarrow> bool" where
  "asks_alike r \<longleftrightarrow> walltime_s r = Inr 3600 \<and> res_max_usd r = 10"

lemma sample_prepaid: "cap_bound sample_cap = PREPAID"
  by (simp add: sample_cap_def)

lemma sample_asks_alike: "asks_alike sample_asked_for"
  by code_simp

lemma sample_best_offers:
  assumes "always_makes w" and "asks_alike r"
  shows "best_offers w (r_backend w ''lambda'') r s = (Inr [\<lparr>ci_name = ''a'', ci_offer = sample_offer\<rparr>], s)"
proof -
  have "hourly_cap r LANDING_SECONDS = Inr 5" "walltime_s r = Inr 3600"
    using assms(2) by (simp_all add: asks_alike_def hourly_cap_def LANDING_SECONDS_def SECONDS_PER_HOUR_def)
  then show ?thesis
    by (simp add: best_offers_def andThen_apply Let_def always_makesD(4) [OF assms(1)] OFFERS_TRIED_def)
qed

lemma sample_affordable:
  assumes "always_makes w" and "asks_alike r"
  shows "\<exists>l. lease_priced (offered_as (r_backend w ''lambda'') \<lparr>ci_name = ''a'', ci_offer = sample_offer\<rparr>)
     r c LANDING_SECONDS now = Inr l"
proof -
  have "billable_seconds (offer_billing (offered_as (r_backend w ''lambda'') \<lparr>ci_name = ''a'', ci_offer = sample_offer\<rparr>)) 10 = 17100"
    unfolding always_makesD(5) [OF assms(1)] by code_simp
  with assms(2) show ?thesis
    by (simp add: asks_alike_def lease_priced_def Let_def RELEASE_SECONDS_def LANDING_SECONDS_def offer_billing_def
        offered_as_def backend_billed_def sample_offer_def always_makesD(5) [OF assms(1)])
qed

text \<open>The sample cloud makes a machine for every such request and never publishes its address.\<close>

lemma sample_rent_makes:
  assumes "always_makes w" and "reserved_at s rec PREPARED" and "or_kind d = ''lambda''" "or_image d = None" "asks_alike (or_resources d)"
    and "cap_bound c = PREPAID"
  shows "rn_deeds (snd (cloud_rent w d rec c s)) \<noteq> rn_deeds s"
proof -
  let ?b = "r_backend w ''lambda''" and ?item = "\<lparr>ci_name = ''a'', ci_offer = sample_offer\<rparr>" and ?r = "or_resources d"
  obtain l where l: "lease_priced (offered_as ?b ?item) ?r c LANDING_SECONDS (x_clock w (lk_ticks s)) = Inr l"
    using sample_affordable [OF assms(1,5)] by blast
  obtain v where v: "reserved_at v rec SUBMITTING" "rn_deeds v = rn_deeds s"
    and run: "try_offers w ?b rec ?r c 1 [?item] s =
      andThen (creating w (bk_name ?b) ?item (run_creation rec)) (\<lambda>answer.
      case answer of Inl _ \<Rightarrow> andThen (refused_creation w rec) (\<lambda>_. try_offers w ?b rec ?r c 1 [])
      | Inr h \<Rightarrow> created w rec h) v"
    using try_offers_begun [OF always_makesD(1) [OF assms(1)] assms(2) l] by blast
  let ?made = "v\<lparr>rn_deeds := rn_deeds v @ [Made (bk_name ?b) (run_creation rec) ''m-7'']\<rparr>"
  have "try_offers w ?b rec ?r c 1 [?item] s = created w rec ''m-7'' ?made"
    unfolding run by (simp add: creating_def andThen_apply deed_of_apply always_makesD(2) [OF assms(1)])
  then obtain answer u where made: "cloud_created w ?b rec ?r c s = (answer, u)" "rn_deeds u \<noteq> rn_deeds s"
    using created_reserved [OF made_reserved [OF v(1)], of w "''m-7''"] v(2)
    by (cases "created w rec ''m-7'' ?made") (auto simp: cloud_created_def andThen_apply sample_best_offers [OF assms(1,5)])
  have "admit_rent (r_program w) (r_shown w) ?b None ?r c = Inr ()"
    using assms(5,6) always_makesD(5) [OF assms(1)] by (simp add: admit_rent_def cap_remaining_def admit_image_def asks_alike_def)
  then have "cloud_rent w d rec c s =
      (case answer of Inl e \<Rightarrow> (Inl e, u)
       | Inr h \<Rightarrow> unwinding (andThen (landed_at w (bk_name ?b) h ''key'') (\<lambda>ep. ret \<lparr>rl_handle = h, rl_endpoint = ep\<rparr>))
           (backend_cancel w (bk_name ?b) h) u)"
    using made(1) assms(3,4) by (simp add: cloud_rent_def Let_def andThen_apply always_makesD(3) [OF assms(1)] split: sum.split)
  with made(2) show ?thesis by (auto simp: opened_deeds split: sum.split)
qed

lemma land_deeds:
  assumes "allocating w d ''not_started'' s = (Inr rec, u)"
  shows "rn_deeds (snd (land w rent d c s)) = rn_deeds (snd (rent d rec c u))"
proof -
  obtain r v where rent: "rent d rec c u = (r, v)" by fastforce
  have "along same_deeds (interrupted w rec)" "\<And>got. along same_deeds (unwinding (equip w d got) (abort_landing w d (rl_handle got)))"
    by (intro steps)+
  then have "rn_deeds (snd (interrupted w rec v)) = rn_deeds v"
    "\<And>got. rn_deeds (snd (unwinding (equip w d got) (abort_landing w d (rl_handle got)) v)) = rn_deeds v"
    by (auto simp: along_def same_deeds_def)
  note same = this
  show ?thesis
  proof (cases r)
    case (Inl e)
    with assms rent same(1) show ?thesis
      by (auto simp: land_def unwinding_def trying_apply andThen_apply split: sum.split prod.split)
  next
    case (Inr got)
    obtain x y where "unwinding (equip w d got) (abort_landing w d (rl_handle got)) v = (x, y)" by fastforce
    with assms rent same(2) [of got] Inr show ?thesis
      by (cases x) (simp_all add: land_def unwinding_def [of "rent d rec c"] trying_apply andThen_apply)
  qed
qed

theorem landing_loses_no_machine_witness:
  "\<exists>name h. rn_deeds (snd (land sample_renter (cloud_rent sample_renter) sample_order sample_cap sample_renting)) =
     [Made ''lambda'' name h] \<and>
   accounted (snd (land sample_renter (cloud_rent sample_renter) sample_order sample_cap sample_renting)) sample_order name h"
proof -
  let ?land = "land sample_renter (cloud_rent sample_renter) sample_order sample_cap sample_renting"
  have kind: "bk_name (r_backend sample_renter (or_kind sample_order)) = or_kind sample_order"
    by (simp add: always_makesD(5) [OF sample_renter_makes])
  have "runs_log sample_renting = runs_log (sample_at RUNNING)"
    by (simp add: sample_renting_def watching.defs sample_ledger_def center.defs sample_center_def)
  then have keyed: "keyed sample_renting" by (metis keyed_def sample_keyed(2))
  have "list_all (\<lambda>run. run_creation run \<noteq> ''mainboard-'' @ r_mint sample_renter (occasion sample_renting)) (newest sample_renting)"
    by code_simp
  then have fresh: "fresh_label sample_renter sample_renting"
    unfolding fresh_label_def list_all_iff set_newest by (blast intro: ranI)
  have "\<not> isl (fst (allocating sample_renter sample_order ''not_started'' sample_renting))" by code_simp
  then obtain rec u where run: "allocating sample_renter sample_order ''not_started'' sample_renting = (Inr rec, u)"
    by (cases "allocating sample_renter sample_order ''not_started'' sample_renting"; cases "fst (allocating sample_renter sample_order ''not_started'' sample_renting)") simp_all
  with allocating_cases [OF keyed fresh run] have "allocating sample_renter sample_order ''not_started'' sample_renting = (Inr rec, u)"
    "reserved_at u rec PREPARED" "rn_deeds u = rn_deeds sample_renting" by auto
  then have "rn_deeds (snd ?land) \<noteq> rn_deeds sample_renting"
    using land_deeds sample_rent_makes [OF sample_renter_makes _ sample_order_simps(1,2)] sample_asks_alike
    by (metis sample_order_simps(3) sample_prepaid)
  moreover have "rn_deeds sample_renting = []" by (simp add: sample_renting_def watching.defs)
  moreover obtain r t where run: "?land = (r, t)" by fastforce
  have "isl r \<and> rn_deeds t = rn_deeds sample_renting \<or>
    (\<exists>name h. rn_deeds t = rn_deeds sample_renting @ [Made ''lambda'' name h] \<and> accounted t sample_order name h)"
    using landing_loses_no_machine [OF sample_renter_law kind keyed fresh run] by (auto simp: sample_order_simps)
  ultimately show ?thesis using run by auto
qed

end
