(* ===== verification/Hold_Properties.thy ===== *)
theory Hold_Properties
  imports Holds Rental_Properties
begin

text \<open>
  What holding a machine promises: however a hold goes the registry knows the machine it rented, a
  hold that answers is tracked, listed under its alias and leased until its deadline, and a release
  the provider refuses stays held.
\<close>

section \<open>The current holds\<close>

interpretation holds_log: keyed_log "latest_rows hw_alias hw_dropped" hw_alias hw_dropped
  by unfold_locales (simp_all add: lookup_latest_rows_snoc)

text \<open>Every row of the log carries the hold of its own alias, as \<open>Holdings.save\<close> writes it.\<close>

definition named_holds :: "'s keeping_scheme \<Rightarrow> bool" where
  "named_holds s \<longleftrightarrow> list_all (\<lambda>r. hw_dropped r \<or> (\<exists>h. hw_held r = Some h \<and> hl_alias h = hw_alias r)) (kp_holds s)"

definition hold_at :: "'s keeping_scheme \<Rightarrow> string \<Rightarrow> held_machine option" where
  "hold_at s nm = Option.bind (lookup_row hw_alias (holds_view s) nm) hw_held"

lemma map_of_folded:
  "map_of (foldl (\<lambda>d h. AList.update (key h) h d) d hs) k =
     (case find (\<lambda>h. key h = k) (rev hs) of None \<Rightarrow> map_of d k | Some h \<Rightarrow> Some h)"
proof (induction hs arbitrary: d)
  case (Cons h hs)
  have "find P (xs @ [x]) = (case find P xs of None \<Rightarrow> if P x then Some x else None | Some y \<Rightarrow> Some y)" for P x and xs :: "'a list"
    by (induction xs) simp_all
  with Cons show ?case by (simp add: update_conv split: option.split)
qed simp

lemma find_unique:
  assumes "\<And>x y. x \<in> set xs \<Longrightarrow> y \<in> set xs \<Longrightarrow> P x \<Longrightarrow> P y \<Longrightarrow> x = y" and "x \<in> set xs" and "P x"
  shows "find P xs = Some x"
  using assms
proof (induction xs)
  case (Cons a xs)
  show ?case
  proof (cases "P a")
    case True
    with Cons.prems show ?thesis by (metis find.simps(2) list.set_intros(1))
  next
    case False
    with Cons show ?thesis by auto
  qed
qed simp

lemma holdings_at:
  assumes "named_holds s"
  shows "map_of (holdings s) = hold_at s"
proof
  fix nm
  define hs where "hs = concat (map (\<lambda>r. case hw_held r of None \<Rightarrow> [] | Some h \<Rightarrow> [h]) (sort_key hw_alias (holds_view s)))"
  have row: "\<exists>h. hw_held r = Some h \<and> hl_alias h = hw_alias r" if "r \<in> set (holds_view s)" for r
  proof -
    have "lookup_row hw_alias (latest_rows hw_alias hw_dropped (kp_holds s)) (hw_alias r) = Some r"
      using that by (simp add: holds_view_def latest_rows_member)
    from holds_log.lookup_in_log [OF this] assms show ?thesis by (auto simp: named_holds_def list_all_iff)
  qed
  have member: "h \<in> set hs \<longleftrightarrow> (\<exists>r. r \<in> set (holds_view s) \<and> hw_held r = Some h)" for h
    unfolding hs_def by (force split: option.splits)
  have at: "hold_at s (hl_alias h) = Some h" if "h \<in> set hs" for h
  proof -
    from that member obtain r where r: "r \<in> set (holds_view s)" "hw_held r = Some h" by blast
    with row have "hl_alias h = hw_alias r" by fastforce
    with r show ?thesis by (simp add: hold_at_def holds_view_def latest_rows_member)
  qed
  show "map_of (holdings s) nm = hold_at s nm"
  proof (cases "hold_at s nm")
    case None
    with at have "find (\<lambda>h. hl_alias h = nm) (rev hs) = None" by (auto simp: find_None_iff)
    with None show ?thesis by (simp add: holdings_def map_of_folded flip: hs_def)
  next
    case (Some h)
    then obtain r where r: "lookup_row hw_alias (holds_view s) nm = Some r" "hw_held r = Some h"
      by (auto simp: hold_at_def bind_eq_Some_conv)
    then have "r \<in> set (holds_view s)" "hw_alias r = nm" by (auto simp: lookup_row_def find_Some_iff)
    with r row member have h: "h \<in> set hs" "hl_alias h = nm" by fastforce+
    have "find (\<lambda>h. hl_alias h = nm) (rev hs) = Some h"
      by (rule find_unique) (use h at in \<open>auto, metis option.inject\<close>)
    with Some show ?thesis by (simp add: holdings_def map_of_folded flip: hs_def)
  qed
qed

lemma hold_append_apply:
  "\<exists>row. hw_alias row = nm \<and> hw_held row = held \<and> hw_dropped row = gone \<and>
     hold_append w nm held gone s =
       (Inr (), s\<lparr>kp_lake := (kp_lake s)\<lparr>lk_ticks := Suc (lk_ticks (kp_lake s))\<rparr>, kp_holds := kp_holds s @ [row]\<rparr>)"
  by (rule exI [of _ "\<lparr>hw_ts = now_at w (lk_ticks (kp_lake s)), hw_alias = nm, hw_held = held, hw_dropped = gone\<rparr>"])
    (simp add: hold_append_def on_lake_def andThen_apply)

lemma hold_at_append:
  assumes "hold_append w nm held gone s = (r, t)"
  shows "hold_at t = (hold_at s)(nm := (if gone then None else held))"
    and "named_holds s \<Longrightarrow> gone \<or> (\<exists>h. held = Some h \<and> hl_alias h = nm) \<Longrightarrow> named_holds t"
proof -
  obtain row where row: "hw_alias row = nm" "hw_held row = held" "hw_dropped row = gone"
    and t: "t = s\<lparr>kp_lake := (kp_lake s)\<lparr>lk_ticks := Suc (lk_ticks (kp_lake s))\<rparr>, kp_holds := kp_holds s @ [row]\<rparr>"
    using hold_append_apply [of nm held gone w s] assms by auto
  show "hold_at t = (hold_at s)(nm := (if gone then None else held))"
    by (rule ext) (auto simp: hold_at_def holds_view_def t holds_log.lookup_snoc row)
  show "named_holds s \<Longrightarrow> gone \<or> (\<exists>h. held = Some h \<and> hl_alias h = nm) \<Longrightarrow> named_holds t"
    using row by (auto simp: named_holds_def t)
qed

lemma on_lake_apply: "on_lake m s = (fst (m (kp_lake s)), s\<lparr>kp_lake := snd (m (kp_lake s))\<rparr>)"
  by (simp add: on_lake_def split: prod.split)

lemma hold_at_lake [simp]: "hold_at (s\<lparr>kp_lake := l\<rparr>) = hold_at s" "named_holds (s\<lparr>kp_lake := l\<rparr>) = named_holds s"
  "hold_at (s\<lparr>kp_config := g\<rparr>) = hold_at s" "named_holds (s\<lparr>kp_config := g\<rparr>) = named_holds s"
  by (rule ext | simp add: hold_at_def holds_view_def named_holds_def)+



section \<open>Ending a hold\<close>

text \<open>Every step before the drop leaves the hold log alone, and no step after it raises.\<close>

definition same_holds :: "'s keeping_scheme \<Rightarrow> 's keeping_scheme \<Rightarrow> bool" where
  "same_holds s t \<longleftrightarrow> kp_holds t = kp_holds s"

interpretation held_still: step_preorder same_holds
  by unfold_locales (simp_all add: same_holds_def)

lemma same_holds_local [steps]:
  "along same_holds (on_lake m)" "along same_holds (changing (\<lambda>s. s\<lparr>kp_config := f s\<rparr>))"
  by (rule alongI, simp add: same_holds_def on_lake_apply)+

lemma same_holds_at: "same_holds s t \<Longrightarrow> hold_at t = hold_at s \<and> named_holds t = named_holds s"
  by (auto simp: same_holds_def hold_at_def holds_view_def named_holds_def)

lemma end_hold_cases:
  assumes "end_hold w nm h provider s = (r, t)"
  shows "isl r \<and> hold_at t = hold_at s \<and> named_holds t = named_holds s \<or>
    r = Inr () \<and> hold_at t = (hold_at s)(nm := None) \<and> (named_holds s \<longrightarrow> named_holds t)"
proof -
  let ?stop = "andThen (on_lake (trying is_lookup (andThen (run_named h (Some provider)) (\<lambda>_. ret True)) (\<lambda>_. ret False))) (\<lambda>known.
     if known then on_lake (andThen (cancel w h provider) (\<lambda>_. ret ()))
              else andThen (returning (h_plan w provider [])) (\<lambda>p.
                   andThen (returning (rentable_of w p)) (\<lambda>b.
                   on_lake (backend_cancel w (bk_name b) h))))"
  let ?forget = "andThen (changing (\<lambda>s. s\<lparr>kp_config := alias_remove nm (kp_config s)\<rparr>)) (\<lambda>_.
     andThen (hold_drop w nm) (\<lambda>_. on_lake (hosts_drop w nm)))"
  obtain x u where stop: "?stop s = (x, u)" by fastforce
  have "along same_holds ?stop" by (intro steps)
  from same_holds_at [OF alongD [OF this stop]] have same: "hold_at u = hold_at s" "named_holds u = named_holds s" by simp_all
  have run: "end_hold w nm h provider s = andThen ?stop (\<lambda>_. ?forget) s"
    by (simp add: end_hold_def andThen_assoc)
  show ?thesis
  proof (cases x)
    case (Inl e)
    with run stop assms same show ?thesis by (auto simp: andThen_apply [of ?stop])
  next
    case (Inr y)
    let ?v = "u\<lparr>kp_config := alias_remove nm (kp_config u)\<rparr>"
    obtain z where drop: "hold_drop w nm ?v = (Inr (), z)" using hold_append_apply unfolding hold_drop_def by blast
    obtain l where "hosts_drop w nm (kp_lake z) = (Inr (), l)" by (simp add: hosts_drop_apply)
    with drop have "?forget u = (Inr (), z\<lparr>kp_lake := l\<rparr>)" by (simp add: andThen_apply on_lake_apply)
    with run stop Inr assms have t: "r = Inr ()" "t = z\<lparr>kp_lake := l\<rparr>" by (simp_all add: andThen_apply [of ?stop])
    with hold_at_append [OF drop [unfolded hold_drop_def]] same show ?thesis by simp
  qed
qed

lemma release_hold_cases:
  assumes "named_holds s" and "release_hold w nm s = (r, t)"
  shows "named_holds t \<and> (isl r \<and> hold_at t = hold_at s \<or>
    (\<exists>h. r = Inr h \<and> hold_at s nm = Some h \<and> hold_at t = (hold_at s)(nm := None)))"
proof (cases "map_of (holdings s) nm")
  case None
  with assms show ?thesis by (auto simp: release_hold_def andThen_apply)
next
  case (Some h)
  obtain x u where ended: "end_hold w nm (hl_handle h) (hl_provider h) s = (x, u)" by fastforce
  with Some assms(2) have "t = u" "r = map_sum id (\<lambda>_. h) x"
    by (auto simp: release_hold_def andThen_apply split: sum.splits)
  with end_hold_cases [OF ended] assms(1) Some holdings_at [OF assms(1)] show ?thesis by (cases x) auto
qed


section \<open>Releasing what is due\<close>

text \<open>Holds dropped one after the other: the map loses exactly the aliases of those answered.\<close>

definition dropped_from :: "held_machine list \<Rightarrow> (string \<rightharpoonup> held_machine) \<Rightarrow> (string \<rightharpoonup> held_machine) \<Rightarrow> bool" where
  "dropped_from gone m n \<longleftrightarrow> n = m |` (- hl_alias ` set gone) \<and> (\<forall>h \<in> set gone. m (hl_alias h) = Some h)"

lemma dropped_Nil [simp]: "dropped_from [] m n \<longleftrightarrow> n = m"
  by (auto simp: dropped_from_def)

lemma dropped_append: "dropped_from a m n \<Longrightarrow> dropped_from b n k \<Longrightarrow> dropped_from (a @ b) m k"
  by (auto simp: dropped_from_def restrict_map_def fun_eq_iff split: if_splits)

lemma dropped_below: "dropped_from gone m n \<Longrightarrow> n \<subseteq>\<^sub>m m"
  by (auto simp: dropped_from_def map_le_def restrict_map_def split: if_splits)

lemma dropped_one: "m nm = Some h \<Longrightarrow> hl_alias h = nm \<Longrightarrow> dropped_from [h] m (m(nm := None))"
  by (auto simp: dropped_from_def restrict_map_def fun_eq_iff)

lemma hold_at_alias: "named_holds s \<Longrightarrow> hold_at s nm = Some h \<Longrightarrow> hl_alias h = nm"
  by (auto simp: hold_at_def holds_view_def bind_eq_Some_conv named_holds_def list_all_iff dest!: holds_log.lookup_in_log)

lemma expire_one_cases:
  assumes "named_holds s" and "expire_one w now h s = (r, t)"
  shows "named_holds t \<and> hold_at t \<subseteq>\<^sub>m hold_at s \<and> (\<forall>gone. r = Inr gone \<longrightarrow> dropped_from gone (hold_at s) (hold_at t))"
proof -
  let ?due = "if now < hl_deadline h then hold_settled h else ret True"
  obtain x u where due: "?due s = (x, u)" by fastforce
  have "along same_holds ?due" unfolding hold_settled_def by (intro steps)
  from same_holds_at [OF alongD [OF this due]] have same: "hold_at u = hold_at s" "named_holds u = named_holds s" by simp_all
  show ?thesis
  proof (cases "x = Inr True")
    case True
    obtain y v where rel: "release_hold w (hl_alias h) u = (y, v)" by fastforce
    note left = release_hold_cases [OF _ rel]
    have "t = v" "r = Inr [] \<and> isl y \<or> isl r \<and> isl y \<or> (\<exists>g. y = Inr g \<and> r = Inr [g])"
      using True due rel assms(2) by (cases y; auto simp: expire_one_def andThen_apply trying_apply split: if_splits)+
    moreover have "dropped_from [g] (hold_at u) (hold_at v)" if "y = Inr g" for g
      using that left same assms(1) hold_at_alias [of u] dropped_one [of "hold_at u"] by auto
    moreover have "named_holds v" "isl y \<Longrightarrow> hold_at v = hold_at u" using left same assms(1) by auto
    ultimately show ?thesis using same dropped_below [of _ "hold_at u" "hold_at v"] by auto
  next
    case False
    with due assms(2) have "t = u" "isl r \<or> r = Inr []"
      by (cases x; auto simp: expire_one_def andThen_apply)+
    with same assms(1) show ?thesis by auto
  qed
qed

lemma expiring:
  assumes "named_holds s" and "each (expire_one w now) hs s = (r, t)"
  shows "named_holds t \<and> hold_at t \<subseteq>\<^sub>m hold_at s \<and> (\<forall>gone. r = Inr gone \<longrightarrow> dropped_from (concat gone) (hold_at s) (hold_at t))"
  using assms
proof (induction hs arbitrary: s r t)
  case (Cons h hs)
  obtain x u where one: "expire_one w now h s = (x, u)" by fastforce
  note left = expire_one_cases [OF Cons.prems(1) one]
  show ?case
  proof (cases x)
    case (Inl e)
    with Cons.prems(2) one left show ?thesis by (auto simp: andThen_apply)
  next
    case (Inr g)
    obtain y v where later: "each (expire_one w now) hs u = (y, v)" by fastforce
    with Cons.prems(2) one Inr have "t = v" "r = map_sum id ((#) g) y" by (auto simp: andThen_apply split: sum.splits)
    with Cons.IH [OF _ later] left Inr show ?thesis
      by (cases y) (auto intro: dropped_append map_le_trans)
  qed
qed auto

text \<open>
  C28. A release the provider refuses stays held. A pass over the holds forgets exactly the machines it
  answers as released, each as it was held; every other hold, one whose release was refused included,
  is held as before, and a pass that raises on the way forgot none it had not released.
\<close>

theorem refused_release_stays_held:
  assumes "named_holds s" and "expire_holds w s = (r, t)"
  shows "map_of (holdings t) \<subseteq>\<^sub>m map_of (holdings s) \<and>
    (\<forall>gone. r = Inr gone \<longrightarrow> dropped_from gone (map_of (holdings s)) (map_of (holdings t)))"
proof -
  let ?u = "s\<lparr>kp_lake := (kp_lake s)\<lparr>lk_ticks := Suc (lk_ticks (kp_lake s))\<rparr>\<rparr>"
  obtain x v where run: "each (expire_one w (x_clock w (lk_ticks (kp_lake s)))) (map snd (holdings ?u)) ?u = (x, v)" by fastforce
  then have "t = v" "r = map_sum id concat x"
    using assms(2) by (auto simp: expire_holds_def andThen_apply on_lake_apply clock_now_def split: sum.splits)
  with expiring [OF _ run] assms(1) show ?thesis
    by (cases x) (auto simp: holdings_at)
qed


section \<open>What the registry remembers of a machine\<close>

text \<open>A record binds the creation of a request to a handle, whatever became of the run.\<close>

definition bound_known :: "run_record \<Rightarrow> string \<Rightarrow> 's lake_scheme \<Rightarrow> bool" where
  "bound_known rec h s \<longleftrightarrow> keyed s \<and> (\<exists>c. at_identity s (identity c) = Some c \<and> run_creation c = run_creation rec \<and>
     run_target c = run_target rec \<and> run_kind c = run_kind rec \<and> run_handle c = h)"

definition remembers :: "run_record \<Rightarrow> string \<Rightarrow> 's center_scheme \<Rightarrow> 's center_scheme \<Rightarrow> bool" where
  "remembers rec h s t \<longleftrightarrow> (bound_known rec h s \<longrightarrow> bound_known rec h t) \<and> center.more t = center.more s"

lemma bound_known_log: "runs_log t = runs_log s \<Longrightarrow> bound_known rec h t = bound_known rec h s"
  by (simp add: bound_known_def at_identity_frame [of t s] keyed_frame [of t s])

lemma bound_known_logged:
  assumes "bound_known rec h s" and "at_identity s (identity y) = Some x" and "run_creation y = run_creation x" "run_kind y = run_kind x"
  shows "bound_known rec h (logged w y False s)"
proof -
  from assms(1) obtain c where keyed: "keyed s" and c: "at_identity s (identity c) = Some c" "run_creation c = run_creation rec"
    "run_target c = run_target rec" "run_kind c = run_kind rec" "run_handle c = h" by (auto simp: bound_known_def)
  have x: "identity x = identity y" using at_identity_key [OF keyed assms(2)] .
  show ?thesis
  proof (cases "identity c = identity y")
    case True
    with c assms(2) have "c = x" by simp
    with x assms(3,4) keyed c show ?thesis
      unfolding bound_known_def by (intro conjI exI [of _ y]) (simp_all add: identity_def)
  next
    case False
    with keyed c show ?thesis unfolding bound_known_def by (intro conjI exI [of _ c]) simp_all
  qed
qed

lemma more_logged [simp]: "center.more (logged w y d s) = center.more s"
  by (simp add: logged_def)

lemma fold_set_field_same: "run_creation (fold set_field fs c) = run_creation c" "run_kind (fold set_field fs c) = run_kind c"
proof (induction fs arbitrary: c)
  case (Cons f fs)
  { case 1 then show ?case using Cons.IH by (cases f) simp_all }
  { case 2 then show ?case using Cons.IH by (cases f) simp_all }
qed simp_all

lemma remembers_refl: "remembers rec h s s"
  by (simp add: remembers_def)

lemma remembers_logged:
  assumes "at_identity s k = Some x" and "identity y = identity x" and "run_creation y = run_creation x" "run_kind y = run_kind x"
  shows "remembers rec h s (logged w y False s)"
proof -
  have "bound_known rec h (logged w y False s)" if known: "bound_known rec h s"
  proof -
    from known have "keyed s" by (simp add: bound_known_def)
    from at_identity_key [OF this assms(1)] assms have "at_identity s (identity y) = Some x" by simp
    then show ?thesis by (rule bound_known_logged [OF known _ assms(3,4)])
  qed
  then show ?thesis by (simp add: remembers_def)
qed

lemma remembers_change: "along (remembers rec h) (change w run updates)"
  by (rule alongI)
    (auto simp: change_apply fold_set_field_same remembers_refl split: option.split intro: remembers_logged)

lemma remembers_transition:
  assumes "\<And>c. identity (update c) = identity c" "\<And>c. run_creation (update c) = run_creation c" "\<And>c. run_kind (update c) = run_kind c"
  shows "along (remembers rec h) (transition w run expected update missing)"
  by (rule alongI) (auto simp: transition_apply remembers_refl assms split: option.split intro: remembers_logged)

lemma remembers_prepared: "along (remembers rec h) (prepared w run v granted :: ('s center_scheme, _) comp)"
proof (cases "reaches w (Some (word_text PREPARED)) v")
  case False
  then show ?thesis by (simp add: prepared_def along_def remembers_refl)
next
  case True
  then show ?thesis
    unfolding prepared_def by (simp only: not_True_eq_False if_False, intro remembers_transition) (simp_all add: identity_def)
qed

lemma remembers_along_ret: "along (remembers rec h) m \<Longrightarrow> along (remembers rec h) (andThen m (\<lambda>_. ret x))"
  unfolding along_def andThen_apply by (simp split: prod.split sum.split, metis snd_conv)

lemma pull_more: "center.more (snd (pull w job s)) = center.more s"
  by (simp add: pull_def job_pull_def unpulled_def Let_def andThen_apply trying_else_apply doing_def split: option.split)

interpretation remembering: stopping_preorder "remembers rec h" w for rec h w
proof unfold_locales
  fix s t u :: "'s center_scheme"
  show "remembers rec h s s" by (rule remembers_refl)
  show "remembers rec h s t \<Longrightarrow> remembers rec h t u \<Longrightarrow> remembers rec h s u" by (simp add: remembers_def)
  show "runs_log t = runs_log s \<Longrightarrow> host_facts t = host_facts s \<Longrightarrow> c_quiet t = c_quiet s \<Longrightarrow>
      center.more t = center.more s \<Longrightarrow> remembers rec h s t"
    "runs_log t = runs_log s \<Longrightarrow> host_facts t = host_facts s \<Longrightarrow> center.more t = center.more s \<Longrightarrow> remembers rec h s t"
    by (simp_all add: remembers_def bound_known_log [of t s])
  show "along (remembers rec h) (delivery w run st :: ('s center_scheme, _) comp)" for run st
    unfolding delivery_def by (rule remembers_change)
  show "along (remembers rec h) (pull w job :: ('s center_scheme, _) comp)" for job
    by (rule alongI) (simp add: remembers_def pull_more bound_known_log [OF pull_frame(1)])
  show "along (remembers rec h) (resolve w run st code v :: ('s center_scheme, _) comp)" for run st code v
    unfolding resolve_def by (rule remembers_change)
  show "along (remembers rec h) (report w run v :: ('s center_scheme, _) comp)" for run v
    unfolding report_def by (intro remembers_along_ret remembers_change)
  show "along (remembers rec h) (prepared w run v granted :: ('s center_scheme, _) comp)" for run v granted
    by (rule remembers_prepared)
qed


section \<open>Holding\<close>

text \<open>A preorder on lakes, read off the states of a holder.\<close>

definition lakes :: "(renting \<Rightarrow> renting \<Rightarrow> bool) \<Rightarrow> 's keeping_scheme \<Rightarrow> 's keeping_scheme \<Rightarrow> bool" where
  "lakes R s t \<longleftrightarrow> R (kp_lake s) (kp_lake t)"

lemma along_on_lake [steps]: "along R m \<Longrightarrow> along (lakes R) (on_lake m)"
  by (simp add: along_def lakes_def on_lake_apply)

interpretation kept_known: step_preorder "lakes (remembers rec h)" for rec h
  using remembering.R_trans by unfold_locales (auto simp: lakes_def remembers_refl)

interpretation kept_owed: step_preorder "lakes (keeps_owed rec h)" for rec h
  by unfold_locales (simp_all add: lakes_def keeps_owed_def)

lemma lakes_local [steps]:
  "along (lakes (remembers rec h)) (changing (\<lambda>s. s\<lparr>kp_config := f s\<rparr>))"
  "along (lakes (keeps_owed rec h)) (changing (\<lambda>s. s\<lparr>kp_config := f s\<rparr>))"
  "along (lakes (remembers rec h)) (changing (\<lambda>s. s\<lparr>kp_holds := g s\<rparr>))"
  "along (lakes (keeps_owed rec h)) (changing (\<lambda>s. s\<lparr>kp_holds := g s\<rparr>))"
  by (simp_all add: along_def lakes_def remembers_refl keeps_owed_def)

text \<open>Steps that write no run.\<close>

lemma unrun_steps:
  assumes "\<And>s. runs_log (snd (m s)) = runs_log s \<and> center.more (snd (m s)) = center.more s"
  shows "along (remembers rec h) m" and "along (keeps_owed rec h) m"
proof -
  show "along (remembers rec h) m"
  proof (rule alongI)
    fix s
    from bound_known_log [of "snd (m s)" s rec h] assms show "remembers rec h s (snd (m s))" by (simp add: remembers_def)
  qed
  show "along (keeps_owed rec h) m"
  proof (rule alongI)
    fix s
    show "keeps_owed rec h s (snd (m s))" using owed_log [of "snd (m s)" s] assms by (simp add: keeps_owed_def)
  qed
qed

lemma unrun [steps]:
  fixes w :: "'w world_scheme"
  shows "along (remembers rec h) (save w found)" "along (keeps_owed rec h) (save w found :: (renting, _) comp)"
    "along (remembers rec h) (hosts_drop w nm)" "along (keeps_owed rec h) (now_text w :: (renting, _) comp)"
proof -
  have saved: "runs_log (snd (save w found s)) = runs_log s \<and> center.more (snd (save w found s)) = center.more s"
    for s :: "'s center_scheme" by (simp add: save_apply Let_def)
  then show "along (remembers rec h) (save w found)" "along (keeps_owed rec h) (save w found :: (renting, _) comp)"
    by (rule unrun_steps)+
  have "runs_log (snd (hosts_drop w nm s)) = runs_log s \<and> center.more (snd (hosts_drop w nm s)) = center.more s"
    for s :: "'s center_scheme" by (simp add: hosts_drop_apply)
  then show "along (remembers rec h) (hosts_drop w nm)" by (rule unrun_steps(1))
  show "along (keeps_owed rec h) (now_text w :: (renting, _) comp)" by (rule unrun_steps(2)) simp
qed

lemma unrun_clock [steps]:
  "along (remembers rec h) (clock_now w)" "along (keeps_owed rec h) (clock_now w :: (renting, _) comp)"
proof -
  have "runs_log (snd (clock_now w s)) = runs_log s \<and> center.more (snd (clock_now w s)) = center.more s"
    for s :: "'s renting_scheme" by (simp add: clock_now_def)
  then show "along (remembers rec h) (clock_now w)" "along (keeps_owed rec h) (clock_now w :: (renting, _) comp)"
    by (rule unrun_steps)+
qed

lemma relet_steps [steps]: "along (remembers rec h) (relet w run granted)" "along (keeps_owed rec h) (relet w run granted)"
  by (rule alongI; auto simp: relet_apply remembers_refl owing.R_refl split: option.split intro: remembers_logged owed_logged)+

lemma keep_along [steps]:
  "along (lakes (remembers rec h)) (keep w name hired p seconds)" "along (lakes (keeps_owed rec h)) (keep w name hired p seconds)"
  unfolding keep_def hold_save_def hold_append_def set_up_def park_def hold_relet_def Let_def
  by (intro steps remembering.delivering)+

lemma end_hold_along [steps]: "along (lakes (remembers rec h)) (end_hold w nm x provider)"
  unfolding end_hold_def hold_drop_def hold_append_def by (intro steps)

text \<open>A hold up to the lease's move: the record found, and the hold as it will be answered.\<close>

definition keep_ready :: "'w holder_scheme \<Rightarrow> string \<Rightarrow> rental \<Rightarrow> plan \<Rightarrow> int \<Rightarrow> ('s keeping_scheme, run_record \<times> held_machine) comp" where
  "keep_ready w name hired p seconds =
     andThen (changing (\<lambda>s. s\<lparr>kp_config := alias_add name (rl_endpoint hired) (kp_config s)\<rparr>)) (\<lambda>_.
     andThen (on_lake (run_named (rl_handle hired) (Some (pn_host p)))) (\<lambda>rec.
     andThen (on_lake (clock_now w)) (\<lambda>now.
     let held = drafted name hired rec p seconds now in
     andThen (hold_save w held) (\<lambda>_.
     andThen (set_up w name) (\<lambda>setup.
     andThen (park w name) (\<lambda>_.
     andThen (on_lake (clock_now w)) (\<lambda>later.
     let ready = held\<lparr>hl_deadline := later + seconds * 1000000, hl_profile := (hl_profile held)\<lparr>pf_root := hs_root setup\<rparr>\<rparr> in
     andThen (hold_save w ready) (\<lambda>_. ret (rec, ready)))))))))"

lemma keep_eq:
  "keep w name hired p seconds =
     andThen (keep_ready w name hired p seconds) (\<lambda>(rec, ready).
       andThen (hold_relet w rec ready (pf_kind (pn_profile p))) (\<lambda>_. ret ready))"
  by (simp add: keep_def keep_ready_def Let_def andThen_assoc)

definition same_log :: "renting \<Rightarrow> renting \<Rightarrow> bool" where
  "same_log s t \<longleftrightarrow> runs_log t = runs_log s"

interpretation logs_same: step_preorder "lakes same_log"
  by unfold_locales (simp_all add: lakes_def same_log_def)

lemma same_log_steps [steps]:
  "along same_log (clock_now w)" "along same_log (now_text w)" "along (lakes same_log) (changing (\<lambda>s. s\<lparr>kp_config := f s\<rparr>))"
  "along (lakes same_log) (changing (\<lambda>s. s\<lparr>kp_holds := g s\<rparr>))"
  by (simp_all add: along_def same_log_def lakes_def clock_now_def)

lemma keep_ready_log: "along (lakes same_log) (keep_ready w name hired p seconds)"
proof -
  have found: "along same_log (run_named h tg)" for h tg by (simp add: along_def same_log_def run_named_state)
  have "along (lakes same_log) (set_up w name)" for name
    by (rule alongI) (simp add: lakes_def same_log_def set_up_def on_lake_apply andThen_apply save_apply Let_def split: sum.split)
  moreover have "along (lakes same_log) (park w name)" for name
    by (rule alongI) (simp add: lakes_def same_log_def park_def on_lake_apply andThen_apply split: prod.split)
  ultimately show ?thesis
    unfolding keep_ready_def hold_save_def hold_append_def Let_def by (intro steps found)
qed

lemma keep_ready_answers:
  assumes "keep_ready w name hired p seconds s = (Inr (rec, ready), t)"
  shows "fst (run_named (rl_handle hired) (Some (pn_host p)) (kp_lake s)) = Inr rec" and "hold_at t name = Some ready"
    and "hl_alias ready = name" "hl_handle ready = rl_handle hired" "hl_provider ready = pn_host p"
  using assms unfolding keep_ready_def Let_def hold_save_def
  by (auto elim!: andThen_InrE simp: on_lake_apply drafted_def dest!: hold_at_append(1))

text \<open>A run the registry names on a target by a handle some current run there has.\<close>

lemma run_named_exact:
  assumes "keyed s" and "at_identity s k = Some c" "run_handle c = h" "run_target c = tg"
    and "fst (run_named h (Some tg) s) = Inr rec"
  shows "at_identity s (identity rec) = Some rec \<and> run_handle rec = h \<and> (tg \<noteq> [] \<longrightarrow> run_target rec = tg)"
proof -
  have on: "set (on_target (Some tg) s) = {c \<in> ran (at_identity s). tg \<noteq> [] \<longrightarrow> run_target c = tg}"
    using set_on_target [OF assms(1), of "Some tg"] by auto
  have "c \<in> set (on_target (Some tg) s)" unfolding on using assms(2,4) by (auto intro: ranI)
  then have "filter (\<lambda>run. run_handle run = h) (on_target (Some tg) s) \<noteq> []" using assms(3) by (auto simp: filter_empty_conv)
  then obtain r rs where exact: "filter (\<lambda>run. run_handle run = h) (on_target (Some tg) s) = r # rs" by (meson neq_Nil_conv)
  with assms(5) have "rec = r" by (auto simp: run_named_def andThen_apply Let_def split: if_splits)
  then have "rec \<in> set (filter (\<lambda>run. run_handle run = h) (on_target (Some tg) s))" by (simp only: exact list.set_intros)
  with on obtain j where "at_identity s j = Some rec" "run_handle rec = h" "tg \<noteq> [] \<longrightarrow> run_target rec = tg" by (auto simp: ran_def)
  with at_identity_key [OF assms(1)] show ?thesis by blast
qed

lemma hold_relet_leases:
  assumes "hold_relet w rec ready kind s = (Inr (), t)" and "keyed (kp_lake s)"
  shows "kp_holds t = kp_holds s" and "\<exists>c l. at_identity (kp_lake t) (identity c) = Some c \<and> identity c = identity rec \<and>
    run_lease c = Some l \<and> ls_release_by l = hl_deadline ready"
proof -
  let ?m = "\<lambda>granted. andThen (delivery w rec ''pending'') (\<lambda>current. andThen (relet w current granted) (\<lambda>_. ret ()))"
  define granted where "granted = (case run_lease rec of Some l \<Rightarrow> l
     | None \<Rightarrow> \<lparr>ls_offer = bare_offer kind (hl_gpu ready), ls_release_by = hl_deadline ready, ls_max_usd = 0, ls_cap = None\<rparr>)
       \<lparr>ls_release_by := hl_deadline ready\<rparr>"
  then have granted: "ls_release_by granted = hl_deadline ready" by simp
  have run: "hold_relet w rec ready kind = on_lake (?m granted)" by (simp add: hold_relet_def Let_def granted_def)
  have lake: "?m granted (kp_lake s) = (Inr (), kp_lake t)" and t: "kp_holds t = kp_holds s"
    using assms(1) unfolding run on_lake_apply by (auto simp: prod_eq_iff)
  show "kp_holds t = kp_holds s" by (rule t)
  from lake obtain current u where cur: "delivery w rec ''pending'' (kp_lake s) = (Inr current, u)"
    and again: "andThen (relet w current granted) (\<lambda>_. ret ()) u = (Inr (), kp_lake t)" by (rule andThen_InrE)
  from cur obtain x where x: "at_identity (kp_lake s) (identity rec) = Some x" "current = x\<lparr>run_evidence := ''pending''\<rparr>"
    "u = logged w current False (kp_lake s)" by (auto simp: delivery_def change_apply split: option.splits)
  with at_identity_key [OF assms(2) x(1)] have same: "identity current = identity rec" by simp
  from again x same obtain c where "c = current\<lparr>run_lease := Some granted\<rparr>" "kp_lake t = logged w c False u"
    by (auto simp: andThen_apply relet_apply)
  with same granted show "\<exists>c l. at_identity (kp_lake t) (identity c) = Some c \<and> identity c = identity rec \<and>
      run_lease c = Some l \<and> ls_release_by l = hl_deadline ready"
    by (intro exI [of _ c] exI [of _ granted]) simp
qed

text \<open>A machine held: listed under its alias, on a run that names it, leased to the hold's deadline.\<close>

definition kept_until_due :: "'s keeping_scheme \<Rightarrow> held_machine \<Rightarrow> bool" where
  "kept_until_due t held \<longleftrightarrow> hold_at t (hl_alias held) = Some held \<and>
     (\<exists>c l. at_identity (kp_lake t) (identity c) = Some c \<and> run_handle c = hl_handle held \<and>
        (hl_provider held \<noteq> [] \<longrightarrow> run_target c = hl_provider held) \<and> run_lease c = Some l \<and> ls_release_by l = hl_deadline held)"

lemma keep_keeps:
  assumes "keep w name hired p seconds s = (Inr held, t)" and "owed rec (rl_handle hired) (kp_lake s)" and "run_target rec = pn_host p"
  shows "hl_handle held = rl_handle hired \<and> hl_alias held = name \<and> kept_until_due t held"
proof -
  obtain rec' u where ready: "keep_ready w name hired p seconds s = (Inr (rec', held), u)"
    and relet: "hold_relet w rec' held (pf_kind (pn_profile p)) u = (Inr (), t)"
    using assms(1) by (auto simp: keep_eq elim!: andThen_InrE split: prod.splits)
  note held = keep_ready_answers [OF ready]
  from assms(2) obtain c where keyed: "keyed (kp_lake s)" and c: "at_identity (kp_lake s) (identity c) = Some c" "run_handle c = rl_handle hired"
    "run_target c = pn_host p" using assms(3) by (auto simp: owed_def)
  note found = run_named_exact [OF keyed c held(1)]
  have "runs_log (kp_lake u) = runs_log (kp_lake s)"
    using alongD [OF keep_ready_log ready] by (simp add: lakes_def same_log_def)
  then have "keyed (kp_lake u)" using keyed keyed_frame by blast
  note leased = hold_relet_leases [OF relet this]
  have "hold_at t name = Some held" using held(2) leased(1) by (simp add: hold_at_def holds_view_def)
  with leased(2) found held(3-5) show ?thesis
    unfolding kept_until_due_def by (auto simp: identity_def)
qed

text \<open>The registry knows a machine: by the label its create was sent with, or by its handle.\<close>

definition machine_known :: "'s lake_scheme \<Rightarrow> string \<Rightarrow> string \<Rightarrow> string \<Rightarrow> string \<Rightarrow> bool" where
  "machine_known s host kind name h \<longleftrightarrow> (\<exists>c. at_identity s (identity c) = Some c \<and> run_creation c = name \<and> run_target c = host \<and>
     run_kind c = kind \<and> (run_handle c = name \<and> run_verdict c = Some (word_text SUBMITTING) \<or> run_handle c = h))"

lemma accounted_known: "accounted s d name h \<Longrightarrow> machine_known s (or_host d) (or_kind d) name h"
  unfolding accounted_def machine_known_def by blast

lemma bound_machine_known: "bound_known rec h s \<Longrightarrow> machine_known s (run_target rec) (run_kind rec) (run_creation rec) h"
  unfolding bound_known_def machine_known_def by blast

lemma owed_bound: "owed rec h s \<Longrightarrow> bound_known rec h s"
  unfolding owed_def bound_known_def by blast

lemma warden_lake: "kp_lake (snd (warden_of w kind usd s)) = kp_lake s"
  by (simp add: warden_of_def on_lake_def on_work_def andThen_apply split: prod.split)

lemma rent_hold_left:
  assumes "lifecycle_law w" and "\<And>kind. bk_name (r_backend w kind) = kind" and "keyed (kp_lake s)" and "fresh_label w (kp_lake s)"
    and "rent_hold w (cloud_rent w) p r name duration s = (x, t)"
  shows "isl x \<and> rn_deeds (kp_lake t) = rn_deeds (kp_lake s) \<or>
    (\<exists>nm h. rn_deeds (kp_lake t) = rn_deeds (kp_lake s) @ [Made (pf_kind (pn_profile p)) nm h] \<and>
       machine_known (kp_lake t) (pn_host p) (pf_kind (pn_profile p)) nm h \<and>
       (\<forall>got. x = Inr got \<longrightarrow> rl_handle got = h \<and> (\<exists>rec. owed rec h (kp_lake t) \<and> run_creation rec = nm \<and>
          run_target rec = pn_host p \<and> run_kind rec = pf_kind (pn_profile p))))"
proof -
  obtain a u where warden: "warden_of w (pf_kind (pn_profile p)) (res_max_usd r) s = (a, u)" by fastforce
  then have lake: "kp_lake u = kp_lake s" using warden_lake by (metis snd_conv)
  show ?thesis
  proof (cases "\<exists>c source. a = Inr c \<and> h_source w = Inr source")
    case False
    with warden assms(5) lake show ?thesis
      by (cases a; cases "h_source w") (auto simp: rent_hold_def andThen_apply)
  next
    case True
    then obtain c source where ok: "a = Inr c" "h_source w = Inr source" by blast
    let ?d = "hold_order p name duration r source"
    have d: "or_host ?d = pn_host p" "or_kind ?d = pf_kind (pn_profile p)" by (simp_all add: hold_order_def split: prod.split)
    let ?hire = "andThen (allocating w ?d ''not_started'') (\<lambda>rec. unwinding (cloud_rent w ?d rec c) (interrupted w rec))"
    obtain b v where hired: "?hire (kp_lake s) = (b, v)" by fastforce
    have "rent_hold w (cloud_rent w) p r name duration s = on_lake ?hire u"
      using warden ok by (simp add: rent_hold_def andThen_apply [of "warden_of _ _ _"] andThen_apply [of "returning _"] Let_def)
    with hired lake assms(5) have hire: "?hire (kp_lake s) = (x, v)" and t: "kp_lake t = v" by (auto simp: on_lake_apply)
    from cloud.rented_left [OF conjI [OF assms(1,2)] assms(3,4) hire, unfolded d] show ?thesis
    proof (elim disjE exE conjE)
      fix nm h
      assume made: "rn_deeds v = rn_deeds (kp_lake s) @ [Made (pf_kind (pn_profile p)) nm h]" and "accounted v ?d nm h"
        and got: "\<forall>got. x = Inr got \<longrightarrow> rl_handle got = h \<and> (\<exists>rec. bound_at v rec h \<and> run_creation rec = nm \<and>
          run_target rec = pn_host p \<and> run_kind rec = pf_kind (pn_profile p))"
      with accounted_known [of v ?d nm h] d have "machine_known v (pn_host p) (pf_kind (pn_profile p)) nm h" by simp
      moreover have "\<forall>got. x = Inr got \<longrightarrow> rl_handle got = h \<and> (\<exists>rec. owed rec h v \<and> run_creation rec = nm \<and>
          run_target rec = pn_host p \<and> run_kind rec = pf_kind (pn_profile p))" using got bound_owed by blast
      ultimately show ?thesis using made unfolding t by blast
    qed (simp add: t)
  qed
qed

lemma hold_steps:
  assumes "hold_machine w rent provider a c env s = (r, t)"
  obtains (early) "isl r" and "t = s"
  | (rented) p name seconds q where
      "andThen (rent_hold w rent p q name (ah_duration a)) (\<lambda>hired.
         unwinding (keep w name hired p seconds) (end_hold w name (rl_handle hired) provider)) s = (r, t)"
proof (cases "\<exists>p name seconds q b. h_plan w provider env = Inr p \<and> hold_named w provider a c p = Inr name \<and>
    duration_seconds (ah_duration a) = Inr seconds \<and> board_resources (h_evaluate w) (asked_resources a seconds c) p = Inr q \<and>
    h_vouch w (pn_env p) = None \<and> rentable_of w p = Inr b")
  case True
  then show ?thesis using assms rented by (auto simp: hold_machine_def andThen_apply [of "returning _"])
next
  case False
  then have "isl r \<and> t = s"
    using assms by (auto simp: hold_machine_def andThen_apply [of "returning _"] split: sum.splits option.splits)
  then show ?thesis using early by blast
qed

text \<open>
  C13. A hold loses no machine and keeps what it answers until its deadline. However the rent, the
  setup, the park and their clean-up go and wherever they raise, a hold makes at most one machine,
  and the registry knows the one it made, by the label the create was sent with or by its handle.
  A hold that answers names that machine, lists it under its alias, and a run that names it on its
  provider is leased until the very deadline answered, so the sweep ends it then.
\<close>

theorem hold_loses_no_machine:
  assumes "lifecycle_law w" and "\<And>kind. bk_name (r_backend w kind) = kind" and "keyed (kp_lake s)" and "fresh_label w (kp_lake s)"
    and "hold_machine w (cloud_rent w) provider a c env s = (r, t)"
  shows "isl r \<and> rn_deeds (kp_lake t) = rn_deeds (kp_lake s) \<or>
    (\<exists>host kind nm h. rn_deeds (kp_lake t) = rn_deeds (kp_lake s) @ [Made kind nm h] \<and> machine_known (kp_lake t) host kind nm h \<and>
       (\<forall>held. r = Inr held \<longrightarrow> hl_handle held = h \<and> kept_until_due t held))"
  using assms(5)
proof (cases rule: hold_steps)
  case (rented p name seconds q)
  let ?kind = "pf_kind (pn_profile p)"
  obtain x u where rent: "rent_hold w (cloud_rent w) p q name (ah_duration a) s = (x, u)" by fastforce
  note left = rent_hold_left [OF assms(1-4) rent]
  show ?thesis
  proof (cases x)
    case (Inl e)
    with rent rented left show ?thesis by (auto simp: andThen_apply)
  next
    case (Inr hired)
    let ?h = "rl_handle hired"
    from left Inr obtain rec where deeds: "rn_deeds (kp_lake u) = rn_deeds (kp_lake s) @ [Made ?kind (run_creation rec) ?h]"
      and owed: "owed rec ?h (kp_lake u)" and rec: "run_target rec = pn_host p" "run_kind rec = ?kind" by auto
    from rent rented Inr have run: "unwinding (keep w name hired p seconds) (end_hold w name ?h provider) u = (r, t)"
      by (simp add: andThen_apply)
    have "along (lakes (remembers rec ?h)) (unwinding (keep w name hired p seconds) (end_hold w name ?h provider))"
      unfolding unwinding_def by (intro steps)
    from alongD [OF this run] owed_bound [OF owed] have known: "bound_known rec ?h (kp_lake t)"
      and more: "center.more (kp_lake t) = center.more (kp_lake u)" by (simp_all add: lakes_def remembers_def)
    from more have "rn_deeds (kp_lake t) = rn_deeds (kp_lake u)" by (cases "kp_lake t"; cases "kp_lake u") simp
    moreover have "hl_handle held = ?h \<and> kept_until_due t held" if "r = Inr held" for held
      using run that keep_keeps [OF _ owed rec(1), of w] by (cases rule: unwinding_cases [case_names ok failed]) auto
    ultimately show ?thesis using deeds bound_machine_known [OF known]
      by (intro disjI2 exI [of _ "run_target rec"] exI [of _ ?kind] exI [of _ "run_creation rec"] exI [of _ ?h]) (simp add: rec)
  qed
qed simp

text \<open>A hold on the sample cloud, whose machine never publishes its address.\<close>

definition sample_plan :: plan where
  "sample_plan = \<lparr>pn_host = ''cloudy'', pn_env = [], pn_image = None, pn_key = [], pn_containerized = False,
     pn_profile = \<lparr>pf_kind = ''lambda'', pf_platform = [], pf_root = [], pf_account = [], pf_defaults = DEFAULTS, pf_queues = [], pf_scope = []\<rparr>\<rparr>"

definition sample_holder :: holder where
  "sample_holder = renter.extend sample_renter
     \<lparr>h_plan = (\<lambda>_ _. Inr sample_plan), h_route = (\<lambda>kind. Inr (Some (r_backend sample_renter kind))), h_rents = (\<lambda>_. True),
      h_declared = [], h_evaluate = (\<lambda>_ _. Inr 0), h_vouch = (\<lambda>_. None), h_source = Inr (''k'', ''c'', ''d''),
      h_owner = sample_leaving, h_budget = None, h_time = (\<lambda>_. 0), h_at = (\<lambda>_. 0),
      h_setup = (\<lambda>_ _. Inl (MissionError ''no answer'')), h_park = (\<lambda>_ _. (0, []))\<rparr>"

definition sample_keeping :: keeping where
  "sample_keeping = \<lparr>kp_lake = sample_renting, kp_work = sample_workspace, kp_holds = [], kp_config = None\<rparr>"

definition sample_asked_hold :: asked_hold where
  "sample_asked_hold = \<lparr>ah_duration = ''1h'', ah_alias = ''card'', ah_max_usd = 10\<rparr>"

definition sample_cards :: cards where
  "sample_cards = \<lparr>cd_gpu_name = ''RTX 4090'', cd_arch = [], cd_gpus = 1, cd_spot = False\<rparr>"


lemma sample_holder_makes: "always_makes sample_holder"
  using sample_renter_makes by (simp add: always_makes_def lifecycle_law_def sample_holder_def renter.defs)

text \<open>The order the sample hold comes to.\<close>

definition sample_hold_order :: order where
  "sample_hold_order = hold_order sample_plan ''card'' ''1h''
     (asked_resources sample_asked_hold 3600 sample_cards\<lparr>res_queue := Some [], res_mem_gb := Some 0\<rparr>) (''k'', ''c'', ''d'')"

lemma sample_hold_order_simps: "or_kind sample_hold_order = ''lambda''" "or_image sample_hold_order = None" "asks_alike (or_resources sample_hold_order)"
  by code_simp+

lemma sample_holder_simps:
  "h_plan sample_holder provider env = Inr sample_plan" "h_vouch sample_holder x = None" "h_source sample_holder = Inr (''k'', ''c'', ''d'')"
  "h_route sample_holder kind = Inr (Some (r_backend sample_renter kind))" "h_owner sample_holder = sample_leaving" "h_budget sample_holder = None"
  by (simp_all add: sample_holder_def renter.defs)

lemma sample_hold_asks:
  "hold_named sample_holder ''cloudy'' sample_asked_hold sample_cards sample_plan = Inr ''card''"
  "duration_seconds (ah_duration sample_asked_hold) = Inr 3600" "\<exists>b. rentable_of sample_holder sample_plan = Inr b"
  "\<exists>q. board_resources (h_evaluate sample_holder) (asked_resources sample_asked_hold 3600 sample_cards) sample_plan = Inr q \<and>
     sample_hold_order = hold_order sample_plan ''card'' ''1h'' q (''k'', ''c'', ''d'')"
proof -
  show "hold_named sample_holder ''cloudy'' sample_asked_hold sample_cards sample_plan = Inr ''card''"
    by (simp add: hold_named_def Let_def sample_asked_hold_def text_or_def) (simp add: sample_holder_def renter.defs)
  show "duration_seconds (ah_duration sample_asked_hold) = Inr 3600" by code_simp
  show "\<exists>b. rentable_of sample_holder sample_plan = Inr b"
    by (simp add: rentable_of_def Let_def sample_holder_simps sample_plan_def) (simp add: sample_holder_def renter.defs)
  have wall: "walltime 3600 = ''01:00:00''" by code_simp
  show "\<exists>q. board_resources (h_evaluate sample_holder) (asked_resources sample_asked_hold 3600 sample_cards) sample_plan = Inr q \<and>
     sample_hold_order = hold_order sample_plan ''card'' ''1h'' q (''k'', ''c'', ''d'')"
    by (simp add: board_resources_def Let_def sample_plan_def DEFAULTS_def sample_hold_order_def asked_resources_def
        sample_asked_hold_def sample_cards_def text_or_def text_of_def int_or_def wall)
qed

lemma sample_renting_deeds: "rn_deeds sample_renting = []"
  by (simp add: sample_renting_def watching.defs)

lemma sample_warden:
  "warden_of sample_holder ''lambda'' usd sample_keeping =
     (Inr \<lparr>cap_provider = ''lambda'', cap_bound = PREPAID, cap_limit_usd = 0\<rparr>, sample_keeping)"
proof -
  have "read_grants sample_leaving NoFile = Inr no_grants" by code_simp
  then show ?thesis
    by (simp add: warden_of_def on_lake_def on_work_def andThen_apply warden_rent_def sample_holder_simps sample_keeping_def
        sample_workspace_def backend_cap_def always_makesD(5) [OF sample_renter_makes])
qed

lemma sample_hold_runs:
  "hold_machine sample_holder rent ''cloudy'' sample_asked_hold sample_cards [] sample_keeping =
     andThen (on_lake (andThen (allocating sample_holder sample_hold_order ''not_started'') (\<lambda>rec.
        unwinding (rent sample_hold_order rec \<lparr>cap_provider = ''lambda'', cap_bound = PREPAID, cap_limit_usd = 0\<rparr>) (interrupted sample_holder rec))))
      (\<lambda>hired. unwinding (keep sample_holder ''card'' hired sample_plan 3600) (end_hold sample_holder ''card'' (rl_handle hired) ''cloudy'')) sample_keeping"
proof -
  obtain q b where asked: "board_resources (h_evaluate sample_holder) (asked_resources sample_asked_hold 3600 sample_cards) sample_plan = Inr q"
    "sample_hold_order = hold_order sample_plan ''card'' ''1h'' q (''k'', ''c'', ''d'')" "rentable_of sample_holder sample_plan = Inr b"
    using sample_hold_asks(3,4) by blast
  moreover have kind: "pf_kind (pn_profile sample_plan) = ''lambda''" "ah_duration sample_asked_hold = ''1h''" "pn_env sample_plan = []"
    by (simp_all add: sample_plan_def sample_asked_hold_def)
  moreover have "rent_hold sample_holder rent sample_plan q ''card'' ''1h'' sample_keeping =
     on_lake (andThen (allocating sample_holder sample_hold_order ''not_started'') (\<lambda>rec.
        unwinding (rent sample_hold_order rec \<lparr>cap_provider = ''lambda'', cap_bound = PREPAID, cap_limit_usd = 0\<rparr>) (interrupted sample_holder rec))) sample_keeping"
    by (simp add: rent_hold_def sample_holder_simps sample_warden asked kind andThen_apply [of "returning _"] andThen_apply [of "warden_of _ _ _"] Let_def)
  ultimately show ?thesis
    by (simp add: hold_machine_def sample_holder_simps sample_hold_asks(1,2) [unfolded \<open>ah_duration sample_asked_hold = ''1h''\<close>]
        andThen_apply [of "returning _"] andThen_apply [of "rent_hold _ _ _ _ _ _"] andThen_apply [of "on_lake _"])
qed

theorem hold_loses_no_machine_witness:
  "\<exists>host kind nm h. rn_deeds (kp_lake (snd (hold_machine sample_holder (cloud_rent sample_holder) ''cloudy'' sample_asked_hold sample_cards [] sample_keeping))) =
     [Made kind nm h] \<and>
   machine_known (kp_lake (snd (hold_machine sample_holder (cloud_rent sample_holder) ''cloudy'' sample_asked_hold sample_cards [] sample_keeping))) host kind nm h"
proof -
  let ?cap = "\<lparr>cap_provider = ''lambda'', cap_bound = PREPAID, cap_limit_usd = 0\<rparr>"
  let ?hold = "hold_machine sample_holder (cloud_rent sample_holder) ''cloudy'' sample_asked_hold sample_cards [] sample_keeping"
  let ?hire = "\<lambda>rec. unwinding (cloud_rent sample_holder sample_hold_order rec ?cap) (interrupted sample_holder rec)"
  let ?tail = "\<lambda>hired. unwinding (keep sample_holder ''card'' hired sample_plan 3600) (end_hold sample_holder ''card'' (rl_handle hired) ''cloudy'')"
  note law = always_makesD(1) [OF sample_holder_makes]
  have lake: "kp_lake sample_keeping = sample_renting" by (simp add: sample_keeping_def)
  have keyed: "keyed sample_renting"
    using sample_keyed(2) by (simp add: keyed_def sample_renting_def watching.defs sample_ledger_def center.defs sample_center_def)
  have "list_all (\<lambda>run. run_creation run \<noteq> ''mainboard-'' @ r_mint sample_holder (occasion sample_renting)) (newest sample_renting)"
    by code_simp
  then have fresh: "fresh_label sample_holder sample_renting"
    unfolding fresh_label_def list_all_iff set_newest by (blast intro: ranI)
  have "\<not> isl (fst (allocating sample_holder sample_hold_order ''not_started'' sample_renting))" by code_simp
  then obtain rec u where run: "allocating sample_holder sample_hold_order ''not_started'' sample_renting = (Inr rec, u)"
    by (cases "allocating sample_holder sample_hold_order ''not_started'' sample_renting";
        cases "fst (allocating sample_holder sample_hold_order ''not_started'' sample_renting)") simp_all
  with allocating_cases [OF keyed fresh run] have rec: "reserved_at u rec PREPARED" "rn_deeds u = rn_deeds sample_renting" by auto
  obtain x v where hired: "?hire rec u = (x, v)" by fastforce
  have "rn_deeds (snd (cloud_rent sample_holder sample_hold_order rec ?cap u)) \<noteq> rn_deeds u"
    by (rule sample_rent_makes [OF sample_holder_makes rec(1) sample_hold_order_simps]) simp
  then have made: "rn_deeds v \<noteq> []"
    using hired rec(2) sample_renting_deeds
  proof (cases rule: unwinding_cases [OF hired, case_names ok failed])
    case (failed e z)
    have "along same_deeds (interrupted sample_holder rec)" by (intro steps)
    from alongD [OF this prod.collapse [symmetric], of z] failed show ?thesis
      using rec(2) sample_renting_deeds \<open>rn_deeds (snd (cloud_rent sample_holder sample_hold_order rec ?cap u)) \<noteq> rn_deeds u\<close>
      by (simp add: same_deeds_def)
  qed simp
  have "?hold = andThen (on_lake (\<lambda>s. (x, v))) ?tail sample_keeping"
    using run hired unfolding sample_hold_runs by (simp add: andThen_apply on_lake_apply lake)
  then have run: "?hold = andThen (\<lambda>s. (x, s\<lparr>kp_lake := v\<rparr>)) ?tail sample_keeping" by (simp add: on_lake_def)
  have "lakes (remembers rec []) (sample_keeping\<lparr>kp_lake := v\<rparr>) (snd ?hold)"
  proof (cases x)
    case (Inr hired)
    have "along (lakes (remembers rec []) :: keeping \<Rightarrow> keeping \<Rightarrow> bool) (?tail hired)" unfolding unwinding_def by (intro steps)
    with run Inr show ?thesis by (simp add: andThen_apply along_def)
  qed (simp add: run andThen_apply kept_known.R_refl)
  then have "center.more (kp_lake (snd ?hold)) = center.more v" by (simp add: lakes_def remembers_def)
  then have "rn_deeds (kp_lake (snd ?hold)) = rn_deeds v" by (cases "kp_lake (snd ?hold)"; cases v) simp
  with made have "rn_deeds (kp_lake (snd ?hold)) \<noteq> rn_deeds (kp_lake sample_keeping)" by (simp add: lake sample_renting_deeds)
  then show ?thesis
    using hold_loses_no_machine [OF law _ _ _ prod.collapse [symmetric], of sample_keeping "''cloudy''" sample_asked_hold sample_cards "[]"]
      keyed fresh lake always_makesD(5) [OF sample_holder_makes] by (auto simp: sample_renting_deeds)
qed

text \<open>A hold past its deadline whose provider refuses to end the machine.\<close>

definition sample_held :: held_machine where
  "sample_held = \<lparr>hl_alias = ''card'', hl_provider = ''cloudy'', hl_handle = ''m-9'', hl_gpu = [], hl_usd_hr = None, hl_deadline = 0,
     hl_profile = pn_profile sample_plan\<rparr>"

definition sample_holding :: keeping where
  "sample_holding = sample_keeping\<lparr>kp_holds := [\<lparr>hw_ts = [], hw_alias = ''card'', hw_held = Some sample_held, hw_dropped = False\<rparr>]\<rparr>"

definition sample_refuser :: holder where
  "sample_refuser = sample_holder\<lparr>x_cancel := \<lambda>_ _ _. Some (MissionError ''busy'')\<rparr>"

theorem refused_release_stays_held_witness:
  "\<exists>t. expire_holds sample_refuser sample_holding = (Inr [], t) \<and> map_of (holdings t) = map_of (holdings sample_holding)"
proof -
  have "case fst (expire_holds sample_refuser sample_holding) of Inl e \<Rightarrow> False | Inr gone \<Rightarrow> length gone = 0" by code_simp
  then obtain t where run: "expire_holds sample_refuser sample_holding = (Inr [], t)"
    by (cases "expire_holds sample_refuser sample_holding"; cases "fst (expire_holds sample_refuser sample_holding)") simp_all
  have "named_holds sample_holding" by (simp add: named_holds_def sample_holding_def sample_held_def)
  from refused_release_stays_held [OF this run] run show ?thesis by simp
qed

end
