(* ===== verification/Reaping_Properties.thy ===== *)
theory Reaping_Properties
  imports Reaping Hold_Properties
begin

text \<open>
  What a reap pass promises: it ends or binds only a machine its label proves ours and that nothing
  owns, it does either in no dry run, and a machine whose create lost its answer is found again under
  its handle.
\<close>

section \<open>Rulings\<close>

lemma ruling_action:
  "fst (ruling w k m provider now) =
     (if kt_provider k \<noteq> provider \<or> kt_stage k = S_PREPARED then R_REPORT
      else if kt_stage k = S_SUBMITTING then (if now - kt_submitted k < GRACE then R_KEEP else R_BIND)
      else if kt_handle k \<noteq> rt_handle m then R_REPORT
      else if kt_stage k = S_DONE \<or> lapsed k now then R_END else R_KEEP)"
  by (simp add: ruling_def)

lemma ruling_ends:
  "fst (ruling w k m provider now) = R_END \<longleftrightarrow> kt_provider k = provider \<and> kt_handle k = rt_handle m \<and>
     kt_stage k \<notin> {S_PREPARED, S_SUBMITTING} \<and> (kt_stage k = S_DONE \<or> lapsed k now)"
  by (auto simp: ruling_action)

lemma ruling_binds:
  "fst (ruling w k m provider now) = R_BIND \<longleftrightarrow>
     kt_provider k = provider \<and> kt_stage k = S_SUBMITTING \<and> kt_submitted k + GRACE \<le> now"
  by (auto simp: ruling_action)

lemma judged_fields:
  "dc_provider (judged w m creation provider given now) = provider"
  "dc_rented (judged w m creation provider given now) = m"
  "dc_kept (judged w m creation provider given now) = creation"
  "dc_action (judged w m creation provider given now) =
     fst (case given of Some rule \<Rightarrow> rule
          | None \<Rightarrow> (case creation of Some k \<Rightarrow> ruling w k m provider now | None \<Rightarrow> stranger m))"
  by (simp_all add: judged_def split: prod.split)

text \<open>A selected machine is neither held nor gone, its label is listed once, and a creation of that label rules on it.\<close>

lemma spared_None: "spared m held = None \<longleftrightarrow> map_of held (rt_handle m) = None \<and> rt_status m \<noteq> GONE"
  by (auto simp: spared_def)

lemma map_of_minted: "map_of (minted ks) lbl = find (\<lambda>k. kt_label k = lbl) (rev ks)"
  unfolding minted_def by (subst map_of_folded) (simp split: option.split)

lemma mintedD:
  assumes "map_of (minted ks) lbl = Some k"
  shows "k \<in> set ks \<and> kt_label k = lbl"
proof -
  have "find P xs = Some x \<Longrightarrow> x \<in> set xs \<and> P x" for P xs and x :: kept_creation
    by (induction xs) (auto split: if_splits)
  from this [OF assms [unfolded map_of_minted]] show ?thesis by simp
qed

lemma decideD:
  assumes "d \<in> set (decide w listing provider ks held now)" and "selected d"
  obtains k where "dc_provider d = provider" and "dc_rented d \<in> set listing" and "dc_kept d = Some k"
    and "k \<in> set ks" and "kt_label k = rt_label (dc_rented d)"
    and "map_of held (rt_handle (dc_rented d)) = None" and "rt_status (dc_rented d) \<noteq> GONE"
    and "label_count listing (rt_label (dc_rented d)) \<le> 1"
    and "fst (ruling w k (dc_rented d) provider now) = dc_action d"
proof -
  let ?m = "dc_rented d"
  from assms(1) obtain m where m: "m \<in> set listing"
    and d: "d = judged w m (map_of (minted ks) (rt_label m)) provider
      (case spared m held of Some rule \<Rightarrow> Some rule | None \<Rightarrow> repeated m listing) now"
    by (auto simp: decide_def)
  note d_fields = judged_fields [of w m "map_of (minted ks) (rt_label m)" provider
      "case spared m held of Some rule \<Rightarrow> Some rule | None \<Rightarrow> repeated m listing" now, folded d]
  have spare: "spared m held = None"
  proof (rule ccontr)
    assume "spared m held \<noteq> None"
    then have "dc_action d = R_KEEP" by (auto simp: d_fields(4) spared_def split: if_splits)
    with assms(2) show False by (simp add: selected_def)
  qed
  have once: "repeated m listing = None"
  proof (rule ccontr)
    assume "repeated m listing \<noteq> None"
    then have "dc_action d = R_REPORT" by (auto simp: d_fields(4) spare repeated_def split: if_splits)
    with assms(2) show False by (simp add: selected_def)
  qed
  obtain k where k: "map_of (minted ks) (rt_label m) = Some k"
  proof (cases "map_of (minted ks) (rt_label m)")
    case None
    then have "dc_action d = R_REPORT" by (simp add: d_fields(4) spare once stranger_def)
    with assms(2) show ?thesis by (simp add: selected_def)
  qed
  have "fst (ruling w k m provider now) = dc_action d" by (simp add: d_fields(4) spare once k)
  with that [of k] d_fields(1-3) m k mintedD [OF k] spare [unfolded spared_None] once show ?thesis
    by (simp add: repeated_def split: if_splits)
qed

lemma decide_rules:
  assumes "m \<in> set listing" and "map_of (minted ks) (rt_label m) = Some k" and "spared m held = None"
    and "label_count listing (rt_label m) \<le> 1"
  shows "\<exists>d \<in> set (decide w listing provider ks held now). dc_rented d = m \<and> dc_provider d = provider \<and>
    dc_kept d = Some k \<and> dc_action d = fst (ruling w k m provider now)"
proof -
  let ?d = "judged w m (Some k) provider None now"
  have "?d \<in> set (decide w listing provider ks held now)"
    using assms by (auto simp: decide_def repeated_def intro!: image_eqI [of _ _ m])
  then show ?thesis by (intro bexI [of _ ?d]) (simp_all add: judged_fields)
qed

section \<open>What a pass decides\<close>

text \<open>The instant a pass rules at, and what a provider answers it, both after the lock and its phase are recorded.\<close>

definition reap_clock :: "'w reaper_scheme \<Rightarrow> 's keeping_scheme \<Rightarrow> int" where
  "reap_clock w s = x_clock w (lk_ticks (kp_lake s) + 3)"

definition rentals_seen :: "'w reaper_scheme \<Rightarrow> 's keeping_scheme \<Rightarrow> string \<Rightarrow> fault + rented list" where
  "rentals_seen w s provider = p_rentals w (occasion (kp_lake s) + 3) provider"

text \<open>A machine listed once under its label, by a provider that lists its rentals, neither held nor gone.\<close>

definition free_machine :: "'w reaper_scheme \<Rightarrow> 's keeping_scheme \<Rightarrow> string \<Rightarrow> rented \<Rightarrow> bool" where
  "free_machine w s provider m \<longleftrightarrow>
     (provider, True) \<in> set (p_providers w) \<and>
     (\<exists>ms. rentals_seen w s provider = Inr ms \<and> m \<in> set ms \<and> length (filter (\<lambda>x. rt_label x = rt_label m) ms) = 1) \<and>
     rt_label m \<noteq> [] \<and> rt_status m \<noteq> GONE \<and> rt_handle m \<notin> hl_handle ` snd ` set (holdings s)"

definition ruled :: "'w reaper_scheme \<Rightarrow> 's keeping_scheme \<Rightarrow> decision \<Rightarrow> bool" where
  "ruled w s d \<longleftrightarrow> (\<exists>k c. dc_kept d = Some k \<and> c \<in> ran (at_identity (kp_lake s)) \<and> kept_of w c = Inr (Some k) \<and>
     kt_label k = rt_label (dc_rented d) \<and> free_machine w s (dc_provider d) (dc_rented d) \<and>
     fst (ruling w k (dc_rented d) (dc_provider d) (reap_clock w s)) = dc_action d)"

lemma kept_ofD:
  assumes "kept_of w c = Inr (Some k)"
  shows "run_creation c \<noteq> []" "kt_label k = run_creation c" "kt_target k = run_target c" "kt_provider k = run_kind c"
    "kt_handle k = run_handle c" "kt_stage k = staged c" "kt_release_by k = map_option ls_release_by (run_lease c)"
    "p_instant w (run_submitted_at c) = Inr (kt_submitted k)"
  using assms by (cases "p_instant w (run_submitted_at c)"; auto simp: kept_of_def split: if_splits)+

lemma all_kept_member:
  "all_kept w recs = Inr ks \<Longrightarrow> k \<in> set ks \<longleftrightarrow> (\<exists>c \<in> set recs. kept_of w c = Inr (Some k))"
proof (induction recs arbitrary: ks)
  case (Cons c recs)
  from Cons.prems obtain o1 ls where "kept_of w c = Inr o1" "all_kept w recs = Inr ls"
    "ks = (case o1 of None \<Rightarrow> ls | Some x \<Rightarrow> x # ls)" by (auto split: sum.splits simp: map_sum_def)
  with Cons.IH [of ls] show ?case by (auto split: option.splits)
qed simp

lemma map_of_held: "map_of (held_handles s) h = None \<longleftrightarrow> h \<notin> hl_handle ` snd ` set (holdings s)"
proof -
  have "map_of (foldl (\<lambda>d (nm, x). AList.update (hl_handle x) nm d) d0 hs) h = None \<longleftrightarrow>
    map_of d0 h = None \<and> h \<notin> hl_handle ` snd ` set hs" for d0 hs
    by (induction hs arbitrary: d0) (auto simp: update_conv split: if_splits)
  from this [of "[]"] show ?thesis by (simp add: held_handles_def)
qed

lemma ask_rentals_state: "ask_rentals w ps listings silent s = (r, t) \<Longrightarrow> t = s"
  by (induction w ps listings silent arbitrary: s rule: ask_rentals.induct)
    (auto simp: andThen_apply split: if_splits sum.splits)

lemma ask_rentals_distinct:
  "ask_rentals w ps listings silent s = (Inr (found, unseen), t) \<Longrightarrow> distinct (map fst listings) \<Longrightarrow>
     distinct (map fst found)"
  by (induction w ps listings silent arbitrary: s rule: ask_rentals.induct)
    (auto simp: andThen_apply distinct_update split: if_splits sum.splits)

lemma ask_rentals_found:
  "ask_rentals w ps listings silent s = (Inr (found, unseen), t) \<Longrightarrow>
     map_of found p = (if (p, True) \<in> set ps
       then (case p_rentals w (occasion (kp_lake s)) p of Inr ms \<Rightarrow> Some ms | Inl _ \<Rightarrow> map_of listings p)
       else map_of listings p)"
  by (induction w ps listings silent arbitrary: s rule: ask_rentals.induct)
    (auto simp: andThen_apply update_conv split: if_splits sum.splits)

text \<open>The rulings of a pass over what the providers list, against the registry and the holds.\<close>

definition rulings_of :: "'w reaper_scheme \<Rightarrow> 's keeping_scheme \<Rightarrow> decision list \<Rightarrow> bool" where
  "rulings_of w s ds \<longleftrightarrow> (\<exists>found ks. distinct (map fst found) \<and>
     (\<forall>p ms. map_of found p = Some ms \<longleftrightarrow> (p, True) \<in> set (p_providers w) \<and> rentals_seen w s p = Inr ms) \<and>
     all_kept w (listed All [] None [] (kp_lake s)) = Inr ks \<and>
     ds = concat (map (\<lambda>(p, l). decide w l p ks (held_handles s) (reap_clock w s)) found))"

lemma all_listed: "set (listed All [] None [] s) = ran (at_identity s)"
  by (simp add: listed_def set_newest)

lemma rulings_ruled:
  assumes "rulings_of w s ds" and "d \<in> set ds" and "selected d"
  shows "ruled w s d"
proof -
  from assms(1) obtain found ks where found: "distinct (map fst found)"
      "\<And>p ms. map_of found p = Some ms \<longleftrightarrow> (p, True) \<in> set (p_providers w) \<and> rentals_seen w s p = Inr ms"
    and ks: "all_kept w (listed All [] None [] (kp_lake s)) = Inr ks"
    and ds: "ds = concat (map (\<lambda>(p, l). decide w l p ks (held_handles s) (reap_clock w s)) found)"
    unfolding rulings_of_def by blast
  from assms(2) obtain p ms where pm: "(p, ms) \<in> set found" and d: "d \<in> set (decide w ms p ks (held_handles s) (reap_clock w s))"
    unfolding ds by auto
  from pm found have seen: "(p, True) \<in> set (p_providers w)" "rentals_seen w s p = Inr ms"
    using map_of_eq_Some_iff [OF found(1), of p ms] by simp_all
  obtain k where k: "dc_provider d = p" "dc_rented d \<in> set ms" "dc_kept d = Some k" "k \<in> set ks"
    "kt_label k = rt_label (dc_rented d)" "map_of (held_handles s) (rt_handle (dc_rented d)) = None"
    "rt_status (dc_rented d) \<noteq> GONE" "label_count ms (rt_label (dc_rented d)) \<le> 1"
    "fst (ruling w k (dc_rented d) p (reap_clock w s)) = dc_action d"
    by (rule decideD [OF d assms(3)])
  from k(4) all_kept_member [OF ks] obtain c where c: "c \<in> ran (at_identity (kp_lake s))" "kept_of w c = Inr (Some k)"
    by (auto simp: all_listed)
  from kept_ofD(1,2) [OF c(2)] k(5) have label: "rt_label (dc_rented d) \<noteq> []" by simp
  let ?same = "filter (\<lambda>x. rt_label x = rt_label (dc_rented d)) ms"
  have "label_count ms (rt_label (dc_rented d)) = length ?same"
    using label unfolding label_count_def by (intro arg_cong [where f = length] filter_cong) auto
  moreover have "?same \<noteq> []" using k(2) by (auto simp: filter_empty_conv)
  ultimately have "length ?same = 1" using k(8) by (cases ?same) auto
  then have "free_machine w s p (dc_rented d)"
    using seen k(2,6,7) label by (simp add: free_machine_def map_of_held)
  with k(1,3,5,9) c show ?thesis unfolding ruled_def by blast
qed

text \<open>A free machine is ruled on by the one creation of its label.\<close>

lemma rulings_machine:
  assumes rulings: "rulings_of w s ds" and c: "creation_at (kp_lake s) c c" and kept: "kept_of w c = Inr (Some k0)"
    and m: "free_machine w s (run_kind c) m" "rt_label m = run_creation c"
  shows "\<exists>d \<in> set ds. dc_rented d = m \<and> dc_provider d = run_kind c \<and> dc_kept d = Some k0 \<and>
    dc_action d = fst (ruling w k0 m (run_kind c) (reap_clock w s))"
proof -
  from rulings obtain found ks where found: "distinct (map fst found)"
      "\<And>p ms. map_of found p = Some ms \<longleftrightarrow> (p, True) \<in> set (p_providers w) \<and> rentals_seen w s p = Inr ms"
    and ks: "all_kept w (listed All [] None [] (kp_lake s)) = Inr ks"
    and ds: "ds = concat (map (\<lambda>(p, l). decide w l p ks (held_handles s) (reap_clock w s)) found)"
    unfolding rulings_of_def by blast
  from m(1) obtain ms where seen: "(run_kind c, True) \<in> set (p_providers w)" "rentals_seen w s (run_kind c) = Inr ms"
    and in_ms: "m \<in> set ms" and once: "length (filter (\<lambda>x. rt_label x = rt_label m) ms) = 1"
    and free: "rt_status m \<noteq> GONE" "rt_handle m \<notin> hl_handle ` snd ` set (holdings s)"
    unfolding free_machine_def by blast
  note k_label = kept_ofD(2) [OF kept]
  have "c \<in> ran (at_identity (kp_lake s))" using creation_atD(2) [OF c] by (rule ranI)
  then have k: "k0 \<in> set ks" using kept all_kept_member [OF ks] by (auto simp: all_listed)
  have same: "x = k0" if "x \<in> set ks" "kt_label x = run_creation c" for x
  proof -
    from that(1) all_kept_member [OF ks] obtain y where y: "y \<in> ran (at_identity (kp_lake s))" "kept_of w y = Inr (Some x)"
      by (auto simp: all_listed)
    then obtain key where "at_identity (kp_lake s) key = Some y" by (auto simp: ran_def)
    with creation_at_unique [OF c this] kept_ofD(2) [OF y(2)] that(2) have "y = c" by simp
    with y(2) kept show "x = k0" by simp
  qed
  have "map_of (minted ks) (rt_label m) = Some k0"
    unfolding map_of_minted
  proof (rule find_unique)
    fix x y
    assume "x \<in> set (rev ks)" "y \<in> set (rev ks)" "kt_label x = rt_label m" "kt_label y = rt_label m"
    with same [of x] same [of y] m(2) show "x = y" by (simp only: set_rev)
  qed (use k k_label m(2) in simp_all)
  moreover have "spared m (held_handles s) = None" using free by (simp add: spared_None map_of_held)
  moreover have "length (filter (\<lambda>x. rt_label x \<noteq> [] \<and> rt_label x = rt_label m) ms) \<le>
      length (filter (\<lambda>x. rt_label x = rt_label m) ms)"
    by (induction ms) auto
  then have "label_count ms (rt_label m) \<le> 1" using once by (simp add: label_count_def)
  ultimately obtain d where "d \<in> set (decide w ms (run_kind c) ks (held_handles s) (reap_clock w s))"
    "dc_rented d = m" "dc_provider d = run_kind c" "dc_kept d = Some k0"
    "dc_action d = fst (ruling w k0 m (run_kind c) (reap_clock w s))"
    using decide_rules [of m ms ks k0 "held_handles s" w "run_kind c" "reap_clock w s"] in_ms by auto
  moreover have "(run_kind c, ms) \<in> set found" using found(2) seen by (metis map_of_SomeD)
  ultimately show ?thesis unfolding ds by (intro bexI [of _ d]) auto
qed

section \<open>The steps of a pass\<close>

text \<open>Only clocks were read and the lock's record written.\<close>

definition idle_step :: "'s keeping_scheme \<Rightarrow> 's keeping_scheme \<Rightarrow> bool" where
  "idle_step s t \<longleftrightarrow> kp_holds t = kp_holds s \<and> kp_work t = kp_work s \<and> kp_config t = kp_config s \<and>
     c_trace (kp_lake t) = c_trace (kp_lake s) \<and> runs_log (kp_lake t) = runs_log (kp_lake s) \<and>
     rn_deeds (kp_lake t) = rn_deeds (kp_lake s)"

lemma idle_registry:
  assumes "idle_step s t"
  shows "at_identity (kp_lake t) = at_identity (kp_lake s)" "keyed (kp_lake t) = keyed (kp_lake s)"
    "creation_at (kp_lake t) = creation_at (kp_lake s)" "holdings t = holdings s" "held_handles t = held_handles s"
    "listed o1 p l i (kp_lake t) = listed o1 p l i (kp_lake s)"
proof -
  have log: "runs_log (kp_lake t) = runs_log (kp_lake s)" using assms by (simp add: idle_step_def)
  from runs_log_determines [OF this] show "at_identity (kp_lake t) = at_identity (kp_lake s)"
    "keyed (kp_lake t) = keyed (kp_lake s)" "creation_at (kp_lake t) = creation_at (kp_lake s)" .
  show holds: "holdings t = holdings s" using assms by (simp add: idle_step_def holdings_def holds_view_def)
  then show "held_handles t = held_handles s" by (simp add: held_handles_def)
  show "listed o1 p l i (kp_lake t) = listed o1 p l i (kp_lake s)" by (simp add: listed_def newest_def runs_def log)
qed

lemma swept_cases:
  fixes w :: "'w reaper_scheme"
  assumes "reap_swept w delete s = (r, t)"
    and "idle_step s0 s" and "lk_ticks (kp_lake s) = lk_ticks (kp_lake s0) + 2"
  shows "\<exists>u. idle_step s0 u \<and> (t = u \<and> (\<forall>report. r = Inr report \<longrightarrow> \<not> delete) \<or>
    delete \<and> (\<exists>ds x. rulings_of w s0 ds \<and> applied w ds u = (x, t) \<and>
      (\<forall>report. r = Inr report \<longrightarrow> (\<exists>acted failed. x = Inr (acted, failed) \<and> rr_acted report = acted))))"
proof -
  obtain own where locked: "on_lake (phase_lock w ''reaping orphaned rentals'' []) s =
      (Inr (), s\<lparr>kp_lake := (kp_lake s)\<lparr>lk_ticks := Suc (lk_ticks (kp_lake s)), c_owner := own\<rparr>\<rparr>)"
    by (simp add: on_lake_apply phase_lock_def andThen_apply)
  let ?u = "s\<lparr>kp_lake := (kp_lake s)\<lparr>lk_ticks := Suc (lk_ticks (kp_lake s)), c_owner := own\<rparr>\<rparr>"
  let ?v = "?u\<lparr>kp_lake := (kp_lake ?u)\<lparr>lk_ticks := Suc (lk_ticks (kp_lake ?u))\<rparr>\<rparr>"
  have idle: "idle_step s0 ?u" "idle_step s0 ?v" using assms(2) by (simp_all add: idle_step_def)
  have ticks: "lk_ticks (kp_lake ?u) = lk_ticks (kp_lake s0) + 3" using assms(3) by simp
  have seen: "occasion (kp_lake ?u) = occasion (kp_lake s0) + 3"
    using ticks assms(2) by (simp add: occasion_def moment_def idle_step_def)
  obtain x y where asked: "ask_rentals w (p_providers w) [] [] ?u = (x, y)" by fastforce
  have y: "y = ?u" using ask_rentals_state [OF asked] .
  show ?thesis
  proof (cases x)
    case (Inl e)
    with assms(1) locked asked y have "t = ?u" "r = Inl e" by (simp_all add: reap_swept_def andThen_apply)
    with idle(1) show ?thesis by auto
  next
    case (Inr answers)
    then obtain found unseen where x: "x = Inr (found, unseen)" by (cases answers) auto
    note found = ask_rentals_found [OF asked [unfolded x], unfolded seen, folded rentals_seen_def]
    have distinct: "distinct (map fst found)" using ask_rentals_distinct [OF asked [unfolded x]] by simp
    show ?thesis
    proof (cases "all_kept w (listed All [] None [] (kp_lake ?u))")
      case (Inl e)
      with assms(1) locked asked y x have "t = ?u" "r = Inl e"
        by (simp_all add: reap_swept_def decided_def andThen_apply)
      with idle(1) show ?thesis by auto
    next
      case (Inr ks)
      let ?ds = "concat (map (\<lambda>(p, l). decide w l p ks (held_handles s0) (reap_clock w s0)) found)"
      have clock: "x_clock w (lk_ticks (kp_lake ?u)) = reap_clock w s0" by (simp only: ticks reap_clock_def)
      have "decided w found ?u = (Inr ?ds, ?v)"
        using Inr idle_registry(5) [OF idle(1)] clock
        by (simp only: decided_def andThen_apply reading_apply returning_apply on_lake_apply clock_now_def ret_apply
            prod.case sum.case fst_conv snd_conv)
      with assms(1) locked asked y x
      have rest: "andThen (if delete then applied w ?ds else ret ([], [])) (\<lambda>(acted, failed).
          ret \<lparr>rr_delete = delete, rr_decisions = ?ds, rr_acted = acted, rr_failed = failed,
            rr_unreached = unseen, rr_busy = False\<rparr>) ?v = (r, t)"
        by (simp only: reap_swept_def andThen_apply prod.case sum.case)
      have rulings: "rulings_of w s0 ?ds"
        unfolding rulings_of_def using distinct found Inr idle_registry(6) [OF idle(1)]
        by (intro exI [of _ found] exI [of _ ks]) (auto split: sum.split simp: map_of_eq_None_iff)
      show ?thesis
      proof (cases delete)
        case False
        with rest idle(2) show ?thesis by (intro exI [of _ ?v]) (auto simp: andThen_apply)
      next
        case True
        obtain z t' where went: "applied w ?ds ?v = (z, t')" by fastforce
        with rest True have "t' = t" by (auto simp: andThen_apply split: sum.splits)
        moreover have "\<exists>acted failed. z = Inr (acted, failed) \<and> rr_acted report = acted" if "r = Inr report" for report
          using rest True went that by (auto simp: andThen_apply split: sum.splits)
        ultimately show ?thesis using True rulings went idle(2) by (intro exI [of _ ?v]) blast
      qed
    qed
  qed
qed

lemma reap_once_cases:
  assumes "reap_once w delete s = (r, t)"
  shows "\<exists>u. idle_step s u \<and> (t = u \<and> (\<forall>report. r = Inr report \<longrightarrow> \<not> delete \<or> rr_busy report) \<or>
    delete \<and> (\<exists>ds x. rulings_of w s ds \<and> applied w ds u = (x, t) \<and>
      (\<forall>report. r = Inr report \<longrightarrow> (\<exists>acted failed. x = Inr (acted, failed) \<and> rr_acted report = acted))))"
proof (cases "x_holder w (moment (kp_lake s))")
  case (Some busy)
  with assms have "t = s" "\<And>report. r = Inr report \<Longrightarrow> rr_busy report"
    by (auto simp: reap_once_def andThen_apply on_lake_apply)
  then show ?thesis by (intro exI [of _ s]) (auto simp: idle_step_def)
next
  case None
  obtain own where "on_lake (acquired w) s =
      (Inr (), s\<lparr>kp_lake := (kp_lake s)\<lparr>lk_ticks := lk_ticks (kp_lake s) + 2, c_owner := own\<rparr>\<rparr>)"
    by (simp add: on_lake_apply acquired_def phase_lock_def andThen_apply)
  with None assms have "reap_swept w delete (s\<lparr>kp_lake := (kp_lake s)\<lparr>lk_ticks := lk_ticks (kp_lake s) + 2, c_owner := own\<rparr>\<rparr>) = (r, t)"
    by (simp add: reap_once_def andThen_apply on_lake_apply [of "reading _"])
  from swept_cases [OF this, of s] show ?thesis by (auto simp: idle_step_def)
qed

text \<open>Creations took the handle of a machine of their label, and nothing else was recorded.\<close>

definition bound_only :: "(string \<times> string) set \<Rightarrow> 's lake_scheme \<Rightarrow> 's lake_scheme \<Rightarrow> bool" where
  "bound_only B s t \<longleftrightarrow> (keyed s \<longrightarrow> keyed t \<and> (\<forall>c \<in> ran (at_identity t). c \<in> ran (at_identity s) \<or>
     (\<exists>c0 \<in> ran (at_identity s). \<exists>h. run_verdict c0 = Some (word_text SUBMITTING) \<and>
        (run_creation c0, h) \<in> B \<and> c = bound_to c0 h)))"

text \<open>Nothing was asked of the world but to end some machines.\<close>

definition ended_only :: "(string \<times> string) set \<Rightarrow> 's center_scheme \<Rightarrow> 's center_scheme \<Rightarrow> bool" where
  "ended_only E s t \<longleftrightarrow> (\<exists>es. c_trace t = c_trace s @ es \<and>
     (\<forall>e \<in> set es. \<exists>p h. (p, h) \<in> E \<and> e \<in> {Cancelled p h, Uncancelled p h}))"

definition reap_left :: "(string \<times> string) set \<Rightarrow> (string \<times> string) set \<Rightarrow> 's keeping_scheme \<Rightarrow> 's keeping_scheme \<Rightarrow> bool" where
  "reap_left B E s t \<longleftrightarrow> kp_holds t = kp_holds s \<and> kp_work t = kp_work s \<and> kp_config t = kp_config s \<and>
     rn_deeds (kp_lake t) = rn_deeds (kp_lake s) \<and> bound_only B (kp_lake s) (kp_lake t) \<and> ended_only E (kp_lake s) (kp_lake t)"

lemma bound_to_queued: "run_verdict (bound_to c h) = Some (word_text QUEUED)"
  by (simp add: bound_to_def)

lemma bound_only_same: "runs_log t = runs_log s \<Longrightarrow> bound_only B s t"
  by (simp add: bound_only_def runs_log_determines [of t s])

lemma bound_only_trans:
  assumes "bound_only B s t" and "bound_only B t u"
  shows "bound_only B s u"
  unfolding bound_only_def
proof (intro impI conjI ballI)
  assume keyed: "keyed s"
  with assms show "keyed u" by (simp add: bound_only_def)
  fix c
  assume "c \<in> ran (at_identity u)"
  with assms keyed have "c \<in> ran (at_identity t) \<or> (\<exists>c0 \<in> ran (at_identity t). \<exists>h. run_verdict c0 = Some (word_text SUBMITTING) \<and>
        (run_creation c0, h) \<in> B \<and> c = bound_to c0 h)" by (simp add: bound_only_def)
  moreover have earlier: "x \<in> ran (at_identity s) \<or> (\<exists>c0 \<in> ran (at_identity s). \<exists>h. run_verdict c0 = Some (word_text SUBMITTING) \<and>
        (run_creation c0, h) \<in> B \<and> x = bound_to c0 h)" if "x \<in> ran (at_identity t)" for x
    using that assms(1) keyed by (simp add: bound_only_def)
  moreover have "x \<in> ran (at_identity s)" if "x \<in> ran (at_identity t)" "run_verdict x = Some (word_text SUBMITTING)" for x
    using earlier [OF that(1)] that(2) bound_to_queued by fastforce
  ultimately show "c \<in> ran (at_identity s) \<or> (\<exists>c0 \<in> ran (at_identity s). \<exists>h. run_verdict c0 = Some (word_text SUBMITTING) \<and>
        (run_creation c0, h) \<in> B \<and> c = bound_to c0 h)" by blast
qed

lemma ended_only_same: "c_trace t = c_trace s \<Longrightarrow> ended_only E s t"
  by (simp add: ended_only_def)

lemma ended_only_trans:
  assumes "ended_only E s t" and "ended_only E t u"
  shows "ended_only E s u"
proof -
  from assms obtain es fs where "c_trace t = c_trace s @ es" "c_trace u = c_trace t @ fs"
    "\<forall>e \<in> set es. \<exists>p h. (p, h) \<in> E \<and> e \<in> {Cancelled p h, Uncancelled p h}"
    "\<forall>e \<in> set fs. \<exists>p h. (p, h) \<in> E \<and> e \<in> {Cancelled p h, Uncancelled p h}" unfolding ended_only_def by blast
  then show ?thesis unfolding ended_only_def by (intro exI [of _ "es @ fs"]) auto
qed

interpretation reaping: step_preorder "reap_left B E" for B E
  by unfold_locales (auto simp: reap_left_def bound_only_same ended_only_same intro: bound_only_trans ended_only_trans)

lemma idle_left: "idle_step s t \<Longrightarrow> reap_left B E s t"
  by (simp add: reap_left_def idle_step_def bound_only_same ended_only_same)

lemma named_cases:
  assumes "keyed s"
  shows "(\<exists>e. named lbl target s = (Inl e, s)) \<or>
    (\<exists>rec. named lbl target s = (Inr rec, s) \<and> at_identity s (identity rec) = Some rec \<and> run_creation rec = lbl)"
proof (cases "find (\<lambda>run. run_creation run = lbl) (on_target (Some target) s)")
  case None
  then show ?thesis by (simp add: named_def andThen_apply)
next
  case (Some rec)
  then have "rec \<in> set (on_target (Some target) s)" "run_creation rec = lbl" by (auto simp: find_Some_iff)
  then have "rec \<in> ran (at_identity s)" by (simp add: set_on_target [OF assms])
  then obtain key where key: "at_identity s key = Some rec" by (auto simp: ran_def)
  with at_identity_key [OF assms key] Some \<open>run_creation rec = lbl\<close> show ?thesis by (simp add: named_def andThen_apply)
qed

lemma named_state: "snd (named lbl target s) = s"
  by (simp add: named_def andThen_apply split: option.split)

lemma named_refuses: "fst (named lbl target s) = Inl e \<Longrightarrow> is_lookup e"
  by (auto simp: named_def andThen_apply split: option.splits)

text \<open>A bind that goes through takes a submitting creation to its handle; one that does not changes nothing.\<close>

lemma created_cases:
  assumes "at_identity s (identity rec) = Some rec"
  shows "(\<exists>e. created w rec h s = (Inl e, s) \<and> reap_fault e) \<or>
    (\<exists>t. created w rec h s = (Inr h, t) \<and> run_verdict rec = Some (word_text SUBMITTING) \<and> (keyed t \<longleftrightarrow> keyed s) \<and>
      at_identity t = (at_identity s)(identity rec := None, identity (bound_to rec h) := Some (bound_to rec h)))"
proof (cases "(h = [] \<or> h = ''None'') \<or> run_verdict rec \<noteq> Some (word_text SUBMITTING)")
  case True
  then show ?thesis
    using bind_apply_missing [of s rec w h] assms
    by (auto simp: created_def andThen_apply reap_fault_def bind_missing_def)
next
  case False
  then obtain t where "bind w rec h s = (Inr (bound_to rec h), t)"
    "at_identity t = (at_identity s)(identity rec := None, identity (bound_to rec h) := Some (bound_to rec h))"
    "keyed t \<longleftrightarrow> keyed s" using bind_apply [OF assms] by metis
  with False show ?thesis by (simp add: created_def andThen_apply)
qed

lemma bind_machine_bound: "along (bound_only {(lbl, h)}) (bind_machine w lbl target h)"
proof (rule alongI)
  fix s :: "'a lake_scheme"
  show "bound_only {(lbl, h)} s (snd (bind_machine w lbl target h s))"
  proof (cases "keyed s")
    case False
    then show ?thesis by (simp add: bound_only_def)
  next
    case keyed: True
    from named_cases [OF this, of lbl target] show ?thesis
    proof (elim disjE exE conjE)
      fix e
      assume "named lbl target s = (Inl e, s)"
      then show ?thesis by (simp add: bind_machine_def andThen_apply bound_only_same)
    next
      fix rec
      assume rec: "named lbl target s = (Inr rec, s)" "at_identity s (identity rec) = Some rec" "run_creation rec = lbl"
      from created_cases [OF rec(2), of w h] show ?thesis
      proof (elim disjE exE conjE)
        fix e
        assume "created w rec h s = (Inl e, s)"
        with rec(1) show ?thesis by (simp add: bind_machine_def andThen_apply bound_only_same)
      next
        fix t
        assume t: "created w rec h s = (Inr h, t)" "run_verdict rec = Some (word_text SUBMITTING)" "keyed t = keyed s"
          "at_identity t = (at_identity s)(identity rec := None, identity (bound_to rec h) := Some (bound_to rec h))"
        have "bound_only {(lbl, h)} s t"
          unfolding bound_only_def using t(2-4) rec(2,3) ranI [of "at_identity s", OF rec(2)]
          by (auto simp: ran_def split: if_splits)
        with t(1) rec(1) show ?thesis by (simp add: bind_machine_def andThen_apply)
      qed
    qed
  qed
qed

section \<open>What a pass ends and binds\<close>

context step_preorder
begin

lemma along_each_in: "(\<And>x. x \<in> set xs \<Longrightarrow> along R (f x)) \<Longrightarrow> along R (each f xs)"
  by (induction xs) (auto intro!: along_pure along_andThen)

end

text \<open>An operation of the registry leaves everything beside the lake's own logs.\<close>

definition same_more :: "'s lake_scheme \<Rightarrow> 's lake_scheme \<Rightarrow> bool" where
  "same_more s t \<longleftrightarrow> lake.more t = lake.more s"

interpretation beside: step_preorder same_more
  by unfold_locales (simp_all add: same_more_def)

lemma more_primitive [steps]: "along same_more (now_text w)" "along same_more (append_runs rows)"
  by (simp_all add: along_def same_more_def append_runs_def)

lemma more_bind_machine [steps]: "along same_more (bind_machine w lbl target h)"
  unfolding bind_machine_def named_def created_def bind_def row_of_def Let_def by (intro steps)+

lemma same_more_fields:
  assumes "same_more s (t :: 's renting_scheme)"
  shows "c_trace t = c_trace s" "rn_deeds t = rn_deeds s"
  using assms by (cases s; cases t; simp add: same_more_def)+

lemma bound_only_mono: "bound_only B s t \<Longrightarrow> B \<subseteq> B' \<Longrightarrow> bound_only B' s t"
  unfolding bound_only_def by blast

lemma reap_bind_left:
  assumes "\<And>k. dc_kept d = Some k \<Longrightarrow> (kt_label k, rt_handle (dc_rented d)) \<in> B"
  shows "along (reap_left B E :: 's keeping_scheme \<Rightarrow> 's keeping_scheme \<Rightarrow> bool) (reap_bind w d)"
proof (cases "dc_kept d")
  case None
  then show ?thesis by (simp add: reap_bind_def reaping.along_pure)
next
  case (Some k)
  let ?m = "bind_machine w (kt_label k) (kt_target k) (rt_handle (dc_rented d))"
  show ?thesis
  proof (rule alongI)
    fix s :: "'s keeping_scheme"
    have "same_more (kp_lake s) (snd (?m (kp_lake s)))" by (rule alongD [OF more_bind_machine surjective_pairing])
    from same_more_fields [OF this]
    have "c_trace (snd (?m (kp_lake s))) = c_trace (kp_lake s)" "rn_deeds (snd (?m (kp_lake s))) = rn_deeds (kp_lake s)" .
    moreover have "bound_only {(kt_label k, rt_handle (dc_rented d))} (kp_lake s) (snd (?m (kp_lake s)))"
      by (rule alongD [OF bind_machine_bound surjective_pairing])
    from bound_only_mono [OF this] assms [OF Some] have "bound_only B (kp_lake s) (snd (?m (kp_lake s)))" by simp
    ultimately show "reap_left B E s (snd (reap_bind w d s))"
      by (simp add: reap_bind_def Some on_lake_apply reap_left_def ended_only_same)
  qed
qed

lemma reap_end_left:
  assumes "(p, h) \<in> E"
  shows "along (reap_left B E :: 's keeping_scheme \<Rightarrow> 's keeping_scheme \<Rightarrow> bool) (on_lake (backend_cancel w p h))"
proof (rule alongI)
  fix s :: "'s keeping_scheme"
  let ?t = "snd (backend_cancel w p h (kp_lake s))"
  have "runs_log ?t = runs_log (kp_lake s)" "rn_deeds ?t = rn_deeds (kp_lake s)"
    by (auto simp: backend_cancel_def andThen_apply doing_def split: option.split)
  moreover have "\<exists>e. c_trace ?t = c_trace (kp_lake s) @ [e] \<and> e \<in> {Cancelled p h, Uncancelled p h}"
    by (auto simp: backend_cancel_def andThen_apply doing_def split: option.split)
  then have "ended_only E (kp_lake s) ?t" using assms unfolding ended_only_def by auto
  ultimately show "reap_left B E s (snd (on_lake (backend_cancel w p h) s))"
    by (simp add: on_lake_apply reap_left_def bound_only_same)
qed

lemma attempt_left:
  assumes "selected d" and "\<And>k. dc_action d = R_BIND \<Longrightarrow> dc_kept d = Some k \<Longrightarrow> (kt_label k, rt_handle (dc_rented d)) \<in> B"
    and "dc_action d = R_END \<Longrightarrow> (dc_provider d, rt_handle (dc_rented d)) \<in> E"
  shows "along (reap_left B E) (attempt w d)"
proof -
  have "along (reap_left B E) (reap_apply w d)"
    using assms reap_bind_left [of d B E w] reap_end_left [of _ _ E B w] by (auto simp: reap_apply_def selected_def)
  then show ?thesis unfolding attempt_def by (intro reaping.along_trying reaping.along_andThen reaping.along_pure)
qed

lemma applied_left:
  assumes "\<And>d k. d \<in> set ds \<Longrightarrow> dc_action d = R_BIND \<Longrightarrow> dc_kept d = Some k \<Longrightarrow> (kt_label k, rt_handle (dc_rented d)) \<in> B"
    and "\<And>d. d \<in> set ds \<Longrightarrow> dc_action d = R_END \<Longrightarrow> (dc_provider d, rt_handle (dc_rented d)) \<in> E"
  shows "along (reap_left B E) (applied w ds)"
  unfolding applied_def
  by (intro reaping.along_andThen reaping.along_each_in reaping.along_pure attempt_left) (use assms in auto)

text \<open>The registry says nothing owns the machine of this label and handle any more.\<close>

definition unowned :: "'w reaper_scheme \<Rightarrow> 's keeping_scheme \<Rightarrow> string \<Rightarrow> rented \<Rightarrow> bool" where
  "unowned w s provider m \<longleftrightarrow> (\<exists>c \<in> ran (at_identity (kp_lake s)). run_creation c = rt_label m \<and> run_kind c = provider \<and>
     run_handle c = rt_handle m \<and> run_verdict c \<notin> {Some (word_text PREPARED), Some (word_text SUBMITTING)} \<and>
     (settled_opt (run_verdict c) \<and> run_reported c = run_verdict c \<or>
      (\<exists>l. run_lease c = Some l \<and> ls_release_by l + GRACE < reap_clock w s)))"

text \<open>A create of this label was sent more than the grace ago, and its answer never recorded.\<close>

definition lost_create :: "'w reaper_scheme \<Rightarrow> 's keeping_scheme \<Rightarrow> string \<Rightarrow> rented \<Rightarrow> bool" where
  "lost_create w s provider m \<longleftrightarrow> (\<exists>c \<in> ran (at_identity (kp_lake s)). run_creation c = rt_label m \<and> run_kind c = provider \<and>
     run_verdict c = Some (word_text SUBMITTING) \<and>
     (\<exists>i. p_instant w (run_submitted_at c) = Inr i \<and> i + GRACE \<le> reap_clock w s))"

lemma staged_cases:
  "staged c = S_SUBMITTING \<longleftrightarrow> run_verdict c = Some (word_text SUBMITTING)"
  "staged c = S_PREPARED \<longleftrightarrow> run_verdict c = Some (word_text PREPARED)"
  "staged c = S_DONE \<Longrightarrow> settled_opt (run_verdict c) \<and> run_reported c = run_verdict c"
  by (auto simp: staged_def text_of_def settled_opt_def settled_text_def settled_words_eq Let_def split: option.splits if_splits)

lemma ruled_ends:
  assumes "ruled w s d" and "dc_action d = R_END"
  shows "free_machine w s (dc_provider d) (dc_rented d) \<and> unowned w s (dc_provider d) (dc_rented d)"
proof -
  from assms obtain k c where c: "c \<in> ran (at_identity (kp_lake s))" "kept_of w c = Inr (Some k)"
    "kt_label k = rt_label (dc_rented d)" "free_machine w s (dc_provider d) (dc_rented d)"
    "fst (ruling w k (dc_rented d) (dc_provider d) (reap_clock w s)) = R_END" by (auto simp: ruled_def)
  note k = kept_ofD [OF c(2)] and rule = c(5) [unfolded ruling_ends]
  have "unowned w s (dc_provider d) (dc_rented d)"
    unfolding unowned_def
  proof (intro bexI [OF _ c(1)] conjI)
    show "run_verdict c \<notin> {Some (word_text PREPARED), Some (word_text SUBMITTING)}"
      using rule k(6) staged_cases(1,2) [of c] by auto
    show "settled_opt (run_verdict c) \<and> run_reported c = run_verdict c \<or>
      (\<exists>l. run_lease c = Some l \<and> ls_release_by l + GRACE < reap_clock w s)"
      using rule k(6,7) staged_cases(3) [of c] by (cases "run_lease c") (auto simp: lapsed_def)
  qed (use rule k c(3) in simp_all)
  with c(4) show ?thesis by simp
qed

lemma ruled_binds:
  assumes "ruled w s d" and "dc_action d = R_BIND"
  shows "\<exists>k. dc_kept d = Some k \<and> kt_label k = rt_label (dc_rented d) \<and>
    free_machine w s (dc_provider d) (dc_rented d) \<and> lost_create w s (dc_provider d) (dc_rented d)"
proof -
  from assms obtain k c where c: "dc_kept d = Some k" "c \<in> ran (at_identity (kp_lake s))" "kept_of w c = Inr (Some k)"
    "kt_label k = rt_label (dc_rented d)" "free_machine w s (dc_provider d) (dc_rented d)"
    "fst (ruling w k (dc_rented d) (dc_provider d) (reap_clock w s)) = R_BIND" by (auto simp: ruled_def)
  note k = kept_ofD [OF c(3)] and rule = c(6) [unfolded ruling_binds]
  have "lost_create w s (dc_provider d) (dc_rented d)"
    unfolding lost_create_def using rule k c(4) staged_cases(1) [of c]
    by (intro bexI [OF _ c(2)]) simp
  with c show ?thesis by blast
qed

text \<open>
  C14. A reap pass touches only what its labels prove ours and nothing owns. It asks an end of a machine only
  when the pass deletes, its provider lists it once under a label a creation through that provider
  recorded here, with the handle that record carries, it is neither held nor gone, and that record
  settled and was reported or its lease ran out more than the grace ago. It changes the registry only by
  giving a creation whose answer was lost the handle of the machine listed under its label. A dry run, or a
  pass that finds the lock taken, does neither; holds, aliases and grants stay as they were.
\<close>

theorem reap_ends_only_ours:
  assumes "keyed (kp_lake s)" and "reap_once w delete s = (r, t)"
  shows "holdings t = holdings s \<and> kp_config t = kp_config s \<and> kp_work t = kp_work s \<and>
    (\<exists>es. c_trace (kp_lake t) = c_trace (kp_lake s) @ es \<and>
      (\<forall>e \<in> set es. delete \<and> (\<exists>p m. e \<in> {Cancelled p (rt_handle m), Uncancelled p (rt_handle m)} \<and>
        free_machine w s p m \<and> unowned w s p m))) \<and>
    (\<forall>c \<in> ran (at_identity (kp_lake t)). c \<in> ran (at_identity (kp_lake s)) \<or>
      (\<exists>c0 \<in> ran (at_identity (kp_lake s)). \<exists>p m. delete \<and> run_verdict c0 = Some (word_text SUBMITTING) \<and>
        run_creation c0 = rt_label m \<and> c = bound_to c0 (rt_handle m) \<and> free_machine w s p m \<and> lost_create w s p m))"
proof -
  let ?B = "{(rt_label m, rt_handle m) | m. delete \<and> (\<exists>p. free_machine w s p m \<and> lost_create w s p m)}"
  let ?E = "{(p, rt_handle m) | p m. delete \<and> free_machine w s p m \<and> unowned w s p m}"
  from reap_once_cases [OF assms(2)] obtain u where u: "idle_step s u"
    and rest: "t = u \<or> delete \<and> (\<exists>ds x. rulings_of w s ds \<and> applied w ds u = (x, t))" by fast
  from rest have "reap_left ?B ?E u t"
  proof (elim disjE conjE exE)
    fix ds x
    assume ds: "rulings_of w s ds" "applied w ds u = (x, t)" "delete"
    have ruled: "ruled w s d" if "d \<in> set ds" "dc_action d \<in> {R_BIND, R_END}" for d
      using rulings_ruled [OF ds(1) that(1)] that(2) by (simp add: selected_def)
    have "along (reap_left ?B ?E) (applied w ds)"
      by (rule applied_left) (use ruled ruled_ends ruled_binds \<open>delete\<close> in fastforce)+
    from alongD [OF this ds(2)] show ?thesis .
  qed (simp add: reaping.R_refl)
  with idle_left [OF u] have left: "reap_left ?B ?E s t" by (rule reaping.R_trans)
  then have "holdings t = holdings s" by (simp add: reap_left_def holdings_def holds_view_def)
  moreover from left obtain es where "c_trace (kp_lake t) = c_trace (kp_lake s) @ es"
    "\<forall>e \<in> set es. \<exists>p h. (p, h) \<in> ?E \<and> e \<in> {Cancelled p h, Uncancelled p h}" unfolding reap_left_def ended_only_def by blast
  then have "\<exists>es. c_trace (kp_lake t) = c_trace (kp_lake s) @ es \<and>
      (\<forall>e \<in> set es. delete \<and> (\<exists>p m. e \<in> {Cancelled p (rt_handle m), Uncancelled p (rt_handle m)} \<and>
        free_machine w s p m \<and> unowned w s p m))" by (intro exI [of _ es]) blast
  moreover from left assms(1) have "\<forall>c \<in> ran (at_identity (kp_lake t)). c \<in> ran (at_identity (kp_lake s)) \<or>
     (\<exists>c0 \<in> ran (at_identity (kp_lake s)). \<exists>h. run_verdict c0 = Some (word_text SUBMITTING) \<and>
        (run_creation c0, h) \<in> ?B \<and> c = bound_to c0 h)" unfolding reap_left_def bound_only_def by blast
  then have "\<forall>c \<in> ran (at_identity (kp_lake t)). c \<in> ran (at_identity (kp_lake s)) \<or>
      (\<exists>c0 \<in> ran (at_identity (kp_lake s)). \<exists>p m. delete \<and> run_verdict c0 = Some (word_text SUBMITTING) \<and>
        run_creation c0 = rt_label m \<and> c = bound_to c0 (rt_handle m) \<and> free_machine w s p m \<and> lost_create w s p m)" by blast
  ultimately show ?thesis using left by (simp add: reap_left_def)
qed

section \<open>A lost machine is found\<close>

text \<open>A loop one of whose elements moves the state from \<open>P\<close> to \<open>Q\<close>, where every other stays.\<close>

lemma each_moves:
  assumes "each f xs s = (Inr ys, t)" and "a \<in> set xs" and "a \<in> A" and "P s"
    and "\<And>x u y v. x \<in> set xs \<Longrightarrow> x \<in> A \<Longrightarrow> P u \<Longrightarrow> f x u = (Inr y, v) \<Longrightarrow> Q v \<and> good y"
    and "\<And>x u y v. x \<in> set xs \<Longrightarrow> x \<notin> A \<Longrightarrow> P u \<Longrightarrow> f x u = (Inr y, v) \<Longrightarrow> P v"
    and "\<And>x u y v. x \<in> set xs \<Longrightarrow> Q u \<Longrightarrow> f x u = (Inr y, v) \<Longrightarrow> Q v"
  shows "Q t \<and> (\<exists>y \<in> set ys. good y)"
proof -
  have stays: "each f zs u = (Inr ws, v) \<Longrightarrow> set zs \<subseteq> set xs \<Longrightarrow> Q u \<Longrightarrow> Q v" for zs u ws v
  proof (induction zs arbitrary: u ws)
    case (Cons z zs)
    from Cons.prems(1) obtain y b ws' where "f z u = (Inr y, b)" "each f zs b = (Inr ws', v)"
      by (auto elim!: andThen_InrE)
    with Cons assms(7) show ?case by auto
  qed auto
  have "each f zs u = (Inr ws, v) \<Longrightarrow> set zs \<subseteq> set xs \<Longrightarrow> a \<in> set zs \<Longrightarrow> P u \<Longrightarrow> Q v \<and> (\<exists>y \<in> set ws. good y)" for zs u ws v
  proof (induction zs arbitrary: u ws)
    case (Cons z zs)
    from Cons.prems(1) obtain y b ws' where z: "f z u = (Inr y, b)" "each f zs b = (Inr ws', v)" "ws = y # ws'"
      by (auto elim!: andThen_InrE)
    show ?case
    proof (cases "z \<in> A")
      case True
      with assms(5) [OF _ True Cons.prems(4) z(1)] Cons.prems(2) have "Q b" "good y" by auto
      with stays [OF z(2)] Cons.prems(2) z(3) show ?thesis by auto
    next
      case False
      with assms(6) [OF _ False Cons.prems(4) z(1)] Cons.prems(2) have "P b" by simp
      with Cons.IH [OF z(2)] Cons.prems(2,3) False assms(3) z(3) show ?thesis by auto
    qed
  qed simp
  from this [OF assms(1)] assms(2,4) show ?thesis by simp
qed

lemma ruled_ours:
  assumes "ruled w s d" and "selected d" and c: "creation_at (kp_lake s) c c" "run_verdict c = Some (word_text SUBMITTING)"
    and m: "free_machine w s (run_kind c) m" "rt_label m = run_creation c" and "rt_label (dc_rented d) = run_creation c"
  shows "dc_action d = R_BIND \<and> dc_rented d = m \<and>
    (\<exists>k. dc_kept d = Some k \<and> kt_label k = run_creation c \<and> kt_target k = run_target c)"
proof -
  from assms(1) obtain k x where k: "dc_kept d = Some k" "x \<in> ran (at_identity (kp_lake s))" "kept_of w x = Inr (Some k)"
    "kt_label k = rt_label (dc_rented d)" "free_machine w s (dc_provider d) (dc_rented d)"
    "fst (ruling w k (dc_rented d) (dc_provider d) (reap_clock w s)) = dc_action d" by (auto simp: ruled_def)
  from k(2) obtain key where "at_identity (kp_lake s) key = Some x" by (auto simp: ran_def)
  with creation_at_unique [OF c(1) this] kept_ofD(2) [OF k(3)] k(4) assms(7) have "x = c" by simp
  note f = kept_ofD [OF k(3) [unfolded this]]
  have stage: "kt_stage k = S_SUBMITTING" using f(6) c(2) staged_cases(1) by simp
  have bind: "dc_action d = R_BIND"
    using assms(2) k(6) stage ruling_ends [of w k "dc_rented d" "dc_provider d" "reap_clock w s"]
    by (auto simp: selected_def)
  with k(6) have "kt_provider k = dc_provider d" by (simp add: ruling_binds)
  with f(4) k(5) m obtain ms where ms: "m \<in> set ms" "dc_rented d \<in> set ms"
    "length (filter (\<lambda>x. rt_label x = rt_label m) ms) = 1" unfolding free_machine_def by auto
  then obtain only where only: "filter (\<lambda>x. rt_label x = rt_label m) ms = [only]" by (auto simp: length_Suc_conv)
  have "m \<in> set (filter (\<lambda>x. rt_label x = rt_label m) ms)" "dc_rented d \<in> set (filter (\<lambda>x. rt_label x = rt_label m) ms)"
    using ms assms(7) m(2) by auto
  then have "dc_rented d = m" unfolding only by simp
  with bind k(1) f(2,3) show ?thesis by simp
qed

lemma reap_bind_lost:
  assumes "creation_at (kp_lake u) c c" and "run_verdict c = Some (word_text SUBMITTING)"
    and d: "dc_action d = R_BIND" "dc_kept d = Some k" "kt_label k = run_creation c" "kt_target k = run_target c"
    and h: "rt_handle (dc_rented d) \<notin> {[], ''None''}"
  shows "\<exists>t. attempt w d u = (Inr [], t) \<and> creation_at (kp_lake t) c (bound_to c (rt_handle (dc_rented d)))"
proof -
  let ?h = "rt_handle (dc_rented d)"
  obtain l where l: "bind w c ?h (kp_lake u) = (Inr (bound_to c ?h), l)" "creation_at l c (bound_to c ?h)"
    using creation_at_bind [OF assms(1) refl assms(2)] by metis
  have "attempt w d u = (Inr [], u\<lparr>kp_lake := l\<rparr>)"
    using d h l(1) creation_at_named [OF assms(1)]
    by (simp add: attempt_def reap_apply_def reap_bind_def bind_machine_def created_def on_lake_apply andThen_apply trying_apply)
  with l(2) show ?thesis by simp
qed

lemma reap_bind_found:
  assumes "creation_at (kp_lake u) c (bound_to c h)"
    and d: "dc_action d = R_BIND" "dc_kept d = Some k" "kt_label k = run_creation c" "kt_target k = run_target c"
    and "attempt w d u = (r, t)"
  shows "creation_at (kp_lake t) c (bound_to c h)"
proof -
  note same = creation_at_named [OF assms(1)] creation_atD(2) [OF assms(1)]
  from created_cases [OF same(2), of w "rt_handle (dc_rented d)"] bound_to_queued [of c h] obtain e
    where "created w (bound_to c h) (rt_handle (dc_rented d)) (kp_lake u) = (Inl e, kp_lake u)" by auto
  with same(1) d assms(6) have "kp_lake t = kp_lake u"
    by (auto simp: attempt_def reap_apply_def reap_bind_def bind_machine_def on_lake_apply andThen_apply trying_apply
        split: if_splits)
  with assms(1) show ?thesis by simp
qed

lemma attempt_other:
  assumes at: "creation_at (kp_lake u) c x" and "run_handle x \<noteq> rt_handle (dc_rented d)"
    and "\<And>k. dc_action d = R_BIND \<Longrightarrow> dc_kept d = Some k \<Longrightarrow> kt_label k \<noteq> run_creation c"
    and "attempt w d u = (r, t)"
  shows "creation_at (kp_lake t) c x"
proof -
  let ?h = "rt_handle (dc_rented d)"
  obtain y v where done1: "reap_apply w d u = (y, v)" by fastforce
  with assms(4) have t: "t = v" by (cases y) (auto simp: attempt_def andThen_apply trying_apply split: if_splits)
  show ?thesis
  proof (cases "dc_action d = R_BIND")
    case False
    with done1 have "runs_log (kp_lake v) = runs_log (kp_lake u)"
      by (auto simp: reap_apply_def on_lake_apply backend_cancel_def andThen_apply doing_def split: option.splits)
    with t at runs_log_determines(3) [of "kp_lake v" "kp_lake u"] show ?thesis by simp
  next
    case bind: True
    show ?thesis
    proof (cases "dc_kept d")
      case None
      with bind done1 t at show ?thesis by (simp add: reap_apply_def reap_bind_def)
    next
      case (Some k)
      let ?l = "kp_lake u"
      have v: "kp_lake v = snd (bind_machine w (kt_label k) (kt_target k) ?h ?l)"
        using bind Some done1 by (auto simp: reap_apply_def reap_bind_def on_lake_apply)
      from named_cases [OF creation_atD(1) [OF at], of "kt_label k" "kt_target k"] show ?thesis
      proof (elim disjE exE conjE)
        fix e
        assume "named (kt_label k) (kt_target k) ?l = (Inl e, ?l)"
        with v t at show ?thesis by (simp add: bind_machine_def andThen_apply)
      next
        fix rec
        assume rec: "named (kt_label k) (kt_target k) ?l = (Inr rec, ?l)" "at_identity ?l (identity rec) = Some rec"
          "run_creation rec = kt_label k"
        from created_cases [OF rec(2), of w ?h] show ?thesis
        proof (elim disjE exE conjE)
          fix e
          assume "created w rec ?h ?l = (Inl e, ?l)"
          with v t at rec(1) show ?thesis by (simp add: bind_machine_def andThen_apply)
        next
          fix l
          assume l: "created w rec ?h ?l = (Inr ?h, l)" "keyed l = keyed ?l"
            "at_identity l = (at_identity ?l)(identity rec := None, identity (bound_to rec ?h) := Some (bound_to rec ?h))"
          have other: "run_creation rec \<noteq> run_creation c" using rec(3) assms(3) [OF bind Some] by simp
          then have "identity rec \<noteq> identity x" using rec(2) creation_atD(2,3) [OF at] by (metis option.inject)
          moreover have "identity (bound_to rec ?h) \<noteq> identity x" using assms(2) by (auto simp: identity_def bound_to_def)
          ultimately have "creation_at l c x"
          proof (intro creation_atI)
            fix key z
            assume "at_identity l key = Some z" "run_creation z = run_creation c"
            then have "at_identity ?l key = Some z" using other l(3) by (auto simp: bound_to_def split: if_splits)
            from creation_at_unique [OF at this \<open>run_creation z = run_creation c\<close>] show "key = identity x" ..
          qed (use creation_atD [OF at] l(2,3) in simp_all)
          with v t l(1) rec(1) show ?thesis by (simp add: bind_machine_def andThen_apply)
        qed
      qed
    qed
  qed
qed

text \<open>
  C15. A machine whose create lost its answer is found. A creation that is still submitting more than the
  grace after it was sent, alone under its label, whose machine its provider lists once under that label,
  neither held nor gone, is recorded under the machine's handle, as a queued run, by a pass that deletes,
  finds the lock free and returns; and the pass answers that handle as acted on. No other machine listed is taken to carry
  that handle or the label for its own.
\<close>

theorem reap_finds_lost:
  assumes "creation_at (kp_lake s) c c" and "run_verdict c = Some (word_text SUBMITTING)" and "run_creation c \<noteq> []"
    and "p_instant w (run_submitted_at c) = Inr sent" and "sent + GRACE \<le> reap_clock w s"
    and "free_machine w s (run_kind c) m" and "rt_label m = run_creation c" and "rt_handle m \<notin> {[], ''None''}"
    and "\<And>p ms x. (p, True) \<in> set (p_providers w) \<Longrightarrow> rentals_seen w s p = Inr ms \<Longrightarrow> x \<in> set ms \<Longrightarrow>
      rt_label x \<noteq> rt_label m \<Longrightarrow> rt_handle x \<notin> {rt_handle m, run_handle c}"
    and "reap_once w True s = (Inr outcome, t)" and "\<not> rr_busy outcome"
  shows "creation_at (kp_lake t) c (bound_to c (rt_handle m)) \<and> rt_handle m \<in> set (rr_acted outcome)"
proof -
  let ?b = "bound_to c (rt_handle m)"
  from reap_once_cases [OF assms(10)] assms(11) obtain u ds failed where u: "idle_step s u" and ds: "rulings_of w s ds"
    and run: "applied w ds u = (Inr (rr_acted outcome, failed), t)" by auto
  let ?f = "\<lambda>d. andThen (attempt w d) (\<lambda>why. ret (rt_handle (dc_rented d), why))"
  from run obtain attempts where each: "each ?f (filter selected ds) u = (Inr attempts, t)"
    and acted: "rr_acted outcome = map fst (filter (\<lambda>(h, why). why = []) attempts)"
    by (auto simp: applied_def andThen_apply split: sum.splits prod.splits)
  have ruled: "ruled w s d \<and> selected d" if "d \<in> set (filter selected ds)" for d
    using that rulings_ruled [OF ds] by simp
  let ?A = "{d. rt_label (dc_rented d) = run_creation c}"
  have ours: "dc_action d = R_BIND \<and> dc_rented d = m \<and>
      (\<exists>k. dc_kept d = Some k \<and> kt_label k = run_creation c \<and> kt_target k = run_target c)"
    if "d \<in> set (filter selected ds)" "d \<in> ?A" for d
    using ruled_ours [OF _ _ assms(1,2,6,7), of d] ruled [OF that(1)] that(2) by simp
  have other: "rt_handle (dc_rented d) \<notin> {rt_handle m, run_handle c} \<and> (\<forall>k. dc_kept d = Some k \<longrightarrow> kt_label k \<noteq> run_creation c)"
    if "d \<in> set (filter selected ds)" "d \<notin> ?A" for d
  proof -
    from ruled [OF that(1)] obtain k ms where "dc_kept d = Some k" "kt_label k = rt_label (dc_rented d)"
      "(dc_provider d, True) \<in> set (p_providers w)" "rentals_seen w s (dc_provider d) = Inr ms" "dc_rented d \<in> set ms"
      unfolding ruled_def free_machine_def by blast
    with assms(9) [of "dc_provider d" ms "dc_rented d"] that(2) assms(7) show ?thesis by simp
  qed
  let ?k = "\<lparr>kt_label = run_creation c, kt_target = run_target c, kt_provider = run_kind c, kt_handle = run_handle c,
    kt_stage = staged c, kt_submitted = sent, kt_release_by = map_option ls_release_by (run_lease c)\<rparr>"
  have kept: "kept_of w c = Inr (Some ?k)" using assms(3,4) by (simp add: kept_of_def)
  have "staged c = S_SUBMITTING" using assms(2) by (simp add: staged_cases)
  then obtain d where d: "d \<in> set ds" "dc_rented d = m" "dc_action d = R_BIND"
    using rulings_machine [OF ds assms(1) kept assms(6,7)] assms(5)
      ruling_binds [of w ?k m "run_kind c" "reap_clock w s"] by auto
  have "creation_at (kp_lake t) c ?b \<and> (\<exists>y \<in> set attempts. y = (rt_handle m, []))"
  proof (rule each_moves [OF each, where a = d and A = ?A and P = "\<lambda>u. creation_at (kp_lake u) c c"])
    show "d \<in> set (filter selected ds)" "d \<in> ?A" using d assms(7) by (simp_all add: selected_def)
    show "creation_at (kp_lake u) c c" using assms(1) idle_registry(3) [OF u] by simp
  next
    fix d' u' y v
    assume d': "d' \<in> set (filter selected ds)" "d' \<in> ?A" "creation_at (kp_lake u') c c" "?f d' u' = (Inr y, v)"
    from ours [OF d'(1,2)] obtain k where k: "dc_action d' = R_BIND" "dc_rented d' = m" "dc_kept d' = Some k"
      "kt_label k = run_creation c" "kt_target k = run_target c" by blast
    from reap_bind_lost [OF d'(3) assms(2) k(1,3,4,5), of w] k(2) assms(8) d'(4)
    show "creation_at (kp_lake v) c ?b \<and> y = (rt_handle m, [])" by (auto simp: andThen_apply)
  next
    fix d' u' y v
    assume d': "d' \<in> set (filter selected ds)" "d' \<notin> ?A" "creation_at (kp_lake u') c c" "?f d' u' = (Inr y, v)"
    then obtain r where "attempt w d' u' = (r, v)" by (auto elim!: andThen_InrE)
    from attempt_other [OF d'(3) _ _ this] other [OF d'(1,2)] show "creation_at (kp_lake v) c c" by auto
  next
    fix d' u' y v
    assume d': "d' \<in> set (filter selected ds)" "creation_at (kp_lake u') c ?b" "?f d' u' = (Inr y, v)"
    then obtain r where r: "attempt w d' u' = (r, v)" by (auto elim!: andThen_InrE)
    show "creation_at (kp_lake v) c ?b"
    proof (cases "d' \<in> ?A")
      case True
      from ours [OF d'(1) True] obtain k where k: "dc_action d' = R_BIND" "dc_kept d' = Some k"
        "kt_label k = run_creation c" "kt_target k = run_target c" by blast
      from reap_bind_found [OF d'(2) this r] show ?thesis .
    next
      case False
      from attempt_other [OF d'(2) _ _ r] other [OF d'(1) False] show ?thesis by (auto simp: bound_to_def)
    qed
  qed
  then show ?thesis unfolding acted by force
qed

section \<open>An orphan is ended\<close>

lemma applied_attempts:
  assumes "applied w ds u = (Inr (acted, failed), t)"
  obtains attempts where "each (\<lambda>d. andThen (attempt w d) (\<lambda>why. ret (rt_handle (dc_rented d), why))) (filter selected ds) u = (Inr attempts, t)"
    and "acted = map fst (filter (\<lambda>(h, why). why = []) attempts)"
  using assms that by (auto simp: applied_def andThen_apply split: sum.splits prod.splits)

lemma attempt_ends:
  assumes "dc_action d = R_END" and "attempt w d u = (r, t)"
  shows "Cancelled (dc_provider d) (rt_handle (dc_rented d)) \<in> set (c_trace (kp_lake t)) \<or>
    Uncancelled (dc_provider d) (rt_handle (dc_rented d)) \<in> set (c_trace (kp_lake t))"
  using assms by (cases "x_cancel w (moment (kp_lake u)) (dc_provider d) (rt_handle (dc_rented d))")
    (auto simp: attempt_def reap_apply_def on_lake_apply backend_cancel_def doing_def andThen_apply trying_apply split: if_splits)

lemma staged_settled: "settled_opt (run_verdict c) \<Longrightarrow> run_reported c = run_verdict c \<Longrightarrow> staged c = S_DONE"
  by (auto simp: staged_def text_of_def settled_opt_def settled_text_def settled_words_eq split: option.splits)

lemma orphan_ends:
  assumes "creation_at (kp_lake s) c c" and "run_creation c \<noteq> []" and "p_instant w (run_submitted_at c) = Inr sent"
    and "settled_opt (run_verdict c) \<and> run_reported c = run_verdict c \<or>
      run_verdict c \<notin> {Some (word_text PREPARED), Some (word_text SUBMITTING)} \<and>
      (\<exists>l. run_lease c = Some l \<and> ls_release_by l + GRACE < reap_clock w s)"
    and "free_machine w s (run_kind c) m" and "rt_label m = run_creation c" and "rt_handle m = run_handle c"
    and "reap_once w True s = (Inr outcome, t)" and "\<not> rr_busy outcome"
  shows "Cancelled (run_kind c) (run_handle c) \<in> set (c_trace (kp_lake t)) \<or>
    Uncancelled (run_kind c) (run_handle c) \<in> set (c_trace (kp_lake t))"
proof -
  let ?k = "\<lparr>kt_label = run_creation c, kt_target = run_target c, kt_provider = run_kind c, kt_handle = run_handle c,
    kt_stage = staged c, kt_submitted = sent, kt_release_by = map_option ls_release_by (run_lease c)\<rparr>"
  have kept: "kept_of w c = Inr (Some ?k)" using assms(2,3) by (simp add: kept_of_def)
  have "staged c \<notin> {S_PREPARED, S_SUBMITTING}" "staged c = S_DONE \<or> lapsed ?k (reap_clock w s)"
    using assms(4) staged_settled [of c] staged_cases(1,2) [of c] by (auto simp: lapsed_def)
  then have rule: "fst (ruling w ?k m (run_kind c) (reap_clock w s)) = R_END" using assms(7) by (simp add: ruling_ends)
  from reap_once_cases [OF assms(8)] assms(9) obtain u ds failed where ds: "rulings_of w s ds"
    and run: "applied w ds u = (Inr (rr_acted outcome, failed), t)" by auto
  from rulings_machine [OF ds assms(1) kept assms(5,6)] rule obtain d where d: "d \<in> set ds" "dc_rented d = m"
    "dc_provider d = run_kind c" "dc_action d = R_END" by auto
  let ?f = "\<lambda>d. andThen (attempt w d) (\<lambda>why. ret (rt_handle (dc_rented d), why))"
  let ?Q = "\<lambda>v. Cancelled (run_kind c) (run_handle c) \<in> set (c_trace (kp_lake v)) \<or>
    Uncancelled (run_kind c) (run_handle c) \<in> set (c_trace (kp_lake v))"
  from run obtain attempts where each: "each ?f (filter selected ds) u = (Inr attempts, t)" by (rule applied_attempts)
  have "?Q t \<and> (\<exists>y \<in> set attempts. True)"
  proof (rule each_moves [OF each, where a = d and A = "{d}" and P = "\<lambda>_. True"])
    show "d \<in> set (filter selected ds)" using d by (simp add: selected_def)
  next
    fix d' u' y v
    assume "d' \<in> {d}" "?f d' u' = (Inr y, v)"
    then obtain r where "attempt w d u' = (r, v)" by (auto elim!: andThen_InrE)
    from attempt_ends [OF d(4) this] d(2,3) assms(7) show "?Q v \<and> True" by simp
  next
    fix d' u' y v
    assume d': "d' \<in> set (filter selected ds)" "?Q u'" "?f d' u' = (Inr y, v)"
    then obtain r where "attempt w d' u' = (r, v)" by (auto elim!: andThen_InrE)
    moreover have "along (reap_left UNIV UNIV) (attempt w d')" using d'(1) by (intro attempt_left) simp_all
    ultimately have "reap_left UNIV UNIV u' v" by (rule alongD [rotated])
    with d'(2) show "?Q v" by (auto simp: reap_left_def ended_only_def)
  qed simp_all
  then show ?thesis by simp
qed

text \<open>
  C16. A machine nothing owns any more is ended. When the one creation of a label is bound to the machine its
  provider lists once under that label, and its run settled and was reported, or its lease ran out more
  than the grace ago without its run settling, a pass that deletes, finds the lock free and returns has asked the provider to end
  that machine, unless it is held or already gone.
\<close>

theorem reap_ends_orphans:
  assumes "creation_at (kp_lake s) c c" and "run_creation c \<noteq> []" and "p_instant w (run_submitted_at c) = Inr sent"
    and "settled_opt (run_verdict c) \<and> run_reported c = run_verdict c \<or>
      run_verdict c \<notin> {Some (word_text PREPARED), Some (word_text SUBMITTING)} \<and>
      (\<exists>l. run_lease c = Some l \<and> ls_release_by l + GRACE < reap_clock w s)"
    and "free_machine w s (run_kind c) m" and "rt_label m = run_creation c" and "rt_handle m = run_handle c"
    and "reap_once w True s = (Inr outcome, t)" and "\<not> rr_busy outcome"
  shows "Cancelled (run_kind c) (run_handle c) \<in> set (c_trace (kp_lake t)) \<or>
    Uncancelled (run_kind c) (run_handle c) \<in> set (c_trace (kp_lake t))"
  by (rule orphan_ends) (rule assms)+

text \<open>A pass that finds the lock free returns, whatever a provider refuses, when every instant it reads can be read.\<close>

lemma all_kept_reads: "(\<And>t. \<exists>i. p_instant w t = Inr i) \<Longrightarrow> \<exists>ks. all_kept w recs = Inr ks"
proof (induction recs)
  case (Cons c recs)
  then obtain ks i where "all_kept w recs = Inr ks" "p_instant w (run_submitted_at c) = Inr i" by metis
  then show ?case by (simp add: kept_of_def)
qed simp

lemma ask_rentals_returns:
  assumes "\<And>n p e. p_rentals w n p = Inl e \<Longrightarrow> reap_fault e"
  shows "\<exists>found. ask_rentals w ps listings silent s = (Inr found, s)"
proof (induction ps arbitrary: listings silent)
  case (Cons p ps)
  obtain name inventory where p: "p = (name, inventory)" by fastforce
  show ?case
    using Cons assms [of "occasion (kp_lake s)" name]
    by (cases "p_rentals w (occasion (kp_lake s)) name") (auto simp: p andThen_apply)
qed simp

lemma attempt_returns:
  assumes "\<And>n p h e. x_cancel w n p h = Some e \<Longrightarrow> reap_fault e"
  shows "\<exists>why t. attempt w d s = (Inr why, t)"
proof -
  have "reap_fault e" if "reap_apply w d s = (Inl e, t)" for e t
  proof (cases "dc_action d = R_BIND")
    case False
    with that assms show ?thesis
      by (auto simp: reap_apply_def on_lake_apply backend_cancel_def andThen_apply doing_def split: option.splits)
  next
    case True
    show ?thesis
    proof (cases "dc_kept d")
      case None
      with that True show ?thesis by (auto simp: reap_apply_def reap_bind_def reap_fault_def)
    next
      case (Some k)
      have made: "reap_fault e" if "created w rec h l = (Inl e, l')" for rec h l l'
        using that by (auto simp: created_def bind_def andThen_apply row_of_def append_runs_def Let_def reap_fault_def
            split: if_splits option.splits)
      from that True Some have "fst (bind_machine w (kt_label k) (kt_target k) (rt_handle (dc_rented d)) (kp_lake s)) = Inl e"
        by (simp add: reap_apply_def reap_bind_def on_lake_apply)
      then show ?thesis
        using named_refuses [of "kt_label k" "kt_target k" "kp_lake s"] named_state [of "kt_label k" "kt_target k" "kp_lake s"] made
        by (auto simp: bind_machine_def andThen_apply reap_fault_def split: sum.splits prod.splits)
    qed
  qed
  then show ?thesis
    by (cases "reap_apply w d s"; cases "fst (reap_apply w d s)") (auto simp: attempt_def andThen_apply trying_apply)
qed

lemma each_returns:
  assumes "\<And>x u. \<exists>y v. f x u = (Inr y, v)"
  shows "\<exists>ys v. each f xs u = (Inr ys, v)"
proof (induction xs arbitrary: u)
  case (Cons x xs)
  obtain y v where one: "f x u = (Inr y, v)" using assms by blast
  obtain ys v' where "each f xs v = (Inr ys, v')" using Cons by blast
  with one show ?case by (simp add: andThen_apply)
qed simp

lemma reap_returns:
  assumes "x_holder w (moment (kp_lake s)) = None" and "\<And>n p e. p_rentals w n p = Inl e \<Longrightarrow> reap_fault e"
    and "\<And>t. \<exists>i. p_instant w t = Inr i" and "\<And>n p h e. x_cancel w n p h = Some e \<Longrightarrow> reap_fault e"
  shows "\<exists>outcome t. reap_once w delete s = (Inr outcome, t) \<and> \<not> rr_busy outcome"
proof -
  have each: "\<exists>ys v. each (\<lambda>d. andThen (attempt w d) (\<lambda>why. ret (rt_handle (dc_rented d), why))) ds u = (Inr ys, v)" for ds u
  proof (rule each_returns)
    fix d u
    have "\<exists>why v. attempt w d u = (Inr why, v)" by (rule attempt_returns) (rule assms(4))
    then show "\<exists>y v. andThen (attempt w d) (\<lambda>why. ret (rt_handle (dc_rented d), why)) u = (Inr y, v)"
      by (auto simp: andThen_apply)
  qed
  have applied: "\<exists>x v. applied w ds u = (Inr x, v)" for ds u
    using each [of "filter selected ds" u] by (auto simp: applied_def andThen_apply)
  have decided: "\<exists>ds v. decided w found u = (Inr ds, v)" for found u
    using all_kept_reads [of w "listed All [] None [] (kp_lake u)", OF assms(3)]
    by (auto simp: decided_def andThen_apply on_lake_apply clock_now_def)
  have "\<exists>outcome t. reap_swept w delete u = (Inr outcome, t) \<and> \<not> rr_busy outcome" for u
  proof -
    obtain v where v: "on_lake (phase_lock w ''reaping orphaned rentals'' []) u = (Inr (), v)"
      by (simp add: on_lake_apply phase_lock_def andThen_apply)
    have "\<exists>answers. ask_rentals w (p_providers w) [] [] v = (Inr answers, v)"
      by (rule ask_rentals_returns) (rule assms(2))
    then obtain found unseen where asked: "ask_rentals w (p_providers w) [] [] v = (Inr (found, unseen), v)" by auto
    obtain ds x where ds: "decided w found v = (Inr ds, x)" using decided by blast
    obtain acted failed y where "applied w ds x = (Inr (acted, failed), y)" using applied [of ds x] by auto
    with v asked ds show ?thesis by (cases delete) (simp_all add: reap_swept_def andThen_apply)
  qed
  moreover obtain v where "on_lake (acquired w) s = (Inr (), v)"
    by (simp add: on_lake_apply acquired_def phase_lock_def andThen_apply)
  ultimately show ?thesis using assms(1) by (simp add: reap_once_def andThen_apply on_lake_apply [of "reading _"])
qed

section \<open>A pass at work\<close>

text \<open>One creation whose answer was lost, one run that settled and was reported, and both machines still listed.\<close>

definition lost_run :: run_record where
  "lost_run = (order_record sample_order ''mainboard-1'' [] ''not_started'' [])
     \<lparr>run_state := Some (word_text SUBMITTING), run_verdict := Some (word_text SUBMITTING)\<rparr>"

definition over_run :: run_record where
  "over_run = (order_record sample_order ''mainboard-2'' [] ''copied'' [])
     \<lparr>run_handle := ''m-2'', run_verdict := Some (word_text FAILED), run_reported := Some (word_text FAILED)\<rparr>"

definition sample_machine :: "string \<Rightarrow> string \<Rightarrow> rented" where
  "sample_machine h name = \<lparr>rt_handle = h, rt_label = name, rt_gpu = [], rt_status = ''running'', rt_usd_hr = None\<rparr>"

definition sample_reaper :: reaper where
  "sample_reaper = holder.extend sample_holder
     \<lparr>p_providers = [(''hpcai'', False), (''lambda'', True)],
      p_rentals = (\<lambda>_ _. Inr [sample_machine ''m-1'' ''mainboard-1'', sample_machine ''m-2'' ''mainboard-2'']),
      p_instant = (\<lambda>_. Inr (- 1000000000)), p_spoken = (\<lambda>_. [])\<rparr>"

definition sample_reaping :: keeping where
  "sample_reaping = sample_keeping\<lparr>kp_lake := logged sample_holder over_run False
     (logged sample_holder lost_run False (sample_renting\<lparr>runs_log := []\<rparr>))\<rparr>"

lemma sample_reaper_simps:
  "x_clock sample_reaper n = int n" "x_cancel sample_reaper n' p h = None" "x_holder sample_reaper n = None"
  "p_rentals sample_reaper n p = Inr [sample_machine ''m-1'' ''mainboard-1'', sample_machine ''m-2'' ''mainboard-2'']"
  "p_instant sample_reaper i = Inr (- 1000000000)" "p_providers sample_reaper = [(''hpcai'', False), (''lambda'', True)]"
  by (simp_all add: sample_reaper_def holder.defs)
    (simp_all add: sample_holder_def sample_renter_def sample_asking_def sample_outside_def renter.defs asking.defs outside.defs)

lemma sample_runs:
  "run_creation lost_run = ''mainboard-1''" "run_creation over_run = ''mainboard-2''" "run_kind lost_run = ''lambda''"
  "run_kind over_run = ''lambda''" "run_handle lost_run = ''mainboard-1''" "run_handle over_run = ''m-2''"
  "identity lost_run = (''cloudy'', ''mainboard-1'', [])" "identity over_run = (''cloudy'', ''m-2'', [])"
  "run_verdict lost_run = Some (word_text SUBMITTING)" "run_verdict over_run = Some (word_text FAILED)"
  "run_reported over_run = Some (word_text FAILED)"
  by (simp_all add: lost_run_def over_run_def order_record_def sample_order_def identity_def)

lemma sample_reaping_at:
  "at_identity (kp_lake sample_reaping) k = (if k = identity over_run then Some over_run
     else if k = identity lost_run then Some lost_run else None)"
  by (simp add: sample_reaping_def) (simp add: at_identity_def runs_def lookup_row_def)

lemma sample_reaping_keyed: "keyed (kp_lake sample_reaping)"
  by (simp add: sample_reaping_def) (simp add: keyed_def)

lemma sample_creations:
  "creation_at (kp_lake sample_reaping) lost_run lost_run" "creation_at (kp_lake sample_reaping) over_run over_run"
  using sample_reaping_keyed
  by (auto intro!: creation_atI simp: sample_reaping_at sample_runs split: if_splits)

lemma sample_holdings: "holdings sample_reaping = []"
  by (simp add: holdings_def holds_view_def sample_reaping_def sample_keeping_def)

lemma sample_free:
  "free_machine sample_reaper sample_reaping ''lambda'' (sample_machine ''m-1'' ''mainboard-1'')"
  "free_machine sample_reaper sample_reaping ''lambda'' (sample_machine ''m-2'' ''mainboard-2'')"
  by (simp_all add: free_machine_def rentals_seen_def sample_reaper_simps sample_holdings GONE_def) (simp_all add: sample_machine_def)

lemma sample_reap:
  obtains outcome t where "reap_once sample_reaper True sample_reaping = (Inr outcome, t)" and "\<not> rr_busy outcome"
  using reap_returns [of sample_reaper sample_reaping True] by (auto simp: sample_reaper_simps)

lemma sample_old: "- 1000000000 + GRACE \<le> reap_clock sample_reaper sample_reaping"
  by (simp add: reap_clock_def sample_reaper_simps GRACE_def)

theorem reap_finds_lost_witness:
  "\<exists>outcome t. reap_once sample_reaper True sample_reaping = (Inr outcome, t) \<and>
     creation_at (kp_lake t) lost_run (bound_to lost_run ''m-1'') \<and> ''m-1'' \<in> set (rr_acted outcome)"
proof -
  obtain outcome t where run: "reap_once sample_reaper True sample_reaping = (Inr outcome, t)" "\<not> rr_busy outcome"
    by (rule sample_reap)
  have "rt_handle x \<notin> {rt_handle (sample_machine ''m-1'' ''mainboard-1''), run_handle lost_run}"
    if "rentals_seen sample_reaper sample_reaping p = Inr ms" "x \<in> set ms" "rt_label x \<noteq> rt_label (sample_machine ''m-1'' ''mainboard-1'')" for p ms x
    using that by (auto simp: rentals_seen_def sample_reaper_simps sample_machine_def sample_runs)
  from reap_finds_lost [OF sample_creations(1) sample_runs(9) _ _ sample_old, of "sample_machine ''m-1'' ''mainboard-1''" outcome t]
    this sample_free(1) run show ?thesis
    by (intro exI [of _ outcome] exI [of _ t]) (simp add: sample_runs sample_reaper_simps, simp add: sample_machine_def)
qed

lemma sample_orphan_ends:
  assumes "reap_once sample_reaper True sample_reaping = (Inr outcome, t)" and "\<not> rr_busy outcome"
  shows "Cancelled ''lambda'' ''m-2'' \<in> set (c_trace (kp_lake t)) \<or> Uncancelled ''lambda'' ''m-2'' \<in> set (c_trace (kp_lake t))"
proof -
  have "settled_text ''failed''" by code_simp
  with orphan_ends [OF sample_creations(2) _ _ _ _ _ _ assms, of "- 1000000000" "sample_machine ''m-2'' ''mainboard-2''"]
    sample_free(2) show ?thesis
    by (simp add: sample_runs sample_reaper_simps settled_opt_def) (simp add: sample_machine_def)
qed

theorem reap_ends_only_ours_witness:
  "\<exists>r t m. reap_once sample_reaper True sample_reaping = (r, t) \<and> rt_handle m = ''m-2'' \<and>
     free_machine sample_reaper sample_reaping ''lambda'' m \<and> unowned sample_reaper sample_reaping ''lambda'' m"
proof -
  obtain outcome t where run: "reap_once sample_reaper True sample_reaping = (Inr outcome, t)" "\<not> rr_busy outcome"
    by (rule sample_reap)
  have "c_trace (kp_lake sample_reaping) = []"
    by (simp add: sample_reaping_def logged_def)
      (simp add: sample_renting_def watching.defs sample_ledger_def center.defs sample_center_def)
  with reap_ends_only_ours [OF sample_reaping_keyed run(1)] sample_orphan_ends [OF run]
  have "\<exists>p m. (Cancelled ''lambda'' ''m-2'' \<in> {Cancelled p (rt_handle m), Uncancelled p (rt_handle m)} \<or>
      Uncancelled ''lambda'' ''m-2'' \<in> {Cancelled p (rt_handle m), Uncancelled p (rt_handle m)}) \<and>
      free_machine sample_reaper sample_reaping p m \<and> unowned sample_reaper sample_reaping p m" by fastforce
  then obtain m where "rt_handle m = ''m-2''" "free_machine sample_reaper sample_reaping ''lambda'' m"
    "unowned sample_reaper sample_reaping ''lambda'' m" by auto
  with run(1) show ?thesis by blast
qed

theorem reap_ends_orphans_witness:
  "\<exists>outcome t. reap_once sample_reaper True sample_reaping = (Inr outcome, t) \<and>
     (Cancelled ''lambda'' ''m-2'' \<in> set (c_trace (kp_lake t)) \<or> Uncancelled ''lambda'' ''m-2'' \<in> set (c_trace (kp_lake t)))"
proof -
  obtain outcome t where run: "reap_once sample_reaper True sample_reaping = (Inr outcome, t)" "\<not> rr_busy outcome"
    by (rule sample_reap)
  have "settled_text ''failed''" by code_simp
  with reap_ends_orphans [OF sample_creations(2) _ _ _ _ _ _ run, of "- 1000000000" "sample_machine ''m-2'' ''mainboard-2''"]
    sample_free(2) run(1) show ?thesis
    by (intro exI [of _ outcome] exI [of _ t]) (simp add: sample_runs sample_reaper_simps settled_opt_def, simp add: sample_machine_def)
qed

end
