(* ===== verification/Keeper.thy ===== *)
theory Keeper
  imports Prelude Complex_Main
begin

text \<open>
  The keeper \<open>mb serve\<close>'s unit runs (\<open>serve/keeper.py\<close>): the session its ledger names, the sweep that kills
  what is left in it, and the life of a keeper, from taking the lock to the supervisor's exit. The
  machine's processes are a table the code reads through \<open>getsid\<close> and psutil; between the keeper's
  steps the machine takes its own: it forks, starts sessions, ends processes, and kills a keeper.
\<close>

section \<open>Processes and the leader of a session\<close>

text \<open>
  The table is what a look at the machine finds, at one instant. A process as the code reads it. \<open>ps_open\<close> says whether this user may read it; a closed one has no
  session id and no start time to the code. Start times are the rationals their floats stand for.
\<close>

record process =
  ps_pid :: nat
  ps_started :: rat
  ps_session :: nat
  ps_open :: bool

record leader =
  ld_pid :: nat
  ld_started :: rat

definition readable :: "'p process_scheme list \<Rightarrow> nat \<Rightarrow> 'p process_scheme option" where
  "readable t pid = find (\<lambda>p. ps_pid p = pid \<and> ps_open p) t"

definition session_of :: "'p process_scheme list \<Rightarrow> nat \<Rightarrow> nat" where
  "session_of t pid = (case readable t pid of None \<Rightarrow> 0 | Some p \<Rightarrow> ps_session p)"

text \<open>\<open>None\<close> for the infinity of a process gone or closed.\<close>

definition started_of :: "'p process_scheme list \<Rightarrow> nat \<Rightarrow> rat option" where
  "started_of t pid = map_option ps_started (readable t pid)"

definition leader_of :: "'p process_scheme list \<Rightarrow> nat \<Rightarrow> leader option" where
  "leader_of t pid = map_option (\<lambda>at_start. \<lparr>ld_pid = pid, ld_started = at_start\<rparr>) (started_of t pid)"

definition leader_alive :: "'p process_scheme list \<Rightarrow> leader \<Rightarrow> bool" where
  "leader_alive t l \<longleftrightarrow> leader_of t (ld_pid l) = Some l"

text \<open>\<open>self.started <= started < until\<close>, over the infinite as well.\<close>

definition started_within :: "leader \<Rightarrow> leader option \<Rightarrow> rat option \<Rightarrow> bool" where
  "started_within l now begun =
     (case begun of
        None \<Rightarrow> False
      | Some b \<Rightarrow> ld_started l \<le> b \<and> (case now of None \<Rightarrow> True | Some n \<Rightarrow> n \<noteq> l \<longrightarrow> b < ld_started n))"

definition members :: "leader \<Rightarrow> 'p process_scheme list \<Rightarrow> 'p process_scheme list" where
  "members l t =
     filter (\<lambda>p. session_of t (ps_pid p) = ld_pid l \<and> started_within l (leader_of t (ld_pid l)) (started_of t (ps_pid p))) t"


section \<open>The ledger and its sweep\<close>

text \<open>The keeper and the supervisor a ledger names; a missing or torn one names neither.\<close>

type_synonym ledger = "(leader \<times> leader) option"

definition ledger_keeper :: "ledger \<Rightarrow> leader option" where
  "ledger_keeper g = map_option fst g"

definition ledger_supervisor :: "ledger \<Rightarrow> leader option" where
  "ledger_supervisor g = map_option snd g"

definition ledger_members :: "ledger \<Rightarrow> 'p process_scheme list \<Rightarrow> 'p process_scheme list" where
  "ledger_members g t = (case ledger_supervisor g of None \<Rightarrow> [] | Some l \<Rightarrow> members l t)"

text \<open>psutil's \<open>wait_procs\<close>: those of a list still running, told apart by pid and start time.\<close>

definition still_running :: "'p process_scheme list \<Rightarrow> 'p process_scheme list \<Rightarrow> 'p process_scheme list" where
  "still_running t ms = filter (\<lambda>p. \<exists>q \<in> set t. ps_pid q = ps_pid p \<and> ps_started q = ps_started p) ms"

text \<open>
  \<open>Ledger.sweep\<close> over the three looks it takes at the table, the first and last with the ledger: whom it
  asks to end, whom it kills, how many it answers, and whether it forgets the ledger.
\<close>

definition ledger_sweep ::
  "ledger \<Rightarrow> 'p process_scheme list \<Rightarrow> 'p process_scheme list \<Rightarrow> ledger \<Rightarrow> 'p process_scheme list \<Rightarrow>
     'p process_scheme list \<times> 'p process_scheme list \<times> nat \<times> bool" where
  "ledger_sweep g t1 t2 g3 t3 =
     (let ms = ledger_members g t1 in (ms, still_running t2 ms, length ms, ledger_members g3 t3 = []))"

text \<open>\<open>_started\<close> records the supervisor as it is, or as started at the time read when it is gone already.\<close>

definition recorded_leader :: "'p process_scheme list \<Rightarrow> nat \<Rightarrow> rat \<Rightarrow> leader" where
  "recorded_leader t pid now = (case leader_of t pid of Some l \<Rightarrow> l | None \<Rightarrow> \<lparr>ld_pid = pid, ld_started = now\<rparr>)"

definition EX_HELD :: int where "EX_HELD = 75"
definition EX_USAGE :: int where "EX_USAGE = 64"
definition ABANDON :: rat where "ABANDON = 120"

text \<open>What \<open>_kept\<close> answers of a supervisor's return code, a negative one being the signal that ended it.\<close>

definition exit_status :: "int \<Rightarrow> int" where
  "exit_status code = (if 0 \<le> code then code else 128 - code)"

text \<open>\<open>run\<close> exits at once when the lock is held, and \<open>main\<close> takes \<open>STATE -- COMMAND...\<close>.\<close>

definition keeper_run :: "bool \<Rightarrow> int \<Rightarrow> int" where
  "keeper_run locked_out code = (if locked_out then EX_HELD else exit_status code)"

definition keeper_main :: "string list \<Rightarrow> (string \<Rightarrow> string list \<Rightarrow> int) \<Rightarrow> int" where
  "keeper_main argv run =
     (case argv of
        state # dashes # command \<Rightarrow> if dashes = ''--'' \<and> command \<noteq> [] then run state command else EX_USAGE
      | _ \<Rightarrow> EX_USAGE)"

text \<open>Whether the tick of \<open>_watched\<close> kills the supervisor's group; zero means no stop was asked for.\<close>

definition abandons :: "rat \<Rightarrow> rat \<Rightarrow> bool" where
  "abandons asked now \<longleftrightarrow> asked \<noteq> 0 \<and> now - asked > ABANDON"


section \<open>The machine\<close>

text \<open>Which session a process really is in: the leader that started it, whose pid is its session id.\<close>

record citizen = process +
  ps_home :: leader

record host =
  mh_table :: "citizen list"
  mh_clock :: rat

definition self_leader :: "citizen \<Rightarrow> leader" where
  "self_leader p = \<lparr>ld_pid = ps_pid p, ld_started = ps_started p\<rparr>"

text \<open>
  What a machine does by itself. A pid in use, by a process or as the id of a session that still has one,
  is not given to a new process. A process that leads no session may start its own, and what a program
  runs as may open it to this user or close it.
\<close>

definition fresh_pid :: "citizen list \<Rightarrow> nat \<Rightarrow> bool" where
  "fresh_pid t pid \<longleftrightarrow> 0 < pid \<and> (\<forall>p \<in> set t. ps_pid p \<noteq> pid \<and> ps_session p \<noteq> pid)"

definition child :: "citizen \<Rightarrow> nat \<Rightarrow> rat \<Rightarrow> citizen" where
  "child p pid now = p\<lparr>ps_pid := pid, ps_started := now\<rparr>"

definition new_session :: "citizen \<Rightarrow> citizen" where
  "new_session p = p\<lparr>ps_session := ps_pid p, ps_home := self_leader p\<rparr>"

definition without_pid :: "citizen list \<Rightarrow> nat \<Rightarrow> citizen list" where
  "without_pid t pid = filter (\<lambda>q. ps_pid q \<noteq> pid) t"

inductive machine_step :: "host \<Rightarrow> host \<Rightarrow> bool" where
  forks: "p \<in> set (mh_table m) \<Longrightarrow> fresh_pid (mh_table m) pid \<Longrightarrow> mh_clock m < now \<Longrightarrow>
    machine_step m (m\<lparr>mh_table := child p pid now # mh_table m, mh_clock := now\<rparr>)"
| leaves: "p \<in> set (mh_table m) \<Longrightarrow> ps_session p \<noteq> ps_pid p \<Longrightarrow>
    machine_step m (m\<lparr>mh_table := new_session p # without_pid (mh_table m) (ps_pid p)\<rparr>)"
| guards: "p \<in> set (mh_table m) \<Longrightarrow>
    machine_step m (m\<lparr>mh_table := p\<lparr>ps_open := b\<rparr> # without_pid (mh_table m) (ps_pid p)\<rparr>)"
| ends: "p \<in> set (mh_table m) \<Longrightarrow> machine_step m (m\<lparr>mh_table := without_pid (mh_table m) (ps_pid p)\<rparr>)"


section \<open>The life of a keeper\<close>

text \<open>
  A keeper sweeps before it starts its supervisor and after it exited. \<open>mb serve stop\<close> sweeps too, and
  nothing holds it back from a keeper that has not written its name yet.
\<close>

datatype sweeper = Before leader | After leader

datatype stopper = Idle | Asking "citizen list" | Killed | Emptied

datatype keeper_phase =
    Unheld | Locked leader | Termed sweeper "citizen list" | Slain sweeper | Ready leader
  | Begun leader leader | Watching leader leader

text \<open>
  \<open>sd_begun\<close> are the sessions keepers started, \<open>sd_lost\<close> those of them no ledger will name again, and
  \<open>sd_signalled\<close> every process a sweep signalled; the code reads none of the three. The keeper's own
  process and the one that runs \<open>mb serve stop\<close> are not in the table. One stop runs at a time.
\<close>

record served =
  sd_host :: host
  sd_ledger :: ledger
  sd_phase :: keeper_phase
  sd_stopper :: stopper
  sd_begun :: "leader set"
  sd_lost :: "leader set"
  sd_signalled :: "citizen list"

definition sd_table :: "served \<Rightarrow> citizen list" where
  "sd_table s = mh_table (sd_host s)"

fun sweeper_keeper :: "sweeper \<Rightarrow> leader" where
  "sweeper_keeper (Before k) = k"
| "sweeper_keeper (After k) = k"

fun phase_keeper :: "keeper_phase \<Rightarrow> leader option" where
  "phase_keeper Unheld = None"
| "phase_keeper (Locked k) = Some k"
| "phase_keeper (Termed w ms) = Some (sweeper_keeper w)"
| "phase_keeper (Slain w) = Some (sweeper_keeper w)"
| "phase_keeper (Ready k) = Some k"
| "phase_keeper (Begun k l) = Some k"
| "phase_keeper (Watching k l) = Some k"

text \<open>Where a sweep goes next: its keeper starts a supervisor, or exits and lets the lock go.\<close>

fun swept_phase :: "sweeper \<Rightarrow> keeper_phase" where
  "swept_phase (Before k) = Ready k"
| "swept_phase (After k) = Unheld"

definition named_sessions :: "ledger \<Rightarrow> leader set" where
  "named_sessions g = set_option (ledger_supervisor g)"

text \<open>
  What a look of a sweep finds. \<open>process_iter\<close> goes over the processes one after another while they fork and
  end, so that it finds members of the recorded session and may miss some.
\<close>

definition scans :: "served \<Rightarrow> citizen list \<Rightarrow> bool" where
  "scans s ms \<longleftrightarrow> set ms \<subseteq> set (ledger_members (sd_ledger s) (sd_table s))"

text \<open>The sessions a ledger names that processes are left in.\<close>

definition left_sessions :: "ledger \<Rightarrow> citizen list \<Rightarrow> leader set" where
  "left_sessions g t = named_sessions g \<inter> ps_home ` set t"

inductive serve_step :: "served \<Rightarrow> served \<Rightarrow> bool" where
  machine: "machine_step (sd_host s) m \<Longrightarrow> serve_step s (s\<lparr>sd_host := m\<rparr>)"
| locks: "sd_phase s = Unheld \<Longrightarrow> serve_step s (s\<lparr>sd_phase := Locked k\<rparr>)"
| dies: "phase_keeper (sd_phase s) = Some k \<Longrightarrow>
    serve_step s (s\<lparr>sd_phase := Unheld,
      sd_lost := sd_lost s \<union> (case sd_phase s of Begun _ l \<Rightarrow> {l} | _ \<Rightarrow> {})\<rparr>)"
| stops: "sd_stopper s = Idle \<Longrightarrow> scans s ms \<Longrightarrow>
    serve_step s (s\<lparr>sd_stopper := Asking ms, sd_signalled := sd_signalled s @ ms\<rparr>)"
| stop_kills: "sd_stopper s = Asking ms \<Longrightarrow>
    serve_step s (s\<lparr>sd_stopper := Killed, sd_signalled := sd_signalled s @ still_running (sd_table s) ms\<rparr>)"
| stop_looks: "sd_stopper s = Killed \<Longrightarrow> scans s ms \<Longrightarrow>
    serve_step s (s\<lparr>sd_stopper := (if ms = [] then Emptied else Idle)\<rparr>)"
| stop_forgets: "sd_stopper s = Emptied \<Longrightarrow>
    serve_step s (s\<lparr>sd_stopper := Idle, sd_ledger := None,
      sd_lost := sd_lost s \<union> left_sessions (sd_ledger s) (sd_table s)\<rparr>)"
| stop_dies: "serve_step s (s\<lparr>sd_stopper := Idle\<rparr>)"
| terms: "sd_phase s = Locked k \<Longrightarrow> scans s ms \<Longrightarrow>
    serve_step s (s\<lparr>sd_phase := Termed (Before k) ms, sd_signalled := sd_signalled s @ ms\<rparr>)"
| kills: "sd_phase s = Termed w ms \<Longrightarrow>
    serve_step s (s\<lparr>sd_phase := Slain w, sd_signalled := sd_signalled s @ still_running (sd_table s) ms\<rparr>)"
| swept: "sd_phase s = Slain w \<Longrightarrow> scans s ms \<Longrightarrow>
    serve_step s (s\<lparr>sd_phase := swept_phase w,
      sd_ledger := (if ms = [] then None else sd_ledger s),
      sd_lost := sd_lost s \<union> (if ms = [] then left_sessions (sd_ledger s) (sd_table s) else {})\<rparr>)"
| begins: "sd_phase s = Ready k \<Longrightarrow> p \<in> set (sd_table s) \<Longrightarrow> fresh_pid (sd_table s) pid \<Longrightarrow>
    mh_clock (sd_host s) < now \<Longrightarrow> l = \<lparr>ld_pid = pid, ld_started = now\<rparr> \<Longrightarrow>
    serve_step s (s\<lparr>sd_phase := Begun k l,
      sd_host := \<lparr>mh_table = (new_session (child p pid now))\<lparr>ps_open := True\<rparr> # sd_table s, mh_clock = now\<rparr>,
      sd_begun := insert l (sd_begun s)\<rparr>)"
| records: "sd_phase s = Begun k l \<Longrightarrow> mh_clock (sd_host s) \<le> now \<Longrightarrow>
    recorded_leader (sd_table s) (ld_pid l) now = r \<Longrightarrow>
    serve_step s (s\<lparr>sd_phase := Watching k r, sd_ledger := Some (k, r),
      sd_lost := sd_lost s \<union> named_sessions (sd_ledger s) \<union> (if r = l then {} else {l})\<rparr>)"
| exits: "sd_phase s = Watching k l \<Longrightarrow> (\<And>p. p \<in> set (sd_table s) \<Longrightarrow> self_leader p \<noteq> l) \<Longrightarrow> scans s ms \<Longrightarrow>
    serve_step s (s\<lparr>sd_phase := Termed (After k) ms, sd_signalled := sd_signalled s @ ms\<rparr>)"

inductive_cases machine_stepE: "machine_step m n"
inductive_cases serve_stepE: "serve_step s t"

end
