(* ===== verification/Keeper_Properties.thy ===== *)
theory Keeper_Properties
  imports Keeper
begin

text \<open>
  What a keeper leaves behind: the sessions of a machine are told apart by their leader, a sweep reaches
  every readable process of the session its ledger names, and whatever crash, sweep or restart comes
  between, a supervisor's tree is named by the ledger or lost in one of the ways the step relation spells out.
\<close>

section \<open>Sessions of a machine\<close>

text \<open>A process is in the session of its home, and started no sooner than that session and no later than now.\<close>

definition placed :: "rat \<Rightarrow> citizen \<Rightarrow> bool" where
  "placed now p \<longleftrightarrow> ps_session p = ld_pid (ps_home p) \<and> ld_started (ps_home p) \<le> ps_started p \<and> ps_started p \<le> now"

text \<open>
  A pid names one process, a session id one session, and a process whose pid is the id of another's
  session leads that session.
\<close>

definition beside :: "citizen \<Rightarrow> citizen \<Rightarrow> bool" where
  "beside p q \<longleftrightarrow> (ps_pid p = ps_pid q \<longrightarrow> p = q) \<and> (ps_session p = ps_session q \<longrightarrow> ps_home p = ps_home q) \<and>
     (ps_pid q = ps_session p \<longrightarrow> ps_home q = self_leader q \<and> ps_home p = self_leader q)"

definition orderly :: "host \<Rightarrow> bool" where
  "orderly m \<longleftrightarrow> (\<forall>p \<in> set (mh_table m). placed (mh_clock m) p) \<and> (\<forall>p \<in> set (mh_table m). \<forall>q \<in> set (mh_table m). beside p q)"

lemma orderlyD:
  assumes "orderly m"
  shows "p \<in> set (mh_table m) \<Longrightarrow> placed (mh_clock m) p"
    and "p \<in> set (mh_table m) \<Longrightarrow> q \<in> set (mh_table m) \<Longrightarrow> beside p q"
  using assms by (simp_all add: orderly_def)

lemma set_without_pid: "q \<in> set (without_pid t pid) \<longleftrightarrow> q \<in> set t \<and> ps_pid q \<noteq> pid"
  by (auto simp: without_pid_def)

text \<open>A table whose new process is placed and beside every other keeps its order.\<close>

lemma orderly_Cons:
  assumes "orderly m" and "set t \<subseteq> set (mh_table m)" and "mh_clock m \<le> now" and "placed now c" and "beside c c"
    and "\<And>q. q \<in> set t \<Longrightarrow> beside c q \<and> beside q c"
  shows "orderly (m\<lparr>mh_table := c # t, mh_clock := now\<rparr>)"
proof -
  have "placed now q" if "q \<in> set t" for q
    using orderlyD(1) [OF assms(1), of q] that assms(2,3) by (auto simp: placed_def)
  moreover have "beside p q" if "p \<in> set t" "q \<in> set t" for p q
    using orderlyD(2) [OF assms(1)] that assms(2) by blast
  ultimately show ?thesis using assms(4-6) by (simp add: orderly_def)
qed

lemma orderly_subset: "orderly m \<Longrightarrow> set t \<subseteq> set (mh_table m) \<Longrightarrow> orderly (m\<lparr>mh_table := t\<rparr>)"
  unfolding orderly_def by (simp add: subset_iff)

lemma besideD:
  assumes "beside p q"
  shows "ps_pid p = ps_pid q \<Longrightarrow> p = q" "ps_session p = ps_session q \<Longrightarrow> ps_home p = ps_home q"
    "ps_pid q = ps_session p \<Longrightarrow> ps_home q = self_leader q" "ps_pid q = ps_session p \<Longrightarrow> ps_home p = self_leader q"
  using assms by (simp_all add: beside_def)

lemma fresh_pidD: "fresh_pid t pid \<Longrightarrow> q \<in> set t \<Longrightarrow> ps_pid q \<noteq> pid \<and> ps_session q \<noteq> pid"
  by (auto simp: fresh_pid_def)

text \<open>A new process, in its parent's session or in one of its own.\<close>

lemma orderly_child:
  assumes m: "orderly m" and p: "p \<in> set (mh_table m)" and pid: "fresh_pid (mh_table m) (ps_pid c)" and now: "mh_clock m < ps_started c"
    and home: "ps_session c = ps_session p \<and> ps_home c = ps_home p \<or> ps_session c = ps_pid c \<and> ps_home c = self_leader c"
  shows "orderly (m\<lparr>mh_table := c # mh_table m, mh_clock := ps_started c\<rparr>)"
proof (rule orderly_Cons [OF m])
  note at_p = orderlyD(1) [OF m p, unfolded placed_def] and new = fresh_pidD [OF pid]
  show "placed (ps_started c) c" using home at_p now by (auto simp: placed_def self_leader_def)
  show "beside c c" using home new [OF p] by (auto simp: beside_def)
  fix q
  assume q: "q \<in> set (mh_table m)"
  note pq = besideD [OF orderlyD(2) [OF m p q]] and qp = besideD [OF orderlyD(2) [OF m q p]]
  from home show "beside c q \<and> beside q c"
  proof (elim disjE conjE)
    assume c: "ps_session c = ps_session p" "ps_home c = ps_home p"
    have "ps_home q = self_leader q \<and> ps_home c = self_leader q" if "ps_pid q = ps_session c"
      using pq(3,4) that c by simp
    moreover have "ps_home c = ps_home q" if "ps_session c = ps_session q" using pq(2) that c by simp
    ultimately show ?thesis using new [OF q] unfolding beside_def by metis
  next
    assume "ps_session c = ps_pid c" "ps_home c = self_leader c"
    then show ?thesis using new [OF q] unfolding beside_def by metis
  qed
qed (use now in simp_all)

lemma leads_no_session:
  assumes "orderly m" and "p \<in> set (mh_table m)" and "ps_session p \<noteq> ps_pid p" and "q \<in> set (mh_table m)"
  shows "ps_session q \<noteq> ps_pid p"
proof
  assume "ps_session q = ps_pid p"
  then have "ps_home p = self_leader p" using besideD(3) [OF orderlyD(2) [OF assms(1,4,2)]] by simp
  with orderlyD(1) [OF assms(1,2)] assms(3) show False by (simp add: placed_def self_leader_def)
qed

lemma machine_orderly:
  assumes "machine_step m n" and m: "orderly m"
  shows "orderly n"
  using assms(1)
proof (cases rule: machine_step.cases)
  case (forks p pid now)
  have "orderly (m\<lparr>mh_table := child p pid now # mh_table m, mh_clock := ps_started (child p pid now)\<rparr>)"
    using forks by (intro orderly_child [OF m forks(2)]) (simp_all add: child_def)
  with forks(1) show ?thesis by (simp add: child_def)
next
  case (leaves p)
  have "orderly (m\<lparr>mh_table := new_session p # without_pid (mh_table m) (ps_pid p), mh_clock := mh_clock m\<rparr>)"
  proof (rule orderly_Cons [OF m])
    show "placed (mh_clock m) (new_session p)"
      using orderlyD(1) [OF m leaves(2)] by (simp add: placed_def new_session_def self_leader_def)
    show "beside (new_session p) (new_session p)" by (simp add: beside_def new_session_def self_leader_def)
    fix q
    assume "q \<in> set (without_pid (mh_table m) (ps_pid p))"
    then have q: "q \<in> set (mh_table m)" "ps_pid q \<noteq> ps_pid p" by (simp_all add: set_without_pid)
    have "ps_session q \<noteq> ps_pid p" by (rule leads_no_session [OF m leaves(2,3) q(1)])
    with q(2) show "beside (new_session p) q \<and> beside q (new_session p)" by (simp add: beside_def new_session_def)
  qed (auto simp: set_without_pid)
  with leaves(1) show ?thesis by simp
next
  case (guards p b)
  let ?p = "p\<lparr>ps_open := b\<rparr>"
  have same: "ps_pid ?p = ps_pid p" "ps_session ?p = ps_session p" "ps_home ?p = ps_home p" "self_leader ?p = self_leader p"
    by (simp_all add: self_leader_def)
  have "orderly (m\<lparr>mh_table := ?p # without_pid (mh_table m) (ps_pid p), mh_clock := mh_clock m\<rparr>)"
  proof (rule orderly_Cons [OF m])
    show "placed (mh_clock m) ?p" using orderlyD(1) [OF m guards(2)] by (simp add: placed_def)
    show "beside ?p ?p" using orderlyD(2) [OF m guards(2) guards(2)] same by (simp add: beside_def)
    fix q
    assume "q \<in> set (without_pid (mh_table m) (ps_pid p))"
    then have q: "q \<in> set (mh_table m)" "ps_pid q \<noteq> ps_pid p" by (simp_all add: set_without_pid)
    from orderlyD(2) [OF m guards(2) q(1)] orderlyD(2) [OF m q(1) guards(2)] q(2) same
    show "beside ?p q \<and> beside q ?p" by (simp add: beside_def)
  qed (auto simp: set_without_pid)
  with guards(1) show ?thesis by simp
next
  case (ends p)
  show ?thesis unfolding ends(1) by (rule orderly_subset [OF m]) (auto simp: set_without_pid)
qed


section \<open>Whom a sweep reaches\<close>

lemma readable_iff:
  assumes "orderly m"
  shows "readable (mh_table m) pid = Some p \<longleftrightarrow> p \<in> set (mh_table m) \<and> ps_pid p = pid \<and> ps_open p"
proof
  assume "readable (mh_table m) pid = Some p"
  then show "p \<in> set (mh_table m) \<and> ps_pid p = pid \<and> ps_open p" by (auto simp: readable_def find_Some_iff)
next
  assume p: "p \<in> set (mh_table m) \<and> ps_pid p = pid \<and> ps_open p"
  then have "find (\<lambda>p. ps_pid p = pid \<and> ps_open p) (mh_table m) \<noteq> None" by (auto simp: find_None_iff)
  then obtain q where q: "find (\<lambda>p. ps_pid p = pid \<and> ps_open p) (mh_table m) = Some q" by blast
  then have "q \<in> set (mh_table m)" "ps_pid q = pid" by (auto simp: find_Some_iff)
  with p orderlyD(2) [OF assms, of q p] have "q = p" by (simp add: besideD(1))
  with q show "readable (mh_table m) pid = Some p" by (simp add: readable_def)
qed

lemma readable_self:
  assumes "orderly m" and "p \<in> set (mh_table m)"
  shows "readable (mh_table m) (ps_pid p) = (if ps_open p then Some p else None)"
proof (cases "ps_open p")
  case True
  with assms readable_iff [OF assms(1)] show ?thesis by simp
next
  case False
  have "readable (mh_table m) (ps_pid p) \<noteq> Some q" for q
    using readable_iff [OF assms(1), of "ps_pid p" q] besideD(1) [OF orderlyD(2) [OF assms(1), of q p]] assms(2) False by auto
  with False show ?thesis by auto
qed

lemma leader_of_iff:
  assumes "orderly m"
  shows "leader_of (mh_table m) pid = Some l \<longleftrightarrow> (\<exists>p \<in> set (mh_table m). ps_pid p = pid \<and> ps_open p \<and> self_leader p = l)"
  by (auto simp: leader_of_def started_of_def self_leader_def readable_iff [OF assms])

text \<open>The newcomer test is sound: where a process with the recorded pid is readable, it leads every process of that session.\<close>

lemma members_iff:
  assumes m: "orderly m"
  shows "p \<in> set (members l (mh_table m)) \<longleftrightarrow> p \<in> set (mh_table m) \<and> ps_open p \<and> ps_session p = ld_pid l \<and>
    ld_started l \<le> ps_started p \<and> (ps_home p = l \<or> leader_of (mh_table m) (ld_pid l) = None)"
proof (cases "p \<in> set (mh_table m) \<and> ps_open p")
  case False
  then show ?thesis
    by (auto simp: members_def session_of_def started_of_def started_within_def readable_self [OF m])
next
  case True
  let ?now = "leader_of (mh_table m) (ld_pid l)"
  have read: "session_of (mh_table m) (ps_pid p) = ps_session p" "started_of (mh_table m) (ps_pid p) = Some (ps_started p)"
    using True by (simp_all add: session_of_def started_of_def readable_self [OF m])
  have "(case ?now of None \<Rightarrow> True | Some n \<Rightarrow> n \<noteq> l \<longrightarrow> ps_started p < ld_started n) \<longleftrightarrow> ps_home p = l \<or> ?now = None"
    if "ps_session p = ld_pid l"
  proof (cases ?now)
    case (Some n)
    then obtain q where q: "q \<in> set (mh_table m)" "ps_pid q = ld_pid l" "self_leader q = n"
      by (auto simp: leader_of_iff [OF m])
    with True that have "ps_home p = n" using besideD(4) [OF orderlyD(2) [OF m, of p q]] by simp
    with orderlyD(1) [OF m, of p] True Some show ?thesis by (auto simp: placed_def)
  qed simp
  with True read show ?thesis by (auto simp: members_def started_within_def)
qed

section \<open>What the ledger names\<close>

inductive reached :: "served \<Rightarrow> bool" where
  starts: "orderly m \<Longrightarrow> reached \<lparr>sd_host = m, sd_ledger = None, sd_phase = Unheld, sd_stopper = Idle,
    sd_begun = {}, sd_lost = {}, sd_signalled = []\<rparr>"
| step: "reached s \<Longrightarrow> serve_step s t \<Longrightarrow> reached t"

definition pending_session :: "keeper_phase \<Rightarrow> leader set" where
  "pending_session ph = (case ph of Begun _ l \<Rightarrow> {l} | _ \<Rightarrow> {})"

text \<open>
  Sessions began in the past and their leaders lead them; whom the ledger names is a session a keeper
  began, or its pid from a later instant on; and whom a sweep signalled was in a session of such a pid.
\<close>

definition sound :: "served \<Rightarrow> bool" where
  "sound s \<longleftrightarrow> orderly (sd_host s) \<and> (\<forall>l \<in> sd_begun s. ld_started l \<le> mh_clock (sd_host s)) \<and>
     (\<forall>p \<in> set (sd_table s). self_leader p \<in> sd_begun s \<longrightarrow> ps_home p = self_leader p) \<and>
     (\<forall>l \<in> sd_begun s. \<forall>p \<in> set (sd_table s). ps_pid p = ld_pid l \<longrightarrow> ld_started l \<le> ps_started p) \<and>
     pending_session (sd_phase s) \<subseteq> sd_begun s \<and>
     (\<forall>g \<in> named_sessions (sd_ledger s). \<exists>l \<in> sd_begun s. ld_pid g = ld_pid l \<and> ld_started l \<le> ld_started g)"

definition tracked_trees :: "served \<Rightarrow> bool" where
  "tracked_trees s \<longleftrightarrow> (\<forall>p \<in> set (sd_table s). ps_home p \<in> sd_begun s \<longrightarrow>
     ps_home p \<in> named_sessions (sd_ledger s) \<union> pending_session (sd_phase s) \<union> sd_lost s)"

lemma machine_homes:
  assumes "machine_step m n" and "q \<in> set (mh_table n)"
  shows "(\<exists>p \<in> set (mh_table m). ps_home q = ps_home p \<and> (self_leader q = self_leader p \<or> mh_clock m < ps_started q)) \<or>
    (\<exists>p \<in> set (mh_table m). ps_home q = self_leader p \<and> self_leader q = self_leader p \<and> ps_session p \<noteq> ps_pid p)"
  using assms
proof (cases rule: machine_step.cases)
  case (forks p pid now)
  then show ?thesis using assms(2) by (auto simp: child_def)
next
  case (leaves p)
  then show ?thesis using assms(2) by (auto simp: new_session_def set_without_pid self_leader_def)
next
  case (guards p b)
  then show ?thesis using assms(2) by (auto simp: set_without_pid self_leader_def)
next
  case (ends p)
  then show ?thesis using assms(2) by (auto simp: set_without_pid)
qed

lemma machine_clock: "machine_step m n \<Longrightarrow> mh_clock m \<le> mh_clock n"
  by (induction rule: machine_step.induct) simp_all

lemma machine_tracked:
  assumes "machine_step (sd_host s) m" and "sound s" and "tracked_trees s"
  shows "sound (s\<lparr>sd_host := m\<rparr>) \<and> tracked_trees (s\<lparr>sd_host := m\<rparr>)"
proof -
  note s = assms(2) [unfolded sound_def]
  have place: "placed (mh_clock (sd_host s)) p" if "p \<in> set (sd_table s)" for p
    using that s orderlyD(1) by (auto simp: sd_table_def)
  have homes: "ps_home q = ps_home p \<and> (self_leader q = self_leader p \<or> self_leader q \<notin> sd_begun s)"
    if q: "q \<in> set (mh_table m)" "ps_home q \<in> sd_begun s \<or> self_leader q \<in> sd_begun s"
      and p: "p \<in> set (sd_table s)" "ps_home q = ps_home p \<and> (self_leader q = self_leader p \<or> mh_clock (sd_host s) < ps_started q) \<or>
       ps_home q = self_leader p \<and> self_leader q = self_leader p \<and> ps_session p \<noteq> ps_pid p" for p q
    using p(2)
  proof (elim disjE conjE)
    assume "ps_home q = ps_home p" "mh_clock (sd_host s) < ps_started q"
    with s show ?thesis by (auto simp: self_leader_def)
  next
    assume led: "ps_home q = self_leader p" "self_leader q = self_leader p" "ps_session p \<noteq> ps_pid p"
    with q(2) s p(1) have "ps_home p = self_leader p" by auto
    with place [OF p(1)] led(3) show ?thesis by (simp add: placed_def self_leader_def)
  qed simp_all
  have origin: "\<exists>p \<in> set (sd_table s). ps_home q = ps_home p \<and> (self_leader q = self_leader p \<or> self_leader q \<notin> sd_begun s)"
    if "q \<in> set (mh_table m)" "ps_home q \<in> sd_begun s \<or> self_leader q \<in> sd_begun s" for q
    using machine_homes [OF assms(1) that(1)] homes [OF that] unfolding sd_table_def by metis
  have later: "ld_started l \<le> ps_started q" if "q \<in> set (mh_table m)" "l \<in> sd_begun s" "ps_pid q = ld_pid l" for q l
  proof -
    from machine_homes [OF assms(1) that(1)] obtain p where p: "p \<in> set (sd_table s)"
      "self_leader q = self_leader p \<or> mh_clock (sd_host s) < ps_started q" unfolding sd_table_def by blast
    from p(2) show ?thesis
    proof
      assume "self_leader q = self_leader p"
      with that s p(1) show ?thesis by (auto simp: self_leader_def)
    next
      assume "mh_clock (sd_host s) < ps_started q"
      with s that(2) show ?thesis by force
    qed
  qed
  have "sound (s\<lparr>sd_host := m\<rparr>)"
    using s machine_orderly [OF assms(1)] machine_clock [OF assms(1)] origin later
    by (fastforce simp: sound_def sd_table_def)
  moreover have "tracked_trees (s\<lparr>sd_host := m\<rparr>)"
    unfolding tracked_trees_def using origin assms(3) by (fastforce simp: tracked_trees_def sd_table_def)
  ultimately show ?thesis ..
qed

lemma sweep_near:
  assumes "sound s" and "p \<in> set (ledger_members (sd_ledger s) (sd_table s))"
  shows "p \<in> set (sd_table s) \<and> ps_open p \<and> (\<exists>l \<in> sd_begun s. ps_session p = ld_pid l \<and> ld_started l \<le> ps_started p)"
proof -
  from assms(2) obtain g where g: "ledger_supervisor (sd_ledger s) = Some g" "p \<in> set (members g (sd_table s))"
    by (cases "ledger_supervisor (sd_ledger s)") (auto simp: ledger_members_def)
  with assms(1) obtain l where "l \<in> sd_begun s" "ld_pid g = ld_pid l" "ld_started l \<le> ld_started g"
    by (auto simp: sound_def named_sessions_def)
  moreover have "p \<in> set (sd_table s) \<and> ps_open p \<and> ps_session p = ld_pid g \<and> ld_started g \<le> ps_started p"
    using g(2) members_iff [of "sd_host s" p g] assms(1) by (simp add: sound_def sd_table_def)
  ultimately show ?thesis by (metis order_trans)
qed

definition near_sessions :: "served \<Rightarrow> bool" where
  "near_sessions s \<longleftrightarrow> (\<forall>p \<in> set (sd_signalled s). \<exists>l \<in> sd_begun s. ps_session p = ld_pid l \<and> ld_started l \<le> ps_started p) \<and>
     (\<forall>w ms. sd_phase s = Termed w ms \<or> sd_stopper s = Asking ms \<longrightarrow> set ms \<subseteq> set (sd_signalled s))"

lemma near_more:
  assumes "near_sessions s" and "sd_begun t = sd_begun s" and "sd_signalled t = sd_signalled s @ ks"
    and ks: "\<And>p. p \<in> set ks \<Longrightarrow> \<exists>l \<in> sd_begun s. ps_session p = ld_pid l \<and> ld_started l \<le> ps_started p"
    and "\<And>w ms. sd_phase t = Termed w ms \<Longrightarrow> sd_phase s = Termed w ms \<or> ms = ks"
    and "\<And>ms. sd_stopper t = Asking ms \<Longrightarrow> sd_stopper s = Asking ms \<or> ms = ks"
  shows "near_sessions t"
proof -
  have "set ms \<subseteq> set (sd_signalled t)" if "sd_phase t = Termed w ms \<or> sd_stopper t = Asking ms" for w ms
    using that assms(1,3) assms(5) [of w ms] assms(6) [of ms] by (auto simp: near_sessions_def)
  moreover have "\<exists>l \<in> sd_begun t. ps_session p = ld_pid l \<and> ld_started l \<le> ps_started p" if "p \<in> set (sd_signalled t)" for p
    using that assms(1-3) ks [of p] by (auto simp: near_sessions_def)
  ultimately show ?thesis by (simp add: near_sessions_def)
qed

lemma near_signals:
  assumes "sound s" and "scans s ks" and "near_sessions s" and "sd_begun t = sd_begun s"
    and "sd_signalled t = sd_signalled s @ ks"
    and "\<And>w ms. sd_phase t = Termed w ms \<Longrightarrow> sd_phase s = Termed w ms \<or> ms = ks"
    and "\<And>ms. sd_stopper t = Asking ms \<Longrightarrow> sd_stopper s = Asking ms \<or> ms = ks"
  shows "near_sessions t"
  by (rule near_more [OF assms(3-5) _ assms(6,7)]) (use sweep_near [OF assms(1)] assms(2) in \<open>auto simp: scans_def\<close>)

lemma near_kills:
  assumes "near_sessions s" and "sd_phase s = Termed w ms \<or> sd_stopper s = Asking ms" and "sd_begun t = sd_begun s"
    and "sd_signalled t = sd_signalled s @ still_running tb ms"
    and "\<And>w ms. sd_phase t = Termed w ms \<Longrightarrow> sd_phase s = Termed w ms"
    and "\<And>ms. sd_stopper t = Asking ms \<Longrightarrow> sd_stopper s = Asking ms"
  shows "near_sessions t"
proof (rule near_more [OF assms(1,3,4)])
  have "set ms \<subseteq> set (sd_signalled s)" using assms(1,2) by (auto simp: near_sessions_def)
  then show "\<exists>l \<in> sd_begun s. ps_session p = ld_pid l \<and> ld_started l \<le> ps_started p" if "p \<in> set (still_running tb ms)" for p
    using that assms(1) by (auto simp: near_sessions_def still_running_def)
qed (use assms(5,6) in blast)+

lemma sound_simps:
  "sound (s\<lparr>sd_lost := z\<rparr>) = sound s" "sound (s\<lparr>sd_signalled := ps\<rparr>) = sound s"
  by (simp_all add: sound_def sd_table_def)

lemma serve_sound:
  assumes "serve_step s t" and "sound s" and "tracked_trees s" and "near_sessions s"
  shows "sound t \<and> tracked_trees t \<and> near_sessions t"
  using assms(1)
proof (cases rule: serve_step.cases)
  case (machine m)
  with machine_tracked [OF machine(2) assms(2,3)] assms(4) show ?thesis by (simp add: near_sessions_def)
next
  case (locks k)
  with assms(2-4) show ?thesis
    by (simp add: sound_def tracked_trees_def near_sessions_def sd_table_def pending_session_def)
next
  case (dies k)
  with assms(2-4) show ?thesis
    by (cases "sd_phase s") (auto simp: sound_def tracked_trees_def near_sessions_def sd_table_def pending_session_def)
next
  case (stops ms)
  moreover have "near_sessions t" by (rule near_signals [OF assms(2) stops(3) assms(4)]) (use stops in auto)
  ultimately show ?thesis using assms(2,3)
    by (simp add: sound_def tracked_trees_def sd_table_def pending_session_def)
next
  case (stop_kills ms)
  moreover have "near_sessions t" by (rule near_kills [OF assms(4) disjI2 [OF stop_kills(2)]]) (use stop_kills in simp_all)
  ultimately show ?thesis using assms(2,3) by (simp add: sound_def tracked_trees_def sd_table_def)
next
  case (stop_looks ms)
  with assms(2-4) show ?thesis
    by (simp add: sound_def tracked_trees_def near_sessions_def sd_table_def)
next
  case stop_forgets
  with assms(2-4) show ?thesis
    by (auto simp: left_sessions_def sound_def tracked_trees_def near_sessions_def sd_table_def named_sessions_def ledger_supervisor_def)
next
  case stop_dies
  with assms(2-4) show ?thesis
    by (simp add: sound_def tracked_trees_def near_sessions_def sd_table_def)
next
  case (terms k ms)
  moreover have "near_sessions t" by (rule near_signals [OF assms(2) terms(3) assms(4)]) (use terms in auto)
  ultimately show ?thesis using assms(2,3)
    by (simp add: sound_def tracked_trees_def sd_table_def pending_session_def)
next
  case (kills w ms)
  moreover have "near_sessions t" by (rule near_kills [OF assms(4) disjI1 [OF kills(2)]]) (use kills in simp_all)
  ultimately show ?thesis using assms(2,3) by (simp add: sound_def tracked_trees_def sd_table_def pending_session_def)
next
  case (swept w ms)
  have "pending_session (swept_phase w) = {}" "sd_phase s = Slain w \<Longrightarrow> pending_session (sd_phase s) = {}"
    by (cases w; simp add: pending_session_def)+
  moreover have "swept_phase w \<noteq> Termed w' ks" for w' ks by (cases w) simp_all
  ultimately show ?thesis
    using swept assms(2-4)
    by (auto simp: sound_def tracked_trees_def near_sessions_def sd_table_def left_sessions_def named_sessions_def ledger_supervisor_def)
next
  case (begins k p pid now l)
  let ?c = "(new_session (child p pid now))\<lparr>ps_open := True\<rparr>"
  have c: "ps_pid ?c = pid" "ps_started ?c = now" "ps_session ?c = ps_pid ?c" "ps_home ?c = self_leader ?c" "self_leader ?c = l" "ps_home ?c = l"
    using begins by (simp_all add: new_session_def child_def self_leader_def)
  have "orderly ((sd_host s)\<lparr>mh_table := ?c # mh_table (sd_host s), mh_clock := ps_started ?c\<rparr>)"
    using assms(2) begins c by (intro orderly_child) (auto simp: sound_def sd_table_def)
  then have "orderly \<lparr>mh_table = ?c # sd_table s, mh_clock = now\<rparr>"
    by (cases "sd_host s") (simp add: sd_table_def c)
  moreover have old: "ps_started q < now" if "q \<in> set (sd_table s)" for q
    using that assms(2) begins(5) orderlyD(1) [of "sd_host s" q] by (auto simp: sound_def sd_table_def placed_def)
  moreover have "self_leader q \<noteq> l" "ps_home q \<noteq> l" if "q \<in> set (sd_table s)" for q
    using old [OF that] that assms(2) begins(6) orderlyD(1) [of "sd_host s" q]
    by (auto simp: self_leader_def sound_def sd_table_def placed_def)
  moreover have "ps_pid q \<noteq> pid" if "q \<in> set (sd_table s)" for q using fresh_pidD [OF begins(4) that] by simp
  ultimately show ?thesis using assms(2-4) begins c
    by (auto simp: sound_def tracked_trees_def near_sessions_def sd_table_def pending_session_def)
next
  case (records k l now r)
  have l: "l \<in> sd_begun s" using records assms(2) by (simp add: sound_def pending_session_def)
  have "ld_pid r = ld_pid l \<and> ld_started l \<le> ld_started r"
  proof (cases "leader_of (sd_table s) (ld_pid l)")
    case None
    with records l assms(2) show ?thesis by (force simp: recorded_leader_def sound_def)
  next
    case (Some x)
    with assms(2) obtain p where "p \<in> set (sd_table s)" "ps_pid p = ld_pid l" "self_leader p = x"
      by (auto simp: sound_def sd_table_def leader_of_iff)
    with Some records l assms(2) show ?thesis by (auto simp: recorded_leader_def sound_def self_leader_def)
  qed
  with records assms(2-4) show ?thesis
    by (auto simp: sound_def tracked_trees_def near_sessions_def sd_table_def pending_session_def named_sessions_def ledger_supervisor_def)
next
  case (exits k l ms)
  moreover have "near_sessions t" by (rule near_signals [OF assms(2) exits(4) assms(4)]) (use exits in auto)
  ultimately show ?thesis using assms(2,3)
    by (simp add: sound_def tracked_trees_def sd_table_def pending_session_def)
qed

lemma reached_sound: "reached s \<Longrightarrow> sound s \<and> tracked_trees s \<and> near_sessions s"
proof (induction rule: reached.induct)
  case (starts m)
  then show ?case
    by (simp add: sound_def tracked_trees_def near_sessions_def sd_table_def pending_session_def named_sessions_def ledger_supervisor_def)
qed (use serve_sound in blast)

text \<open>
  C17. A supervisor's tree is never forgotten. In every state keepers, crashes, stops and the machine itself
  lead to, a process still in a session some keeper started is in the session the ledger names, or in the
  one started and not recorded yet, or in a session lost: to a crash between the start and the record, to a
  supervisor gone before it was recorded, to a ledger written over the survivors of a sweep, to a sweep whose last
  scan found none while some ran, closed to this user or missed, or to a stop that forgot the ledger a keeper wrote after that scan.
  And a sweep only ever signalled processes in a session of a pid a keeper started one with, no sooner than that one began.
\<close>

theorem tree_never_forgotten:
  assumes "reached s"
  shows "(\<forall>p \<in> set (sd_table s). ps_home p \<in> sd_begun s \<longrightarrow>
      ps_home p \<in> named_sessions (sd_ledger s) \<union> pending_session (sd_phase s) \<union> sd_lost s) \<and>
    (\<forall>q \<in> set (sd_signalled s). \<exists>l \<in> sd_begun s. ps_session q = ld_pid l \<and> ld_started l \<le> ps_started q)"
  using reached_sound [OF assms] by (simp add: tracked_trees_def near_sessions_def)



section \<open>A newcomer's children\<close>

text \<open>
  A keeper's machine where the recorded supervisor ends, its pid goes to a process that starts a session
  of its own and ends, and the next keeper sweeps the child it left.
\<close>

definition snap :: "citizen list \<Rightarrow> rat \<Rightarrow> ledger \<Rightarrow> keeper_phase \<Rightarrow> citizen list \<Rightarrow> served" where
  "snap t now g ph signalled = \<lparr>sd_host = \<lparr>mh_table = t, mh_clock = now\<rparr>, sd_ledger = g, sd_phase = ph, sd_stopper = Idle,
     sd_begun = {\<lparr>ld_pid = 5, ld_started = 1\<rparr>}, sd_lost = {}, sd_signalled = signalled\<rparr>"

definition citizen_of :: "nat \<Rightarrow> rat \<Rightarrow> leader \<Rightarrow> citizen" where
  "citizen_of pid begun home = \<lparr>ps_pid = pid, ps_started = begun, ps_session = ld_pid home, ps_open = True, ps_home = home\<rparr>"

abbreviation (input) "lead pid begun \<equiv> \<lparr>ld_pid = pid, ld_started = begun\<rparr>"
abbreviation (input) "init_process \<equiv> citizen_of 1 0 (lead 1 0)"
abbreviation (input) "recorded_session \<equiv> Some (lead 2 0, lead 5 1)"

lemma keeper_sample_runs:
  assumes "reached \<lparr>sd_host = \<lparr>mh_table = [init_process], mh_clock = 0\<rparr>, sd_ledger = None, sd_phase = Unheld, sd_stopper = st,
    sd_begun = {}, sd_lost = {}, sd_signalled = []\<rparr>" (is "reached ?s0")
  shows "reached ((snap [citizen_of 5 1 (lead 5 1), init_process] 1 recorded_session (Watching (lead 2 0) (lead 5 1)) [])\<lparr>sd_stopper := st\<rparr>)"
proof -
  note simps = sd_table_def ledger_members_def ledger_supervisor_def named_sessions_def left_sessions_def scans_def
  from reached.step [OF assms serve_step.locks [of _ "lead 2 0"]] have "reached (?s0\<lparr>sd_phase := Locked (lead 2 0)\<rparr>)" by simp
  from reached.step [OF this serve_step.terms [of _ _ "[]"]] have "reached (?s0\<lparr>sd_phase := Termed (Before (lead 2 0)) []\<rparr>)" by (simp add: simps)
  from reached.step [OF this serve_step.kills] have "reached (?s0\<lparr>sd_phase := Slain (Before (lead 2 0))\<rparr>)" by (simp add: still_running_def)
  from reached.step [OF this serve_step.swept [of _ _ "[]"]] have "reached (?s0\<lparr>sd_phase := Ready (lead 2 0)\<rparr>)" by (simp add: simps)
  from reached.step [OF this serve_step.begins [of _ "lead 2 0" init_process 5 1 "lead 5 1"]]
  have "reached ((snap [citizen_of 5 1 (lead 5 1), init_process] 1 None (Begun (lead 2 0) (lead 5 1)) [])\<lparr>sd_stopper := st\<rparr>)"
    by (simp add: snap_def simps fresh_pid_def citizen_of_def new_session_def child_def self_leader_def)
  from reached.step [OF this serve_step.records [of _ "lead 2 0" "lead 5 1" 1 "lead 5 1"]] show ?thesis
    by (simp add: snap_def simps citizen_of_def recorded_leader_def leader_of_def started_of_def readable_def)
qed

lemma sample_starts:
  "reached \<lparr>sd_host = \<lparr>mh_table = [init_process], mh_clock = 0\<rparr>, sd_ledger = None, sd_phase = Unheld, sd_stopper = Idle,
    sd_begun = {}, sd_lost = {}, sd_signalled = []\<rparr>"
  by (rule reached.starts) (simp add: orderly_def placed_def beside_def citizen_of_def self_leader_def)

lemma sample_recorded:
  "reached (snap [citizen_of 5 1 (lead 5 1), init_process] 1 recorded_session (Watching (lead 2 0) (lead 5 1)) [])"
  using keeper_sample_runs [OF sample_starts] by (simp add: snap_def)

text \<open>A stop that looked before a keeper wrote the ledger forgets the ledger of a supervisor it never stopped.\<close>

theorem stop_forgets_running:
  "\<exists>s p k l. reached s \<and> sd_phase s = Watching k l \<and> sd_ledger s = None \<and> p \<in> set (sd_table s) \<and> ps_open p \<and>
     self_leader p = l \<and> l \<in> sd_begun s"
proof -
  let ?s = "snap [citizen_of 5 1 (lead 5 1), init_process] 1 recorded_session (Watching (lead 2 0) (lead 5 1)) []"
  note simps = sd_table_def ledger_members_def ledger_supervisor_def still_running_def scans_def
  note asked = reached.step [OF sample_starts serve_step.stops [of _ "[]"]]
  note killed = reached.step [OF asked serve_step.stop_kills [of _ "[]"]]
  note looked = reached.step [OF killed serve_step.stop_looks [of _ "[]"]]
  have "reached (?s\<lparr>sd_stopper := Emptied\<rparr>)"
    by (rule keeper_sample_runs) (use looked in \<open>simp add: simps\<close>)
  from reached.step [OF this serve_step.stop_forgets]
  have "reached (?s\<lparr>sd_ledger := None, sd_lost := {lead 5 1}\<rparr>)"
    by (simp add: snap_def sd_table_def left_sessions_def named_sessions_def ledger_supervisor_def citizen_of_def)
  then show ?thesis
    by (intro exI [of _ "?s\<lparr>sd_ledger := None, sd_lost := {lead 5 1}\<rparr>"] exI [of _ "citizen_of 5 1 (lead 5 1)"]
        exI [of _ "lead 2 0"] exI [of _ "lead 5 1"])
      (simp add: snap_def sd_table_def citizen_of_def self_leader_def)
qed

lemma sample_machine:
  "reached (snap t now g ph ps) \<Longrightarrow> machine_step \<lparr>mh_table = t, mh_clock = now\<rparr> \<lparr>mh_table = t', mh_clock = now'\<rparr> \<Longrightarrow>
     reached (snap t' now' g ph ps)"
  using reached.step [OF _ serve_step.machine [of "snap t now g ph ps"]] by (simp add: snap_def)

text \<open>A sweep signals a process no keeper's supervisor ever started.\<close>

theorem newcomers_child_swept: "\<exists>s p. reached s \<and> p \<in> set (sd_signalled s) \<and> ps_home p \<notin> sd_begun s"
proof -
  let ?child = "citizen_of 6 3 (lead 5 2)"
  note ms = machine_step.ends machine_step.forks machine_step.leaves
  note simps = citizen_of_def without_pid_def fresh_pid_def child_def new_session_def self_leader_def
  have "reached (snap [citizen_of 5 1 (lead 5 1), init_process] 1 recorded_session Unheld [])"
    using reached.step [OF sample_recorded serve_step.dies [of _ "lead 2 0"]] by (simp add: snap_def)
  then have "reached (snap [init_process] 1 recorded_session Unheld [])"
    by (rule sample_machine) (use machine_step.ends [of "citizen_of 5 1 (lead 5 1)"
      "\<lparr>mh_table = [citizen_of 5 1 (lead 5 1), init_process], mh_clock = 1\<rparr>"] in \<open>simp add: simps\<close>)
  then have "reached (snap [citizen_of 5 2 (lead 1 0), init_process] 2 recorded_session Unheld [])"
    by (rule sample_machine) (use machine_step.forks [of init_process "\<lparr>mh_table = [init_process], mh_clock = 1\<rparr>" 5 2]
      in \<open>simp add: simps\<close>)
  then have "reached (snap [citizen_of 5 2 (lead 5 2), init_process] 2 recorded_session Unheld [])"
    by (rule sample_machine) (use machine_step.leaves [of "citizen_of 5 2 (lead 1 0)"
      "\<lparr>mh_table = [citizen_of 5 2 (lead 1 0), init_process], mh_clock = 2\<rparr>"] in \<open>simp add: simps\<close>)
  then have "reached (snap [?child, citizen_of 5 2 (lead 5 2), init_process] 3 recorded_session Unheld [])"
    by (rule sample_machine) (use machine_step.forks [of "citizen_of 5 2 (lead 5 2)"
      "\<lparr>mh_table = [citizen_of 5 2 (lead 5 2), init_process], mh_clock = 2\<rparr>" 6 3] in \<open>simp add: simps\<close>)
  then have "reached (snap [?child, init_process] 3 recorded_session Unheld [])"
    by (rule sample_machine) (use machine_step.ends [of "citizen_of 5 2 (lead 5 2)"
      "\<lparr>mh_table = [?child, citizen_of 5 2 (lead 5 2), init_process], mh_clock = 3\<rparr>"] in \<open>simp add: simps\<close>)
  from reached.step [OF this serve_step.locks [of _ "lead 3 3"]]
  have "reached (snap [?child, init_process] 3 recorded_session (Locked (lead 3 3)) [])" by (simp add: snap_def)
  from reached.step [OF this serve_step.terms [of _ _ "[?child]"]]
  have "reached (snap [?child, init_process] 3 recorded_session (Termed (Before (lead 3 3)) [?child]) [?child])"
    by (simp add: snap_def scans_def sd_table_def ledger_members_def ledger_supervisor_def members_def session_of_def readable_def
        started_of_def leader_of_def started_within_def citizen_of_def)
  then show ?thesis by (intro exI [of _ "snap [?child, init_process] 3 recorded_session (Termed (Before (lead 3 3)) [?child]) [?child]"] exI [of _ ?child])
    (simp add: snap_def citizen_of_def)
qed

text \<open>After a crash, the next keeper's first sweep finds the supervisor the ledger names.\<close>

lemma sample_swept:
  "reached (snap [citizen_of 5 1 (lead 5 1), init_process] 1 recorded_session
     (Termed (Before (lead 3 1)) [citizen_of 5 1 (lead 5 1)]) [citizen_of 5 1 (lead 5 1)])"
proof -
  have "reached (snap [citizen_of 5 1 (lead 5 1), init_process] 1 recorded_session Unheld [])"
    using reached.step [OF sample_recorded serve_step.dies [of _ "lead 2 0"]] by (simp add: snap_def)
  from reached.step [OF this serve_step.locks [of _ "lead 3 1"]]
  have "reached (snap [citizen_of 5 1 (lead 5 1), init_process] 1 recorded_session (Locked (lead 3 1)) [])" by (simp add: snap_def)
  from reached.step [OF this serve_step.terms [of _ _ "[citizen_of 5 1 (lead 5 1)]"]] show ?thesis
    by (simp add: snap_def scans_def sd_table_def ledger_members_def ledger_supervisor_def members_def session_of_def readable_def
        started_of_def leader_of_def started_within_def citizen_of_def)
qed

theorem tree_never_forgotten_witness:
  "\<exists>s p. reached s \<and> p \<in> set (sd_table s) \<and> ps_home p \<in> sd_begun s \<and> p \<in> set (sd_signalled s) \<and>
     ps_home p \<in> named_sessions (sd_ledger s) \<union> pending_session (sd_phase s) \<union> sd_lost s \<and>
     (\<exists>l \<in> sd_begun s. ps_session p = ld_pid l \<and> ld_started l \<le> ps_started p)"
proof -
  let ?p = "citizen_of 5 1 (lead 5 1)"
  let ?s = "snap [?p, init_process] 1 recorded_session (Termed (Before (lead 3 1)) [?p]) [?p]"
  have "?p \<in> set (sd_table ?s)" "ps_home ?p \<in> sd_begun ?s" "?p \<in> set (sd_signalled ?s)"
    by (simp_all add: snap_def sd_table_def citizen_of_def)
  with tree_never_forgotten [OF sample_swept] sample_swept show ?thesis by blast
qed


end
