(* ===== verification/Serve.thy ===== *)
theory Serve
  imports Keeper Settlement Enforcers "HOL-Library.List_Lexorder" "HOL-Library.Char_ord"
begin

text \<open>
  \<open>mb serve\<close>: the declared children and the document process-compose runs them from
  (\<open>serve/constants.py\<close>, \<open>serve/compose.py\<close>), and the supervisor's start, stop and status
  (\<open>serve/supervisor.py\<close>). The service manager, process-compose, the socket's answers, the workspace
  executables and the machine's processes are parameters.
\<close>

section \<open>Declared children\<close>

datatype service_kind = PERIODIC | RESIDENT

definition kind_of_service :: "service \<Rightarrow> service_kind" where
  "kind_of_service s = (if se_every s \<noteq> [] then PERIODIC else RESIDENT)"

definition service_runnable :: "service \<Rightarrow> fault option" where
  "service_runnable s =
     (if se_off s \<noteq> [] then None
      else if se_command s = [] then Some (ValueError (se_name s @ '' runs but has no command; give it one, or say why it is off''))
      else if se_every s \<noteq> [] \<and> se_timeout s \<le> 0
      then Some (ValueError (''the '' @ se_name s @ '' pass runs every '' @ se_every s @ '' with no timeout''))
      else None)"

definition TOOL :: string where "TOOL = ''mainboard''"


section \<open>Commands and paths as text\<close>

text \<open>\<open>shlex.quote\<close> and \<open>shlex.join\<close>.\<close>

definition shell_safe :: "char \<Rightarrow> bool" where
  "shell_safe c \<longleftrightarrow> (let n = of_char c :: nat in 48 \<le> n \<and> n \<le> 57 \<or> 65 \<le> n \<and> n \<le> 90 \<or> 97 \<le> n \<and> n \<le> 122) \<or>
     c \<in> set ''_@%+=:,./-''"

definition shlex_quote :: "string \<Rightarrow> string" where
  "shlex_quote s =
     (if s = [] then [CHR 0x27, CHR 0x27]
      else if list_all shell_safe s then s
      else [CHR 0x27] @ concat (map (\<lambda>c. if c = CHR 0x27 then [CHR 0x27, CHR 0x22, CHR 0x27, CHR 0x22, CHR 0x27] else [c]) s) @ [CHR 0x27])"

definition shlex_join :: "string list \<Rightarrow> string" where
  "shlex_join parts = join_with '' '' (map shlex_quote parts)"

text \<open>\<open>str(Path(text))\<close>: empty parts and single dots go, a root stays, two leading slashes stay two.\<close>

definition path_text :: "string \<Rightarrow> string" where
  "path_text p =
     (let parts = filter (\<lambda>part. part \<noteq> [] \<and> part \<noteq> ''.'') (split_on (CHR ''/'') p);
          root = (if prefix ''//'' p \<and> \<not> prefix ''///'' p then ''//'' else if prefix ''/'' p then ''/'' else [])
      in if root = [] \<and> parts = [] then ''.'' else root @ join_with ''/'' parts)"

definition path_join :: "string \<Rightarrow> string \<Rightarrow> string" where
  "path_join a b = path_text (if prefix ''/'' b then b else a @ ''/'' @ b)"


section \<open>The document\<close>

text \<open>Where programs are: the installed tool, and what \<open>Binaries.check\<close> answers.\<close>

record programs =
  pg_tool :: "string option"
  pg_check :: "string \<Rightarrow> fault + string"

definition locate :: "programs \<Rightarrow> string \<Rightarrow> fault + string" where
  "locate p program =
     (if prefix ''/'' program then Inr (path_text program)
      else if program \<noteq> TOOL then pg_check p program
      else case pg_tool p of
             None \<Rightarrow> Inl (MissionError (''no '' @ TOOL @ '' on PATH for a served child to run; install the tool''))
           | Some t \<Rightarrow> Inr t)"

text \<open>What a document is made from: the workspace, the state directory, the programs, the \<open>.env\<close> names and the allowlist.\<close>

record served_space =
  ss_root :: string
  ss_state :: string
  ss_programs :: programs
  ss_dotenv :: "string list"
  ss_allowed :: "(string \<times> string) list"

definition SYSTEM_PATH :: string where "SYSTEM_PATH = ''/usr/bin:/bin:/usr/sbin:/sbin''"

definition allowed_environment :: "string \<Rightarrow> string \<Rightarrow> string \<Rightarrow> (string \<times> string) list" where
  "allowed_environment home user tmp =
     [(''HOME'', home), (''LANG'', ''en_US.UTF-8''), (''LOGNAME'', user), (''PATH'', SYSTEM_PATH), (''TMPDIR'', tmp), (''USER'', user)]"

definition sorted_names :: "string list \<Rightarrow> string list" where
  "sorted_names ns = sort (remdups ns)"

definition service_environment :: "served_space \<Rightarrow> service \<Rightarrow> fault + (string \<times> string) list" where
  "service_environment w s =
     (let names = map fst (se_environment s);
          leaked = sorted_names (filter (\<lambda>n. n \<in> set (ss_dotenv w)) names);
          shadowed = sorted_names (filter (\<lambda>n. n \<in> fst ` set (ss_allowed w)) names)
      in if leaked \<noteq> []
         then Inl (MissionError (se_name s @ '' declares '' @ join_with '', '' leaked @ '', which the workspace .env defines; '' @
                ''a served child is given the path of a secret'' @ [CHR 0x27] @ ''s 0600 file, never the secret''))
         else if shadowed \<noteq> []
         then Inl (MissionError (se_name s @ '' redefines '' @ join_with '', '' shadowed @ '' of the allowlist''))
         else Inr (se_environment s))"

definition child_argv :: "served_space \<Rightarrow> service \<Rightarrow> fault + string list" where
  "child_argv w s =
     (case se_command s of
        [] \<Rightarrow> Inl (ValueError ''not enough values to unpack (expected at least 1, got 0)'')
      | program # arguments \<Rightarrow>
          (case locate (ss_programs w) program of
             Inl e \<Rightarrow> Inl e
           | Inr path \<Rightarrow>
               if kind_of_service s = PERIODIC
               then map_sum id (\<lambda>tool. tool # ''proc'' # ''timeout'' # int_text (se_timeout s) # path # arguments)
                      (locate (ss_programs w) TOOL)
               else Inr (path # arguments)))"

definition MAX_LOG_MB :: int where "MAX_LOG_MB = 4"
definition LOG_BACKUPS :: int where "LOG_BACKUPS = 3"
definition BACKOFF :: int where "BACKOFF = 2"

definition compose_child :: "served_space \<Rightarrow> service \<Rightarrow> fault + json" where
  "compose_child w s =
     (case child_argv w s of
        Inl e \<Rightarrow> Inl e
      | Inr argv \<Rightarrow>
          map_sum id (\<lambda>env. JObj
            ([(''command'', JStr (''exec '' @ shlex_join argv)),
              (''is_template_disabled'', JBool True),
              (''working_dir'', JStr (ss_root w)),
              (''environment'', JList (map (\<lambda>(name, v). JStr (name @ ''='' @ v)) env)),
              (''log_location'', JStr (path_join (path_join (ss_state w) ''logs'') (se_name s @ ''.log''))),
              (''log_configuration'', JObj [(''rotation'', JObj
                [(''max_size_mb'', JInt MAX_LOG_MB), (''max_backups'', JInt LOG_BACKUPS), (''compress'', JBool True)])]),
              (''shutdown'', JObj [(''signal'', JInt 15), (''timeout_seconds'', JInt (se_stop s))])] @
             (if kind_of_service s = PERIODIC
              then [(''schedule'', JObj [(''interval'', JStr (se_every s)), (''run_on_start'', JBool True), (''max_concurrent'', JInt 1)])]
              else [(''availability'', JObj [(''restart'', JStr ''always''), (''backoff_seconds'', JInt BACKOFF)])])))
            (service_environment w s))"

definition running_services :: "service list \<Rightarrow> service list" where
  "running_services ss = filter (\<lambda>s. se_off s = []) ss"

fun compose_children :: "served_space \<Rightarrow> service list \<Rightarrow> (string, json) dict \<Rightarrow> fault + (string, json) dict" where
  "compose_children w [] d = Inr d"
| "compose_children w (s # ss) d =
     (case compose_child w s of
        Inl e \<Rightarrow> Inl e
      | Inr j \<Rightarrow> compose_children w ss (AList.update (se_name s) j d))"

definition compose_document :: "served_space \<Rightarrow> service list \<Rightarrow> fault + (string \<times> json) list" where
  "compose_document w ss =
     map_sum id (\<lambda>children.
       [(''version'', JStr ''0.5''), (''is_strict'', JBool True), (''disable_env_expansion'', JBool True),
        (''log_level'', JStr ''info''), (''processes'', JObj children)])
       (compose_children w (running_services ss) [])"

definition STOP_MARGIN :: int where "STOP_MARGIN = 10"

definition stop_seconds :: "service list \<Rightarrow> int" where
  "stop_seconds ss = sum_list (map se_stop (running_services ss)) + STOP_MARGIN"

end
