(* ===== verification/Supervisor.thy ===== *)
theory Supervisor
  imports Serve Evidence
begin

text \<open>
  \<open>mb serve\<close>'s supervisor (\<open>serve/supervisor.py\<close>, with the rows of \<open>core/section.py\<close> and the answers of
  \<open>serve/client.py\<close>): its status rows, and start and stop as computations over what they saw and did. What a
  look finds (processes, ledger, socket, the supervisor's answer), the service manager and process-compose are
  parameters.
\<close>

section \<open>Rows\<close>

datatype grade = PASS | WARN | FAIL

record section_row =
  sn_section :: string
  sn_verdict :: grade
  sn_detail :: string
  sn_fix :: string

definition failed_sections :: "section_row list \<Rightarrow> bool" where
  "failed_sections rows = list_ex (\<lambda>r. sn_verdict r = FAIL) rows"

record child_process =
  cp_exit_code :: int
  cp_is_running :: bool
  cp_name :: string
  cp_next_run_time :: "rat option"
  cp_pid :: int
  cp_restarts :: int
  cp_status :: string

record project_state =
  pj_up_time :: int
  pj_version :: string

text \<open>A socket of a process: its address, and what \<open>ipaddress\<close> and psutil say of it.\<close>

record connection =
  cn_ip :: string
  cn_port :: int
  cn_listening :: bool
  cn_loopback :: bool

text \<open>The workspace served: its document's inputs, its children, its unit, and this machine's local time.\<close>

record supervising =
  su_space :: served_space
  su_services :: "service list"
  su_project :: string
  su_unit :: string
  su_python :: string
  su_keeper :: string
  su_local_time :: "rat \<Rightarrow> string"

text \<open>
  What one status reads: the supervisor's answer (\<open>None\<close> when unanswered), the unit, the ledger, the
  processes, the socket's mode, the environment names (empty when unreadable) and sockets of a process.
\<close>

record seen =
  vw_answer :: "(project_state \<times> child_process list) option"
  vw_loaded :: bool
  vw_ledger :: ledger
  vw_table :: "process list"
  vw_guarded :: bool
  vw_environ :: "nat \<Rightarrow> string list"
  vw_sockets :: "nat \<Rightarrow> connection list"
  vw_found :: bool

definition state_path :: "'z supervising_scheme \<Rightarrow> string \<Rightarrow> string" where
  "state_path w name = path_join (ss_state (su_space w)) name"

definition child_log :: "'z supervising_scheme \<Rightarrow> service \<Rightarrow> string" where
  "child_log w s = path_join (state_path w ''logs'') (se_name s @ ''.log'')"

definition serve_fix :: "'z supervising_scheme \<Rightarrow> string" where
  "serve_fix w = su_project w @ '' serve''"

definition environments :: "seen \<Rightarrow> process list \<Rightarrow> string list list" where
  "environments z tree = filter (\<lambda>names. names \<noteq> []) (map (vw_environ z \<circ> ps_pid) tree)"

definition socket_text :: "connection \<Rightarrow> string" where
  "socket_text c = cn_ip c @ '':'' @ int_text (cn_port c)"

definition exposed :: "seen \<Rightarrow> process list \<Rightarrow> string list" where
  "exposed z tree =
     concat (map (\<lambda>p. map socket_text (filter (\<lambda>c. cn_listening c \<and> \<not> cn_loopback c) (vw_sockets z (ps_pid p)))) tree)"

definition supervisor_absent :: "'z supervising_scheme \<Rightarrow> seen \<Rightarrow> section_row" where
  "supervisor_absent w z =
     (let left = ledger_members (vw_ledger z) (vw_table z) in
      if vw_loaded z
      then \<lparr>sn_section = ''supervisor'', sn_verdict = FAIL,
             sn_detail = su_unit w @ '' is loaded but nothing answers on '' @ state_path w ''pc.sock'' @ ''; read '' @ state_path w ''keeper.log'',
             sn_fix = serve_fix w\<rparr>
      else if left \<noteq> []
      then \<lparr>sn_section = ''supervisor'', sn_verdict = FAIL,
             sn_detail = nat_text (length left) @ '' processes of a stopped serve are still running'', sn_fix = serve_fix w @ '' stop''\<rparr>
      else \<lparr>sn_section = ''supervisor'', sn_verdict = WARN,
             sn_detail = ''not running'' @ (if vw_found z then [] else '', and process-compose is not installed here'') @ ''; the owner starts it'',
             sn_fix = serve_fix w\<rparr>)"

text \<open>\<open>str(timedelta(seconds=n))\<close>.\<close>

definition duration_text :: "int \<Rightarrow> string" where
  "duration_text n =
     (let days = n div 86400; rest = n mod 86400;
          clock = int_text (rest div 3600) @ '':'' @ two_digits (rest mod 3600 div 60) @ '':'' @ two_digits (rest mod 60)
      in if days = 0 then clock
         else int_text days @ '' day'' @ (if \<bar>days\<bar> = 1 then [] else ''s'') @ '', '' @ clock)"

definition leaked_names :: "'z supervising_scheme \<Rightarrow> seen \<Rightarrow> process list \<Rightarrow> string list" where
  "leaked_names w z tree = sorted_names (filter (\<lambda>n. n \<in> set (ss_dotenv (su_space w))) (concat (environments z tree)))"

definition supervisor_faults :: "'z supervising_scheme \<Rightarrow> seen \<Rightarrow> process list \<Rightarrow> string list" where
  "supervisor_faults w z tree =
     (if vw_guarded z then [] else [''the socket is not 0600'']) @
     (if leaked_names w z tree = [] then [] else [join_with '', '' (leaked_names w z tree) @ '' from .env reach a child'']) @
     (if exposed z tree = [] then [] else [''listening on '' @ join_with '', '' (exposed z tree)])"

definition supervisor_answering :: "'z supervising_scheme \<Rightarrow> seen \<Rightarrow> project_state \<Rightarrow> section_row" where
  "supervisor_answering w z st =
     (let tree = ledger_members (vw_ledger z) (vw_table z); faults = supervisor_faults w z tree in
      if faults \<noteq> []
      then \<lparr>sn_section = ''supervisor'', sn_verdict = FAIL,
             sn_detail = join_with ''; '' faults @ '' (process-compose '' @ pj_version st @ '')'', sn_fix = serve_fix w @ '' stop''\<rparr>
      else \<lparr>sn_section = ''supervisor'', sn_verdict = (if vw_loaded z then PASS else WARN),
             sn_detail = ''process-compose '' @ pj_version st @ '' up '' @ duration_text (pj_up_time st div 1000000000) @ '', keeper pid '' @
               (case ledger_keeper (vw_ledger z) of Some k \<Rightarrow> nat_text (ld_pid k) | None \<Rightarrow> ''?'') @ '', '' @ nat_text (length tree) @
               '' processes, unit '' @ su_unit w @ (if vw_loaded z then '' loaded'' else '' NOT loaded'') @ ''; socket 0600, no .env name in the '' @
               nat_text (length (environments z tree)) @ '' environments readable, nothing listening off loopback'',
             sn_fix = (if vw_loaded z then [] else serve_fix w)\<rparr>)"

definition periodic_row :: "'z supervising_scheme \<Rightarrow> service \<Rightarrow> child_process \<Rightarrow> section_row" where
  "periodic_row w s c =
     \<lparr>sn_section = se_name s, sn_verdict = (if cp_exit_code c \<noteq> 0 then WARN else PASS),
      sn_detail = ''every '' @ se_every s @ '', next at '' @
        (case cp_next_run_time c of Some t \<Rightarrow> su_local_time w t | None \<Rightarrow> ''unscheduled'') @
        (if cp_exit_code c \<noteq> 0 then '', the last pass exited '' @ int_text (cp_exit_code c) @ ''; read '' @ child_log w s else []),
      sn_fix = []\<rparr>"

definition STOPPING :: "string list" where
  "STOPPING = [''Terminating'', ''Restarting'', ''Launching'', ''Pending'']"

definition resident_row :: "'z supervising_scheme \<Rightarrow> service \<Rightarrow> child_process \<Rightarrow> section_row" where
  "resident_row w s c =
     (if cp_is_running c \<or> cp_status c \<in> set STOPPING
      then \<lparr>sn_section = se_name s, sn_verdict = PASS,
             sn_detail = lower (cp_status c) @ '', pid '' @ int_text (cp_pid c) @ '', '' @ int_text (cp_restarts c) @ '' restarts'', sn_fix = []\<rparr>
      else \<lparr>sn_section = se_name s, sn_verdict = FAIL,
             sn_detail = lower (cp_status c) @ '', exit '' @ int_text (cp_exit_code c) @ '' after '' @ int_text (cp_restarts c) @
               '' restarts; read '' @ child_log w s,
             sn_fix = serve_fix w\<rparr>)"

definition child_row :: "'z supervising_scheme \<Rightarrow> (string, child_process) dict option \<Rightarrow> service \<Rightarrow> section_row" where
  "child_row w processes s =
     (if se_off s \<noteq> [] then \<lparr>sn_section = se_name s, sn_verdict = PASS, sn_detail = ''off: '' @ se_off s, sn_fix = []\<rparr>
      else case processes of
        None \<Rightarrow> \<lparr>sn_section = se_name s, sn_verdict = WARN, sn_detail = ''unknown: the supervisor is not running'', sn_fix = []\<rparr>
      | Some d \<Rightarrow>
          (case map_of d (se_name s) of
             None \<Rightarrow> \<lparr>sn_section = se_name s, sn_verdict = FAIL,
                      sn_detail = ''declared, but the running YAML is older and lacks it'', sn_fix = serve_fix w\<rparr>
           | Some c \<Rightarrow> if kind_of_service s = PERIODIC then periodic_row w s c else resident_row w s c))"

definition children_by_name :: "child_process list \<Rightarrow> (string, child_process) dict" where
  "children_by_name cs = foldl (\<lambda>d c. AList.update (cp_name c) c d) [] cs"

definition serve_status :: "'z supervising_scheme \<Rightarrow> seen \<Rightarrow> section_row list" where
  "serve_status w z =
     (case vw_answer z of
        None \<Rightarrow> supervisor_absent w z # map (child_row w None) (su_services w)
      | Some (st, cs) \<Rightarrow> supervisor_answering w z st # map (child_row w (Some (children_by_name cs))) (su_services w))"

definition serve_section :: "'z supervising_scheme \<Rightarrow> seen \<Rightarrow> section_row" where
  "serve_section w z =
     (let head = hd (serve_status w z);
          broken = map sn_section (filter (\<lambda>r. sn_verdict r = FAIL) (tl (serve_status w z)))
      in if sn_verdict head = FAIL \<or> broken = [] then head\<lparr>sn_section := ''serve''\<rparr>
         else \<lparr>sn_section = ''serve'', sn_verdict = FAIL, sn_detail = sn_detail head @ ''; failing: '' @ join_with '', '' broken,
               sn_fix = serve_fix w @ '' status''\<rparr>)"


section \<open>Start and stop\<close>

text \<open>One look of a wait or a sweep: the clock, the processes, the ledger, whether the supervisor answers and its socket is guarded.\<close>

record glance =
  gl_clock :: rat
  gl_table :: "process list"
  gl_ledger :: ledger
  gl_answers :: bool
  gl_guarded :: bool

text \<open>What a start or a stop does to the machine, in order.\<close>

datatype serve_act =
    Unit_removed | Keeper_killed leader | Asked_to_end "process list" | Forced_to_end "process list" | Ledger_forgotten
  | Socket_unlinked | State_made | Document_written "(string \<times> json) list" | Document_tried "string list"
  | Unit_installed "string list" int string

text \<open>
  What answers them: each look in turn, \<open>Binaries.check\<close>, the service manager's removal and installation, the disk,
  process-compose's dry run (its status and what it said), and what a status at the end reads.
\<close>

record tending = supervising +
  te_glances :: "nat \<Rightarrow> glance"
  te_check :: "fault + string"
  te_remove :: "fault option"
  te_write :: "fault option"
  te_dry_run :: "string list \<Rightarrow> int \<times> string \<times> string"
  te_install :: "string list \<Rightarrow> int \<Rightarrow> string \<Rightarrow> fault option"
  te_seen :: "nat \<Rightarrow> seen"

record tended =
  td_looks :: nat
  td_acts :: "serve_act list"

definition look_at :: "'z tending_scheme \<Rightarrow> (tended, glance) comp" where
  "look_at w = (\<lambda>s. (Inr (te_glances w (td_looks s)), s\<lparr>td_looks := Suc (td_looks s)\<rparr>))"

definition serve_does :: "serve_act \<Rightarrow> (tended, unit) comp" where
  "serve_does a = changing (\<lambda>s. s\<lparr>td_acts := td_acts s @ [a]\<rparr>)"

definition answered_act :: "fault option \<Rightarrow> serve_act \<Rightarrow> (tended, unit) comp" where
  "answered_act refusal a = andThen (serve_does a) (\<lambda>_. case refusal of None \<Rightarrow> ret () | Some e \<Rightarrow> raising e)"

definition keeper_runs :: "glance \<Rightarrow> bool" where
  "keeper_runs g = (case ledger_keeper (gl_ledger g) of None \<Rightarrow> False | Some k \<Rightarrow> leader_alive (gl_table g) k)"

definition HALT_MARGIN :: rat where "HALT_MARGIN = 10"
definition POLL :: rat where "POLL = 1 / 4"
definition STARTING :: rat where "STARTING = 30"
definition SOCKET_BYTES :: nat where "SOCKET_BYTES = 104"

text \<open>
  The wait for a keeper to end, on fuel; false for one that waits on. The code sleeps for a poll between one
  turn and the next, and nowhere else but for the graces of a sweep: how late a look comes is the clock of its glance.
\<close>

fun keeper_waited :: "'z tending_scheme \<Rightarrow> nat \<Rightarrow> rat \<Rightarrow> (tended, bool) comp" where
  "keeper_waited w 0 deadline = ret False"
| "keeper_waited w (Suc n) deadline =
     andThen (look_at w) (\<lambda>g. if keeper_runs g \<and> gl_clock g < deadline then keeper_waited w n deadline else ret True)"

definition tree_swept :: "'z tending_scheme \<Rightarrow> (tended, nat) comp" where
  "tree_swept w =
     andThen (look_at w) (\<lambda>g1.
     andThen (serve_does (Asked_to_end (ledger_members (gl_ledger g1) (gl_table g1)))) (\<lambda>_.
     andThen (look_at w) (\<lambda>g2.
     andThen (serve_does (Forced_to_end (still_running (gl_table g2) (ledger_members (gl_ledger g1) (gl_table g1))))) (\<lambda>_.
     andThen (look_at w) (\<lambda>g3.
     case ledger_sweep (gl_ledger g1) (gl_table g1) (gl_table g2) (gl_ledger g3) (gl_table g3) of
       (_, _, n, emptied) \<Rightarrow> andThen (if emptied then serve_does Ledger_forgotten else ret ()) (\<lambda>_. ret n))))))"

definition keeper_killed :: "glance \<Rightarrow> (tended, unit) comp" where
  "keeper_killed g =
     (case ledger_keeper (gl_ledger g) of
        None \<Rightarrow> ret ()
      | Some k \<Rightarrow> if leader_alive (gl_table g) k then serve_does (Keeper_killed k) else ret ())"

definition serve_halt :: "'z tending_scheme \<Rightarrow> nat \<Rightarrow> (tended, nat option) comp" where
  "serve_halt w fuel =
     andThen (answered_act (te_remove w) Unit_removed) (\<lambda>_.
     andThen (look_at w) (\<lambda>g0.
     andThen (keeper_waited w fuel (gl_clock g0 + of_int (stop_seconds (su_services w)) + HALT_MARGIN)) (\<lambda>ended.
     if \<not> ended then ret None
     else andThen (look_at w) (\<lambda>g.
          andThen (keeper_killed g) (\<lambda>_.
          andThen (tree_swept w) (\<lambda>n.
          andThen (serve_does Socket_unlinked) (\<lambda>_. ret (Some n))))))))"

definition serve_stop :: "'z tending_scheme \<Rightarrow> nat \<Rightarrow> (tended, section_row list option) comp" where
  "serve_stop w fuel =
     andThen (serve_halt w fuel) (\<lambda>halted.
     case halted of
       None \<Rightarrow> ret None
     | Some n \<Rightarrow>
         andThen (look_at w) (\<lambda>g.
         if keeper_runs g \<or> ledger_members (gl_ledger g) (gl_table g) \<noteq> []
         then andThen (look_at w) (\<lambda>g'. ret (Some
                [\<lparr>sn_section = ''supervisor'', sn_verdict = FAIL,
                  sn_detail = nat_text (length (ledger_members (gl_ledger g') (gl_table g'))) @ '' processes survived the stop'',
                  sn_fix = serve_fix w @ '' stop''\<rparr>]))
         else ret (Some
                [\<lparr>sn_section = ''supervisor'', sn_verdict = PASS,
                  sn_detail = su_unit w @ '' removed, and nothing of it runs'' @
                    (if n = 0 then [] else ''; swept '' @ nat_text n @ '' processes that outstayed it''),
                  sn_fix = []\<rparr>])))"

text \<open>The bytes of a path: two for a character past ASCII.\<close>

definition path_bytes :: "string \<Rightarrow> nat" where
  "path_bytes p = sum_list (map (\<lambda>c. if (of_char c :: nat) < 128 then 1 else 2) p)"

definition serve_prepared :: "'z tending_scheme \<Rightarrow> (tended, string) comp" where
  "serve_prepared w =
     andThen (returning (te_check w)) (\<lambda>supervisor.
     let size = path_bytes (state_path w ''pc.sock'') in
     if SOCKET_BYTES \<le> size
     then raising (MissionError (state_path w ''pc.sock'' @ '' is '' @ nat_text size @ '' bytes, past the '' @ nat_text (SOCKET_BYTES - 1) @
            '' a unix socket path holds; serve a workspace whose path is shorter''))
     else andThen (serve_does State_made) (\<lambda>_. ret supervisor))"

definition isolated_argv :: "'z supervising_scheme \<Rightarrow> string \<Rightarrow> string list" where
  "isolated_argv w supervisor = [''/usr/bin/env'', ''-i''] @ map (\<lambda>(name, v). name @ ''='' @ v) (ss_allowed (su_space w)) @ [supervisor]"

definition unit_argv :: "'z supervising_scheme \<Rightarrow> string \<Rightarrow> string list" where
  "unit_argv w supervisor =
     [su_python w, ''-I'', su_keeper w, ss_state (su_space w), ''--''] @ isolated_argv w supervisor @
     [''-U'', ''--unix-socket'', state_path w ''pc.sock'', ''-t=false'', ''--disable-dotenv'', ''-L'', state_path w ''pc.log'',
      ''-f'', state_path w ''compose.yaml'']"

definition dry_run_argv :: "'z supervising_scheme \<Rightarrow> string \<Rightarrow> string list" where
  "dry_run_argv w supervisor =
     isolated_argv w supervisor @
     [''up'', ''--dry-run'', ''--disable-dotenv'', ''-t=false'', ''-L'', state_path w ''dry-run.log'', ''-f'', state_path w ''compose.yaml'']"

definition document_written :: "'z tending_scheme \<Rightarrow> (tended, unit) comp" where
  "document_written w =
     andThen (returning (compose_document (su_space w) (su_services w))) (\<lambda>doc.
     case te_write w of None \<Rightarrow> serve_does (Document_written doc) | Some e \<Rightarrow> raising e)"

definition document_validated :: "'z tending_scheme \<Rightarrow> string \<Rightarrow> (tended, unit) comp" where
  "document_validated w supervisor =
     andThen (serve_does (Document_tried (dry_run_argv w supervisor))) (\<lambda>_.
     case te_dry_run w (dry_run_argv w supervisor) of
       (code, out, err) \<Rightarrow>
         if code = 0 then ret ()
         else raising (MissionError (''process-compose refused '' @ state_path w ''compose.yaml'' @ '': '' @
                (case filter (\<lambda>l. l \<noteq> []) (map strip (rev (splitlines (out @ err)))) of [] \<Rightarrow> ''it said nothing'' | l # _ \<Rightarrow> l))))"

definition supervisor_ready :: "glance \<Rightarrow> bool" where
  "supervisor_ready g \<longleftrightarrow> gl_answers g \<and> ledger_supervisor (gl_ledger g) \<noteq> None \<and> gl_guarded g"

fun supervisor_awaited :: "'z tending_scheme \<Rightarrow> nat \<Rightarrow> rat \<Rightarrow> (tended, bool) comp" where
  "supervisor_awaited w 0 deadline = ret False"
| "supervisor_awaited w (Suc n) deadline =
     andThen (look_at w) (\<lambda>g.
     if supervisor_ready g then ret True
     else if deadline < gl_clock g
     then raising (MissionError (su_unit w @ '' did not answer on '' @ state_path w ''pc.sock'' @ '' within 30s; read '' @
            state_path w ''keeper.log'' @ '' and '' @ state_path w ''unit.log''))
     else supervisor_awaited w n deadline)"

definition serve_start :: "'z tending_scheme \<Rightarrow> nat \<Rightarrow> (tended, section_row list option) comp" where
  "serve_start w fuel =
     andThen (serve_prepared w) (\<lambda>supervisor.
     andThen (serve_halt w fuel) (\<lambda>halted.
     if halted = None then ret None
     else andThen (document_written w) (\<lambda>_.
          andThen (document_validated w supervisor) (\<lambda>_.
          andThen (answered_act (te_install w (unit_argv w supervisor) (stop_seconds (su_services w)) (state_path w ''unit.log''))
            (Unit_installed (unit_argv w supervisor) (stop_seconds (su_services w)) (state_path w ''unit.log''))) (\<lambda>_.
          andThen (look_at w) (\<lambda>g0.
          andThen (supervisor_awaited w fuel (gl_clock g0 + STARTING)) (\<lambda>answered.
          if \<not> answered then ret None
          else andThen (reading (\<lambda>s. te_seen w (td_looks s))) (\<lambda>z. ret (Some (serve_status w z))))))))))"

end
