(* ===== verification/Serve_Properties.thy ===== *)
theory Serve_Properties
  imports Serve
begin

text \<open>
  The document \<open>mb serve\<close> writes: what a child's command line reads back as, which children it holds,
  and which names never reach one.
\<close>

section \<open>Quoting reads back\<close>

lemma safe_plain:
  assumes "shell_safe c"
  shows "c \<notin> {CHR '' '', CHR 0x09, CHR 0x0A, CHR 0x0D} \<and> c \<noteq> CHR 0x27 \<and> c \<noteq> CHR 0x22 \<and> c \<noteq> CHR 0x5C"
  using assms by (auto simp: shell_safe_def Let_def)

lemma shlex_safe:
  "list_all shell_safe s \<Longrightarrow> shlex Plain (Some t) (s @ rest) = shlex Plain (Some (t @ s)) rest"
  by (induction s arbitrary: t) (use safe_plain in auto)

lemma shlex_safe_first:
  assumes "list_all shell_safe s" and "s \<noteq> []"
  shows "shlex Plain None (s @ rest) = shlex Plain (Some s) rest"
proof (cases s)
  case (Cons c cs)
  with assms safe_plain [of c] show ?thesis using shlex_safe [of cs "[c]" rest] by auto
qed (use assms in simp)

lemma shlex_quoted:
  "shlex (Quoted (CHR 0x27)) (Some t)
     (concat (map (\<lambda>c. if c = CHR 0x27 then [CHR 0x27, CHR 0x22, CHR 0x27, CHR 0x22, CHR 0x27] else [c]) s) @ CHR 0x27 # rest) =
   shlex Plain (Some (t @ s)) rest"
  by (induction s arbitrary: t) auto

lemma shlex_quote_read: "shlex Plain None (shlex_quote s @ rest) = shlex Plain (Some s) rest"
proof (cases "s = [] \<or> \<not> list_all shell_safe s")
  case True
  then show ?thesis using shlex_quoted [of "[]" s rest] by (cases "s = []") (simp_all add: shlex_quote_def)
next
  case False
  then show ?thesis by (simp add: shlex_quote_def shlex_safe_first)
qed

lemma shlex_join_read: "shlex Plain None (shlex_join args) = Inr args"
proof (induction args)
  case (Cons a args)
  show ?case
  proof (cases args)
    case Nil
    then show ?thesis using shlex_quote_read [of a "[]"] by (simp add: shlex_join_def)
  next
    case (Cons b bs)
    then have "shlex_join (a # args) = shlex_quote a @ CHR '' '' # shlex_join args" by (simp add: shlex_join_def)
    then show ?thesis using Cons.IH by (simp add: shlex_quote_read)
  qed
qed (simp add: shlex_join_def)

lemma exec_command_read: "shlex_split (''exec '' @ shlex_join args) = Inr (''exec'' # args)"
  by (simp add: shlex_split_def shlex_join_read)


section \<open>What the document holds\<close>

lemma sorted_names_Nil: "sorted_names ns = [] \<longleftrightarrow> ns = []"
proof -
  have "set (sorted_names ns) = set ns" by (simp add: sorted_names_def)
  then show ?thesis by (metis set_empty)
qed

lemma service_environment_clear:
  assumes "service_environment w s = Inr env"
  shows "env = se_environment s \<and> fst ` set env \<inter> (set (ss_dotenv w) \<union> fst ` set (ss_allowed w)) = {}"
  using assms by (auto simp: service_environment_def sorted_names_Nil Let_def filter_empty_conv split: if_splits)

text \<open>One child's keys, as the properties read them.\<close>

definition child_command :: "json \<Rightarrow> string option" where
  "child_command j = (case j of JObj o_fields \<Rightarrow> (case map_of o_fields ''command'' of Some (JStr c) \<Rightarrow> Some c | _ \<Rightarrow> None) | _ \<Rightarrow> None)"

definition child_environment :: "json \<Rightarrow> json option" where
  "child_environment j = (case j of JObj o_fields \<Rightarrow> map_of o_fields ''environment'' | _ \<Rightarrow> None)"

lemma compose_child_fields:
  assumes "compose_child w s = Inr j"
  obtains argv where "child_argv w s = Inr argv" and "child_command j = Some (''exec '' @ shlex_join argv)"
    and "child_environment j = Some (JList (map (\<lambda>(name, v). JStr (name @ ''='' @ v)) (se_environment s)))"
    and "fst ` set (se_environment s) \<inter> (set (ss_dotenv w) \<union> fst ` set (ss_allowed w)) = {}"
proof -
  from assms obtain argv env where a: "child_argv w s = Inr argv" and e: "service_environment w s = Inr env"
    by (auto simp: compose_child_def split: sum.splits) (cases "service_environment w s"; simp)
  from service_environment_clear [OF e] have "env = se_environment s"
    "fst ` set (se_environment s) \<inter> (set (ss_dotenv w) \<union> fst ` set (ss_allowed w)) = {}" by auto
  with that [OF a] assms a e show thesis by (auto simp: compose_child_def child_command_def child_environment_def)
qed

lemma compose_children_entries:
  "compose_children w ss d = Inr e \<Longrightarrow> set (map fst e) = set (map fst d) \<union> se_name ` set ss"
proof (induction ss arbitrary: d)
  case (Cons s ss)
  then obtain j where j: "compose_children w ss (AList.update (se_name s) j d) = Inr e" by (auto split: sum.splits)
  have "set (map fst (AList.update (se_name s) j d)) = insert (se_name s) (set (map fst d))"
    by (simp add: dom_update)
  with Cons.IH [OF j] show ?case by auto
qed simp

lemma compose_children_child:
  "compose_children w ss d = Inr e \<Longrightarrow> map_of e n = Some j \<Longrightarrow>
     map_of d n = Some j \<or> (\<exists>s \<in> set ss. se_name s = n \<and> compose_child w s = Inr j)"
proof (induction ss arbitrary: d)
  case (Cons s ss)
  then obtain i where i: "compose_child w s = Inr i" "compose_children w ss (AList.update (se_name s) i d) = Inr e"
    by (auto split: sum.splits)
  from Cons.IH [OF i(2) Cons.prems(2)] show ?case
  proof
    assume "map_of (AList.update (se_name s) i d) n = Some j"
    with i(1) show ?thesis by (cases "se_name s = n") (simp_all add: update_conv')
  qed auto
qed simp

lemma periodic_argv:
  assumes "child_argv w s = Inr argv" and "se_every s \<noteq> []"
  shows "\<exists>tool. take 4 argv = [tool, ''proc'', ''timeout'', int_text (se_timeout s)]"
  using assms by (cases "locate (ss_programs w) TOOL") (auto simp: child_argv_def kind_of_service_def split: list.splits sum.splits)

text \<open>
  C36. The document \<open>mb serve\<close> writes holds the children that are not off and no other. Whatever their
  words hold, each one's command line reads back, as a shell does, as \<open>exec\<close> and the argv it was made from, a pass under
  \<open>proc timeout\<close> with its own bound; and its environment is the declared one, without a name of the workspace's \<open>.env\<close> or of the allowlist.
\<close>

theorem served_document:
  assumes "compose_document w ss = Inr doc"
  shows "\<exists>children. map_of doc ''processes'' = Some (JObj children) \<and>
    set (map fst children) = se_name ` {s \<in> set ss. se_off s = []} \<and>
    (\<forall>n j. map_of children n = Some j \<longrightarrow> (\<exists>s \<in> set ss. \<exists>argv c. se_name s = n \<and> se_off s = [] \<and> child_argv w s = Inr argv \<and>
      child_command j = Some c \<and> shlex_split c = Inr (''exec'' # argv) \<and>
      (se_every s \<noteq> [] \<longrightarrow> (\<exists>tool. take 4 argv = [tool, ''proc'', ''timeout'', int_text (se_timeout s)])) \<and>
      child_environment j = Some (JList (map (\<lambda>(name, v). JStr (name @ ''='' @ v)) (se_environment s))) \<and>
      fst ` set (se_environment s) \<inter> (set (ss_dotenv w) \<union> fst ` set (ss_allowed w)) = {}))"
proof -
  from assms obtain children where c: "compose_children w (running_services ss) [] = Inr children"
    and doc: "map_of doc ''processes'' = Some (JObj children)"
    unfolding compose_document_def by (cases "compose_children w (running_services ss) []") auto
  have "\<exists>s \<in> set ss. \<exists>argv c. se_name s = n \<and> se_off s = [] \<and> child_argv w s = Inr argv \<and>
      child_command j = Some c \<and> shlex_split c = Inr (''exec'' # argv) \<and>
      (se_every s \<noteq> [] \<longrightarrow> (\<exists>tool. take 4 argv = [tool, ''proc'', ''timeout'', int_text (se_timeout s)])) \<and>
      child_environment j = Some (JList (map (\<lambda>(name, v). JStr (name @ ''='' @ v)) (se_environment s))) \<and>
      fst ` set (se_environment s) \<inter> (set (ss_dotenv w) \<union> fst ` set (ss_allowed w)) = {}"
    if "map_of children n = Some j" for n j
  proof -
    from compose_children_child [OF c that] obtain s where s: "s \<in> set ss" "se_off s = []" "se_name s = n" "compose_child w s = Inr j"
      by (auto simp: running_services_def)
    from compose_child_fields [OF s(4)] s(1-3) show ?thesis
      using exec_command_read periodic_argv by metis
  qed
  moreover have "set (map fst children) = se_name ` {s \<in> set ss. se_off s = []}"
    using compose_children_entries [OF c] by (simp add: running_services_def)
  ultimately show ?thesis using doc by blast
qed

definition drain_service :: service where
  "drain_service = \<lparr>se_command = [TOOL, ''serve'', ''process'', ''drain it''], se_environment = [(''A'', ''b c'')], se_every = ''5m'',
     se_name = ''drain'', se_off = [], se_stop = 5, se_timeout = 240\<rparr>"

definition drain_space :: served_space where
  "drain_space = \<lparr>ss_root = ''/w'', ss_state = ''/w/.mb/serve'', ss_programs = \<lparr>pg_tool = Some ''/bin/mb'', pg_check = Inr\<rparr>,
     ss_dotenv = [''KEY''], ss_allowed = allowed_environment ''/h'' ''u'' ''/t''\<rparr>"

theorem served_document_witness:
  "\<exists>doc children. compose_document drain_space [drain_service, drain_service\<lparr>se_name := ''tidy'', se_off := ''later''\<rparr>] = Inr doc \<and>
     map_of doc ''processes'' = Some (JObj children) \<and> set (map fst children) = {''drain''}"
proof -
  let ?ss = "[drain_service, drain_service\<lparr>se_name := ''tidy'', se_off := ''later''\<rparr>]"
  have "\<not> isl (compose_document drain_space ?ss)" by code_simp
  then obtain doc where doc: "compose_document drain_space ?ss = Inr doc" by (cases "compose_document drain_space ?ss") simp_all
  from served_document [OF this] obtain children where c: "map_of doc ''processes'' = Some (JObj children)"
    "set (map fst children) = se_name ` {s \<in> set ?ss. se_off s = []}" by blast
  have "{s \<in> set ?ss. se_off s = []} = {drain_service}" by (auto simp: drain_service_def)
  then have "se_name ` {s \<in> set ?ss. se_off s = []} = {se_name drain_service}" by (simp only: image_insert image_empty)
  also have "se_name drain_service = ''drain''" by (simp add: drain_service_def)
  finally have "set (map fst children) = {''drain''}" by (rule trans [OF c(2)])
  with doc c(1) show ?thesis by (intro exI conjI)
qed

end
