(* ===== verification/Supervisor_Properties.thy ===== *)
theory Supervisor_Properties
  imports Supervisor Serve_Properties
begin

text \<open>
  What the rows of \<open>mb serve\<close> mean: when its one row passes, and when it fails.
\<close>

section \<open>The rows\<close>

lemma children_by_name_get: "map_of (children_by_name cs) n = map_of (map (\<lambda>c. (cp_name c, c)) (rev cs)) n"
proof (induction cs rule: rev_induct)
  case (snoc c cs)
  then show ?case by (simp add: children_by_name_def update_conv')
qed (simp add: children_by_name_def)

lemma serve_status_not_Nil [simp]: "serve_status w z \<noteq> []"
  by (simp add: serve_status_def split: option.split prod.split)

lemma serve_section_verdict:
  "sn_verdict (serve_section w z) = (if failed_sections (serve_status w z) then FAIL else sn_verdict (hd (serve_status w z)))"
proof -
  obtain r rs where "serve_status w z = r # rs" by (cases "serve_status w z") simp_all
  then show ?thesis
    by (auto simp: serve_section_def failed_sections_def Let_def filter_empty_conv list_ex_iff)
qed

lemma leaked_names_Nil:
  "leaked_names w z tree = [] \<longleftrightarrow> (\<forall>p \<in> set tree. set (vw_environ z (ps_pid p)) \<inter> set (ss_dotenv (su_space w)) = {})"
proof -
  have "leaked_names w z tree = [] \<longleftrightarrow> (\<forall>n \<in> set (concat (environments z tree)). n \<notin> set (ss_dotenv (su_space w)))"
    by (simp only: leaked_names_def sorted_names_Nil filter_empty_conv)
  also have "set (concat (environments z tree)) = (\<Union>p \<in> set tree. set (vw_environ z (ps_pid p)))"
    by (auto simp: environments_def)
  finally show ?thesis by blast
qed

lemma exposed_Nil:
  "exposed z tree = [] \<longleftrightarrow> (\<forall>p \<in> set tree. \<forall>c \<in> set (vw_sockets z (ps_pid p)). cn_listening c \<longrightarrow> cn_loopback c)"
  by (auto simp: exposed_def filter_empty_conv)

text \<open>A supervisor's row passes over a guarded socket, a loaded unit and a tree that leaks and exposes nothing.\<close>

definition sealed_tree :: "'z supervising_scheme \<Rightarrow> seen \<Rightarrow> bool" where
  "sealed_tree w z \<longleftrightarrow> vw_guarded z \<and> (\<forall>p \<in> set (ledger_members (vw_ledger z) (vw_table z)).
     set (vw_environ z (ps_pid p)) \<inter> set (ss_dotenv (su_space w)) = {} \<and>
     (\<forall>c \<in> set (vw_sockets z (ps_pid p)). cn_listening c \<longrightarrow> cn_loopback c))"

lemma supervisor_faults_Nil:
  "supervisor_faults w z (ledger_members (vw_ledger z) (vw_table z)) = [] \<longleftrightarrow> sealed_tree w z"
  by (auto simp: supervisor_faults_def sealed_tree_def leaked_names_Nil exposed_Nil)

lemma answering_verdict:
  "sn_verdict (supervisor_answering w z st) = (if \<not> sealed_tree w z then FAIL else if vw_loaded z then PASS else WARN)"
  by (simp add: supervisor_answering_def Let_def supervisor_faults_Nil)

lemma absent_verdict: "sn_verdict (supervisor_absent w z) \<noteq> PASS"
  by (simp add: supervisor_absent_def Let_def)

lemma child_row_failed:
  "sn_verdict (child_row w (Some d) s) = FAIL \<longleftrightarrow> se_off s = [] \<and>
     (case map_of d (se_name s) of None \<Rightarrow> True
      | Some c \<Rightarrow> kind_of_service s = RESIDENT \<and> \<not> cp_is_running c \<and> cp_status c \<notin> set STOPPING)"
  by (auto simp: child_row_def periodic_row_def resident_row_def split: option.splits) (cases "kind_of_service s"; simp)+

lemma status_failed:
  "vw_answer z = Some (st, cs) \<Longrightarrow> failed_sections (serve_status w z) \<longleftrightarrow>
     \<not> sealed_tree w z \<or> (\<exists>s \<in> set (su_services w). sn_verdict (child_row w (Some (children_by_name cs)) s) = FAIL)"
  by (auto simp: serve_status_def failed_sections_def list_ex_iff answering_verdict)

text \<open>
  C38. The one row the doctor shows for \<open>mb serve\<close> fails exactly when a row of its status does; and it
  passes exactly when the supervisor answers under a loaded unit, its socket is guarded, no readable environment of its tree
  holds a name of the \<open>.env\<close>, nothing in it listens off loopback, and every child that is not off is in the
  running document, a resident one running or being stopped.
\<close>

theorem serve_row_means:
  "(sn_verdict (serve_section w z) = FAIL \<longleftrightarrow> failed_sections (serve_status w z)) \<and>
   (sn_verdict (serve_section w z) = PASS \<longleftrightarrow>
     (\<exists>st cs. vw_answer z = Some (st, cs) \<and> vw_loaded z \<and> sealed_tree w z \<and>
       (\<forall>s \<in> set (su_services w). se_off s = [] \<longrightarrow>
         (\<exists>c. map_of (map (\<lambda>c. (cp_name c, c)) (rev cs)) (se_name s) = Some c \<and>
           (kind_of_service s = RESIDENT \<longrightarrow> cp_is_running c \<or> cp_status c \<in> set STOPPING)))))"
proof
  have head: "sn_verdict (hd (serve_status w z)) = FAIL \<Longrightarrow> failed_sections (serve_status w z)"
    by (cases "serve_status w z") (simp_all add: failed_sections_def)
  then show "sn_verdict (serve_section w z) = FAIL \<longleftrightarrow> failed_sections (serve_status w z)"
    by (auto simp: serve_section_verdict)
  show "sn_verdict (serve_section w z) = PASS \<longleftrightarrow>
     (\<exists>st cs. vw_answer z = Some (st, cs) \<and> vw_loaded z \<and> sealed_tree w z \<and>
       (\<forall>s \<in> set (su_services w). se_off s = [] \<longrightarrow>
         (\<exists>c. map_of (map (\<lambda>c. (cp_name c, c)) (rev cs)) (se_name s) = Some c \<and>
           (kind_of_service s = RESIDENT \<longrightarrow> cp_is_running c \<or> cp_status c \<in> set STOPPING))))"
  proof (cases "vw_answer z")
    case None
    then show ?thesis using absent_verdict [of w z]
      by (auto simp: serve_section_verdict) (simp_all add: serve_status_def)
  next
    case (Some a)
    obtain st cs where a: "a = (st, cs)" by (cases a)
    have "hd (serve_status w z) = supervisor_answering w z st" using Some a by (simp add: serve_status_def)
    then have "sn_verdict (serve_section w z) = PASS \<longleftrightarrow> vw_loaded z \<and> sealed_tree w z \<and>
        (\<forall>s \<in> set (su_services w). sn_verdict (child_row w (Some (children_by_name cs)) s) \<noteq> FAIL)"
      using status_failed [of z st cs w] Some a by (auto simp: serve_section_verdict answering_verdict)
    then show ?thesis using Some a
      by (fastforce simp: child_row_failed children_by_name_get split: option.splits)
  qed
qed


section \<open>Start and stop\<close>

lemma look_at_apply [comp_simps]: "look_at w s = (Inr (te_glances w (td_looks s)), s\<lparr>td_looks := Suc (td_looks s)\<rparr>)"
  by (simp add: look_at_def)

lemma serve_does_apply [comp_simps]: "serve_does a s = (Inr (), s\<lparr>td_acts := td_acts s @ [a]\<rparr>)"
  by (simp add: serve_does_def)

lemma answered_act_apply:
  "answered_act refusal a s = (case refusal of None \<Rightarrow> Inr () | Some e \<Rightarrow> Inl e, s\<lparr>td_acts := td_acts s @ [a]\<rparr>)"
  by (simp add: answered_act_def comp_simps split: option.split)

text \<open>What a halt does beyond its wait, from the four looks it takes.\<close>

definition kills_keeper :: "glance \<Rightarrow> serve_act list" where
  "kills_keeper g = (case ledger_keeper (gl_ledger g) of None \<Rightarrow> [] | Some k \<Rightarrow> if leader_alive (gl_table g) k then [Keeper_killed k] else [])"

definition halt_acts :: "(nat \<Rightarrow> glance) \<Rightarrow> nat \<Rightarrow> serve_act list" where
  "halt_acts gs i =
     (let tree = ledger_members (gl_ledger (gs (i + 1))) (gl_table (gs (i + 1))) in
      kills_keeper (gs i) @ [Asked_to_end tree, Forced_to_end (still_running (gl_table (gs (i + 2))) tree)] @
      (if ledger_members (gl_ledger (gs (i + 3))) (gl_table (gs (i + 3))) = [] then [Ledger_forgotten] else []) @ [Socket_unlinked])"

lemma keeper_killed_apply: "keeper_killed g s = (Inr (), s\<lparr>td_acts := td_acts s @ kills_keeper g\<rparr>)"
  by (simp add: keeper_killed_def kills_keeper_def comp_simps split: option.split)

lemma tree_swept_apply:
  "tree_swept w s =
     (let i = td_looks s; gs = te_glances w; tree = ledger_members (gl_ledger (gs i)) (gl_table (gs i)) in
      (Inr (length tree), s\<lparr>td_looks := i + 3, td_acts := td_acts s @ [Asked_to_end tree, Forced_to_end (still_running (gl_table (gs (i + 1))) tree)] @
         (if ledger_members (gl_ledger (gs (i + 2))) (gl_table (gs (i + 2))) = [] then [Ledger_forgotten] else [])\<rparr>))"
  by (simp add: tree_swept_def ledger_sweep_def comp_simps Let_def eval_nat_numeral)

lemma keeper_waited_quiet: "\<exists>b k. keeper_waited w n d s = (Inr b, s\<lparr>td_looks := td_looks s + k\<rparr>)"
proof (induction n arbitrary: s)
  case 0
  then show ?case by (intro exI [of _ False] exI [of _ 0]) simp
next
  case (Suc n)
  let ?s = "s\<lparr>td_looks := Suc (td_looks s)\<rparr>"
  obtain b k where "keeper_waited w n d ?s = (Inr b, ?s\<lparr>td_looks := td_looks ?s + k\<rparr>)" using Suc.IH by blast
  then show ?case
    by (cases "keeper_runs (te_glances w (td_looks s)) \<and> gl_clock (te_glances w (td_looks s)) < d")
      (auto simp: comp_simps intro: exI [of _ "Suc k"] exI [of _ 1])
qed

lemma serve_halt_cases:
  obtains (refused) e where "te_remove w = Some e" "serve_halt w fuel s = (Inl e, s\<lparr>td_acts := td_acts s @ [Unit_removed]\<rparr>)"
  | (waits) k where "te_remove w = None"
      "serve_halt w fuel s = (Inr None, s\<lparr>td_acts := td_acts s @ [Unit_removed], td_looks := k\<rparr>)"
  | (halted) n i j where "te_remove w = None"
      "serve_halt w fuel s = (Inr (Some n), s\<lparr>td_acts := td_acts s @ Unit_removed # halt_acts (te_glances w) i, td_looks := j\<rparr>)"
proof (cases "te_remove w")
  case (Some e)
  with refused show thesis by (simp add: serve_halt_def comp_simps answered_act_apply)
next
  case None
  let ?s = "s\<lparr>td_acts := td_acts s @ [Unit_removed], td_looks := Suc (td_looks s)\<rparr>"
  let ?d = "gl_clock (te_glances w (td_looks s)) + of_int (stop_seconds (su_services w)) + HALT_MARGIN"
  obtain b k where wait: "keeper_waited w fuel ?d ?s = (Inr b, ?s\<lparr>td_looks := td_looks ?s + k\<rparr>)" using keeper_waited_quiet by blast
  show thesis
  proof (cases b)
    case False
    with None wait show thesis by (intro waits) (simp_all add: serve_halt_def comp_simps answered_act_apply)
  next
    case True
    with None wait show thesis
      by (intro halted [of _ "td_looks ?s + k + 4" "td_looks ?s + k"])
        (simp_all add: serve_halt_def comp_simps answered_act_apply keeper_killed_apply tree_swept_apply halt_acts_def Let_def eval_nat_numeral)
  qed
qed









definition recorded_tree :: "glance \<Rightarrow> process set" where
  "recorded_tree g = set (ledger_members (gl_ledger g) (gl_table g))"

lemma halt_signals:
  "a \<in> set (halt_acts gs i) \<Longrightarrow>
     (\<forall>k. a = Keeper_killed k \<longrightarrow> (\<exists>j. ledger_keeper (gl_ledger (gs j)) = Some k \<and> leader_alive (gl_table (gs j)) k)) \<and>
     (\<forall>ps. a \<in> {Asked_to_end ps, Forced_to_end ps} \<longrightarrow> (\<exists>j. set ps \<subseteq> recorded_tree (gs j)))"
  by (auto simp: halt_acts_def kills_keeper_def recorded_tree_def still_running_def Let_def split: option.splits if_splits)

text \<open>
  C19. A stop takes the unit away before it signals anything, signals only the keeper the ledger named
  while it ran and processes of the session the ledger named, unlinks the socket last, and says that nothing
  runs exactly when its last look found no keeper of the ledger and no process of that session.
\<close>

theorem stop_says_what_runs:
  assumes "serve_stop w fuel s = (Inr (Some rows), t)"
  shows "\<exists>done_acts g. td_acts t = td_acts s @ [Unit_removed] @ done_acts @ [Socket_unlinked] \<and>
    (\<forall>k. Keeper_killed k \<in> set done_acts \<longrightarrow>
      (\<exists>j. ledger_keeper (gl_ledger (te_glances w j)) = Some k \<and> leader_alive (gl_table (te_glances w j)) k)) \<and>
    (\<forall>ps. Asked_to_end ps \<in> set done_acts \<or> Forced_to_end ps \<in> set done_acts \<longrightarrow> (\<exists>j. set ps \<subseteq> recorded_tree (te_glances w j))) \<and>
    g \<in> {te_glances w (td_looks t - 1), te_glances w (td_looks t - 2)} \<and>
    map sn_verdict rows = [if keeper_runs g \<or> recorded_tree g \<noteq> {} then FAIL else PASS]"
proof (cases rule: serve_halt_cases [of w fuel s])
  case (halted n i j)
  let ?gs = "te_glances w"
  let ?g = "?gs j"
  obtain acts where acts: "halt_acts ?gs i = acts @ [Socket_unlinked]" by (simp add: halt_acts_def Let_def)
  have t: "td_acts t = td_acts s @ [Unit_removed] @ acts @ [Socket_unlinked]"
    and g: "?g \<in> {?gs (td_looks t - 1), ?gs (td_looks t - 2)}"
    and rows: "map sn_verdict rows = [if keeper_runs ?g \<or> recorded_tree ?g \<noteq> {} then FAIL else PASS]"
    using assms halted acts by (auto simp: serve_stop_def comp_simps recorded_tree_def split: if_splits)
  have "set acts \<subseteq> set (halt_acts ?gs i)" by (auto simp: acts)
  with t g rows halt_signals [of _ ?gs i] show ?thesis
    by (intro exI [of _ acts] exI [of _ ?g]) blast
qed (use assms in \<open>simp_all add: serve_stop_def comp_simps\<close>)

lemma supervisor_awaited_quiet:
  "supervisor_awaited w n d s = (r, t) \<Longrightarrow> td_acts t = td_acts s \<and> (r = Inr True \<longrightarrow> (\<exists>i. supervisor_ready (te_glances w i)))"
proof (induction n arbitrary: s)
  case (Suc n)
  then show ?case
    using Suc.IH [of "s\<lparr>td_looks := Suc (td_looks s)\<rparr>"] by (auto simp: comp_simps split: if_splits)
qed auto

text \<open>
  C18. A start installs the unit last. If it installed one, it first took away the one before, halted what it
  ran, wrote the document of the declared children and had process-compose accept it, and the unit runs the keeper on that
  document with the children's stop times; a document refused or not writable leaves no unit at all.
\<close>

theorem start_installs_accepted:
  assumes "serve_start w fuel s = (r, t)" and "td_acts s = []" and "Unit_installed argv secs unit_log \<in> set (td_acts t)"
  shows "\<exists>prog doc halts. te_check w = Inr prog \<and> compose_document (su_space w) (su_services w) = Inr doc \<and>
    fst (te_dry_run w (dry_run_argv w prog)) = 0 \<and> argv = unit_argv w prog \<and> secs = stop_seconds (su_services w) \<and> unit_log = state_path w ''unit.log'' \<and>
    td_acts t = [State_made, Unit_removed] @ halts @ [Socket_unlinked, Document_written doc, Document_tried (dry_run_argv w prog),
      Unit_installed argv secs unit_log] \<and>
    (\<forall>rows. r = Inr (Some rows) \<longrightarrow> (\<exists>i. supervisor_ready (te_glances w i)) \<and> (\<exists>j. rows = serve_status w (te_seen w j)))"
proof -
  obtain prog s1 where p: "te_check w = Inr prog" "serve_prepared w s = (Inr prog, s1)" "td_acts s1 = [State_made]"
    using assms by (cases "te_check w") (auto simp: serve_start_def serve_prepared_def comp_simps Let_def split: if_splits)
  show ?thesis
  proof (cases rule: serve_halt_cases [of w fuel s1])
    case (halted n i j)
    let ?s2 = "s1\<lparr>td_acts := td_acts s1 @ Unit_removed # halt_acts (te_glances w) i, td_looks := j\<rparr>"
    obtain acts where acts: "halt_acts (te_glances w) i = acts @ [Socket_unlinked]" "Unit_installed argv secs unit_log \<notin> set acts"
      by (auto simp: halt_acts_def kills_keeper_def Let_def split: option.splits)
    show ?thesis
    proof (cases "compose_document (su_space w) (su_services w)")
      case (Inl e)
      with assms p halted acts show ?thesis by (auto simp: serve_start_def document_written_def comp_simps)
    next
      case (Inr doc)
      have wrote: "te_write w = None"
        using assms p halted acts Inr by (cases "te_write w") (auto simp: serve_start_def document_written_def comp_simps)
      show ?thesis
      proof (cases "fst (te_dry_run w (dry_run_argv w prog)) = 0")
        case False
        with assms p halted acts Inr wrote show ?thesis
          by (auto simp: serve_start_def document_written_def document_validated_def comp_simps split: prod.splits)
      next
        case True
        let ?argv = "unit_argv w prog" and ?secs = "stop_seconds (su_services w)" and ?log = "state_path w ''unit.log''"
        let ?s3 = "?s2\<lparr>td_acts := td_acts ?s2 @ [Document_written doc, Document_tried (dry_run_argv w prog), Unit_installed ?argv ?secs ?log]\<rparr>"
        have up: "document_validated w prog (?s2\<lparr>td_acts := td_acts ?s2 @ [Document_written doc]\<rparr>) =
            (Inr (), ?s2\<lparr>td_acts := td_acts ?s2 @ [Document_written doc, Document_tried (dry_run_argv w prog)]\<rparr>)"
          using True by (cases "te_dry_run w (dry_run_argv w prog)") (simp add: document_validated_def comp_simps)
        have start: "serve_start w fuel s =
          (case te_install w ?argv ?secs ?log of
             Some e \<Rightarrow> (Inl e, ?s3)
           | None \<Rightarrow> andThen (look_at w) (\<lambda>g0. andThen (supervisor_awaited w fuel (gl_clock g0 + STARTING)) (\<lambda>answered.
               if \<not> answered then ret None
               else andThen (reading (\<lambda>s. te_seen w (td_looks s))) (\<lambda>z. ret (Some (serve_status w z))))) ?s3)"
          using p up halted(1) Inr wrote
          by (simp add: serve_start_def halted(2) document_written_def comp_simps answered_act_apply split: option.split)
        have t: "td_acts t = td_acts ?s3 \<and> (\<forall>rows. r = Inr (Some rows) \<longrightarrow> (\<exists>i. supervisor_ready (te_glances w i)) \<and> (\<exists>j. rows = serve_status w (te_seen w j)))"
        proof (cases "te_install w ?argv ?secs ?log")
          case (Some e)
          with start assms(1) show ?thesis by auto
        next
          case None
          let ?d = "gl_clock (te_glances w (td_looks ?s3)) + STARTING" and ?s4 = "?s3\<lparr>td_looks := Suc (td_looks ?s3)\<rparr>"
          obtain a u where a: "supervisor_awaited w fuel ?d ?s4 = (a, u)" by fastforce
          from supervisor_awaited_quiet [OF this] have "td_acts u = td_acts ?s3" "a = Inr True \<Longrightarrow> \<exists>i. supervisor_ready (te_glances w i)" by simp_all
          with start None a assms(1) show ?thesis by (cases a) (auto simp: comp_simps split: if_splits)
        qed
        with assms(3) p(3) acts have "argv = ?argv \<and> secs = ?secs \<and> unit_log = ?log" by simp
        with t True Inr p show ?thesis
          by (intro exI [of _ prog] exI [of _ doc] exI [of _ acts]) (simp add: acts(1))
      qed
    qed
  qed (use assms p in \<open>auto simp: serve_start_def comp_simps\<close>)
qed



section \<open>A served workspace\<close>

text \<open>A keeper with a supervisor and one child: the keeper ends after the first look of a stop, and the child outstays it.\<close>

definition served_sample :: tending where
  "served_sample = \<lparr>su_space = drain_space, su_services = [drain_service], su_project = ''mb'', su_unit = ''mb-serve'',
     su_python = ''/bin/python'', su_keeper = ''/k.py'', su_local_time = (\<lambda>_. ''12:00:00''),
     te_glances = (\<lambda>i. \<lparr>gl_clock = of_nat (min i 2),
       gl_table = (if i < 2 then [\<lparr>ps_pid = 2, ps_started = 0, ps_session = 2, ps_open = True\<rparr>] else []) @
         (if i < 5 \<or> 9 \<le> i then [\<lparr>ps_pid = 6, ps_started = 1, ps_session = 5, ps_open = True\<rparr>] else []),
       gl_ledger = Some (\<lparr>ld_pid = 2, ld_started = 0\<rparr>, \<lparr>ld_pid = 5, ld_started = 1\<rparr>), gl_answers = True, gl_guarded = True\<rparr>),
     te_check = Inr ''/bin/pc'', te_remove = None, te_write = None, te_dry_run = (\<lambda>_. (0, [], [])), te_install = (\<lambda>_ _ _. None),
     te_seen = (\<lambda>_. \<lparr>vw_answer = None, vw_loaded = False, vw_ledger = None, vw_table = [], vw_guarded = True,
       vw_environ = (\<lambda>_. []), vw_sockets = (\<lambda>_. []), vw_found = True\<rparr>)\<rparr>"

definition served_start :: tended where
  "served_start = \<lparr>td_looks = 0, td_acts = []\<rparr>"

lemma served_sample_stops:
  "\<exists>rows t. serve_stop served_sample 9 served_start = (Inr (Some rows), t) \<and> map sn_verdict rows = [PASS]"
proof -
  have "case serve_stop served_sample 9 served_start of (r, t) \<Rightarrow> (case r of Inr (Some rows) \<Rightarrow> map sn_verdict rows = [PASS] | _ \<Rightarrow> False)"
    by code_simp
  then show ?thesis by (auto split: prod.splits sum.splits option.splits)
qed

lemma served_sample_starts:
  "\<exists>rows t argv secs l. serve_start served_sample 9 served_start = (Inr (Some rows), t) \<and> Unit_installed argv secs l \<in> set (td_acts t)"
proof -
  have "case serve_start served_sample 9 served_start of (r, t) \<Rightarrow> (case r of Inr (Some rows) \<Rightarrow> True | _ \<Rightarrow> False) \<and>
      (case rev (td_acts t) of Unit_installed argv secs l # _ \<Rightarrow> True | _ \<Rightarrow> False)"
    by code_simp
  then show ?thesis
    by (force split: prod.splits sum.splits option.splits list.splits serve_act.splits simp: rev_eq_Cons_iff)
qed


theorem stop_says_what_runs_witness:
  "\<exists>rows t more. serve_stop served_sample 9 served_start = (Inr (Some rows), t) \<and> map sn_verdict rows = [PASS] \<and>
     td_acts t = Unit_removed # more @ [Socket_unlinked]"
proof -
  from served_sample_stops obtain rows t where stop: "serve_stop served_sample 9 served_start = (Inr (Some rows), t)" "map sn_verdict rows = [PASS]"
    by (elim exE conjE)
  from stop_says_what_runs [OF stop(1)] obtain more where "td_acts t = td_acts served_start @ [Unit_removed] @ more @ [Socket_unlinked]"
    by blast
  with stop show ?thesis by (auto simp: served_start_def)
qed

theorem start_installs_accepted_witness:
  "\<exists>r t halts doc. serve_start served_sample 9 served_start = (r, t) \<and> compose_document drain_space [drain_service] = Inr doc \<and>
     td_acts t = [State_made, Unit_removed] @ halts @ [Socket_unlinked, Document_written doc, Document_tried (dry_run_argv served_sample ''/bin/pc''),
       Unit_installed (unit_argv served_sample ''/bin/pc'') 15 (state_path served_sample ''unit.log'')]"
proof -
  from served_sample_starts obtain rows t argv secs l where start: "serve_start served_sample 9 served_start = (Inr (Some rows), t)"
    "Unit_installed argv secs l \<in> set (td_acts t)" by blast
  have empty: "td_acts served_start = []" by (simp add: served_start_def)
  obtain prog doc halts where *: "te_check served_sample = Inr prog"
    "compose_document (su_space served_sample) (su_services served_sample) = Inr doc"
    "argv = unit_argv served_sample prog" "secs = stop_seconds (su_services served_sample)" "l = state_path served_sample ''unit.log''"
    "td_acts t = [State_made, Unit_removed] @ halts @ [Socket_unlinked, Document_written doc, Document_tried (dry_run_argv served_sample prog),
      Unit_installed argv secs l]"
    using start_installs_accepted [OF start(1) empty start(2)] by blast
  have at: "su_space served_sample = drain_space" "su_services served_sample = [drain_service]" "te_check served_sample = Inr ''/bin/pc''"
    by (simp_all add: served_sample_def)
  have "stop_seconds [drain_service] = 15" by (simp add: stop_seconds_def running_services_def drain_service_def STOP_MARGIN_def)
  with * at start(1) show ?thesis by auto
qed

definition served_seen :: seen where
  "served_seen = \<lparr>vw_answer = Some (\<lparr>pj_up_time = 5000000000, pj_version = ''1.124''\<rparr>,
       [\<lparr>cp_exit_code = 1, cp_is_running = False, cp_name = ''drain'', cp_next_run_time = Some 4, cp_pid = 0, cp_restarts = 0, cp_status = ''Scheduled''\<rparr>]),
     vw_loaded = True, vw_ledger = Some (\<lparr>ld_pid = 2, ld_started = 0\<rparr>, \<lparr>ld_pid = 5, ld_started = 1\<rparr>),
     vw_table = [\<lparr>ps_pid = 6, ps_started = 1, ps_session = 5, ps_open = True\<rparr>], vw_guarded = True,
     vw_environ = (\<lambda>_. [''HOME'', ''PATH'']),
     vw_sockets = (\<lambda>_. [\<lparr>cn_ip = ''127.0.0.1'', cn_port = 80, cn_listening = True, cn_loopback = True\<rparr>]), vw_found = True\<rparr>"

theorem serve_row_means_witness:
  "sn_verdict (serve_section served_sample served_seen) = PASS \<and>
   sn_verdict (serve_section served_sample (served_seen\<lparr>vw_environ := (\<lambda>_. [''KEY''])\<rparr>)) = FAIL"
proof
  have "sealed_tree served_sample served_seen"
    by (simp add: sealed_tree_def served_seen_def served_sample_def drain_space_def)
  then show "sn_verdict (serve_section served_sample served_seen) = PASS"
    unfolding serve_row_means [THEN conjunct2]
    by (simp add: served_seen_def served_sample_def drain_service_def kind_of_service_def)
  show "sn_verdict (serve_section served_sample (served_seen\<lparr>vw_environ := (\<lambda>_. [''KEY''])\<rparr>)) = FAIL"
    unfolding serve_row_means [THEN conjunct1] by code_simp
qed

end
