(* ===== verification/Spec2Isabelle.thy ===== *)
theory Spec2Isabelle
  imports Registry_Properties Evidence_Properties Stop_Properties Enforcer_Properties Batch_Properties
    Reaping_Properties Keeper_Properties Supervisor_Properties
begin

text \<open>
  A verification development of mainboard (\<open>src/src/mainboard/\<close>), the tool that dispatches jobs to
  hosts and rented machines, settles them, and keeps what they came to.

  \<^bold>\<open>The program and what is modelled.\<close> A dispatch writes a run record into an append-only log
  (\<open>dispatch/state/\<close>, \<open>state/schema.py\<close>). A settling pass (\<open>settling/monitor/\<close>) sweeps every target,
  captures each ended run's log and receipts, pulls its artifacts, releases its machine, records its
  verdict and moves its cursor, all under one lock and over answers of hosts and providers that may
  fail at any point. A batch (\<open>batch/\<close>) is many dispatches sharing one stream of events
  (\<open>batch/receipts.py\<close>). A wait (\<open>waiting/\<close>) repeats the pass for one run or batch and answers with an
  exit code; a cancel stops a run. A run on a cloud rents its machine: the creation is reserved and leased
  in the registry before the provider is asked, and unwound when a later step fails (\<open>dispatch/hosts/\<close>,
  \<open>dispatch/backends/\<close>), for a price the costs bound (\<open>costs/\<close>). A machine held without a job has its
  own log and an alias in the ssh config (\<open>holding/\<close>), and a reap pass ends the rentals nothing owns any
  more (\<open>settling/reaping/\<close>). The resident children run under one supervisor that a keeper starts, watches and
  sweeps behind (\<open>serve/\<close>). The policy (\<open>policy/\<close>, \<open>verbs/serve/asks.py\<close>) lets an unattended act
  go ahead only under a grant the owner wrote, files an ask otherwise, and starts an agent child only
  under its harness's bound.

  \<^bold>\<open>How code becomes definitions.\<close> A method is a function from a state to a result and a state:
  the result is a value or a \<open>fault\<close> (the exceptions of the source), and the state survives a raise, as it
  does in Python. \<open>try\<close>, \<open>else\<close> and \<open>finally\<close> are combinators of the prelude. Objects are records, enums
  datatypes, dictionaries association lists in insertion order, and text is a list of Latin-1 characters; only
  the reading of a frame decodes bytes into code points beyond them.
  Money and instants read as floats are the rationals they stand for, so that float rounding is not modelled.
  What lies outside (clocks, hosts, providers, the dispatcher, pydantic, uuid and blake2) is a record of
  functions passed in, some of them indexed by a count of what was done so far, so that an answer may change
  from call to call. Every state change outside the lake is appended to a trace of effects, on which
  claims of order are stated.

  \<^bold>\<open>The theories.\<close>
  \<^item> \<open>Prelude\<close>: text, dictionaries, JSON values, faults, computations; the locale of preorders that
    every step of a computation follows, and that of loops that keep the newest item per key.
  \<^item> \<open>Vocabulary\<close> (\<open>dispatch/jobs/vocabulary.py\<close>, \<open>runtime/job.py\<close>, \<open>context/admission.py\<close>): the verdict
    words and their moves, requests, walltimes, the queue's envelope. Every word can still settle, and a
    settled one moves nowhere; a walltime reads back as it was spelled.
  \<^item> \<open>Registry\<close>, \<open>Registry_Properties\<close> (\<open>dispatch/state/registry.py\<close>, \<open>cache.py\<close>): the log of runs and hosts
    with every operation on it. The log refines a map from identities to records, whatever the
    interleaving; a settled verdict stays; one unresolved creation per request.
  \<^item> \<open>Receipts\<close>, \<open>Captured\<close>, \<open>Json_Text\<close> (\<open>batch/receipts.py\<close>, \<open>dispatch/state/captured.py\<close>): the event
    journal, the cursor read from it, the index a pass keeps, and the transcripts and receipts kept verbatim.
  \<^item> \<open>Utf8\<close>, \<open>Evidence\<close>, \<open>Evidence_Properties\<close> (\<open>dispatch/jobs/evidence.py\<close>, \<open>jobs/testing/beacon.py\<close>): the
    frame a job prints its receipts in, with base64, Python's replacing decoder and the regular expressions
    spelled out, and the progress beacons. Whatever bytes were framed, the reader answers what that decoder makes of them.
  \<^item> \<open>Settlement\<close>, \<open>Monitor\<close>, \<open>Monitor_Properties\<close>, \<open>Settle_Order\<close>, \<open>Deadline_Properties\<close>
    (\<open>settling/monitor/\<close>): one run's settlement and the whole pass. Locales carry a preorder from the
    primitive steps to the pass, and are interpreted for each property: a pass unsettles nothing, a log is
    kept before its machine goes, a run whose machine stays is still owed, a rental at its deadline is
    released or tried again.
  \<^item> \<open>Verdicts\<close>, \<open>Outcomes\<close>, \<open>Waiting\<close>, \<open>Wait\<close> with \<open>Verdict_Properties\<close>, \<open>Outcome_Properties\<close> and
    \<open>Stop_Properties\<close> (\<open>waiting/\<close>): what a run answers, the verbs that stop one, the looks of a wait and its loop.
  \<^item> \<open>Costs\<close>, \<open>Leases\<close>, \<open>Cost_Properties\<close> (\<open>costs/\<close>, \<open>hosts/lease.py\<close>, \<open>backends/base.py\<close>,
    \<open>policy/warden.py\<close>): billing, the fit of setup times, quotes and scores; the lease priced from an offer,
    caps, and the check at a rent. A lease costs no more than its budget up to its deadline and release.
  \<^item> \<open>Rentals\<close>, \<open>Rental_Properties\<close> (\<open>hosts/allocation.py\<close>, \<open>landing.py\<close>, \<open>rentals.py\<close>,
    \<open>backends/cloud/core.py\<close>): the checkpoints of a creation, the template every cloud rents through, and
    the landing around it. The preorder of the registry's steps is extended by the machines made, so that
    however a landing ends the machine it made is named or tracked.
  \<^item> \<open>Aliases\<close>, \<open>Holds\<close>, \<open>Hold_Properties\<close> (\<open>transport/aliases.py\<close>, \<open>holding/holds.py\<close>,
    \<open>state/storage/holds.py\<close>): the marked blocks of the ssh config, and holding, releasing and expiring a
    machine. A refused release stays held, and no held machine is lost.
  \<^item> \<open>Reaping\<close>, \<open>Reaping_Properties\<close> (\<open>settling/reaping/\<close>): the pass that finds the rentals nothing owns.
    It ends only machines its labels prove ours and unowned, finds the machine of a create whose answer
    was lost, and ends every orphan its provider lists.
  \<^item> \<open>Keeper\<close>, \<open>Keeper_Properties\<close> (\<open>serve/keeper.py\<close>): sessions, the ledger and its sweep, and the life of a
    keeper as an inductive step relation beside the machine's own steps and a stop's. By rule induction over
    the reachable states, a supervisor's tree is named by the ledger or lost in a way a step spells out, a scan
    that missed some of its processes among them; two
    existential theorems show a stranger swept and a running supervisor forgotten.
  \<^item> \<open>Serve\<close>, \<open>Serve_Properties\<close>, \<open>Supervisor\<close>, \<open>Supervisor_Properties\<close> (\<open>serve/compose.py\<close>, \<open>supervisor.py\<close>,
    \<open>client.py\<close>, \<open>core/section.py\<close>): the document of the declared children, whose command lines read back; the rows
    of a status; start and stop, which install only what was accepted and say only what they saw.
  \<^item> \<open>Globs\<close>, \<open>Batch\<close>, \<open>Watch\<close>, \<open>Batch_Properties\<close> (\<open>batch/spec.py\<close>, \<open>runner.py\<close>, \<open>watch.py\<close>): the declaration,
    the run of a batch, and a watching pass.
  \<^item> \<open>Grants\<close>, \<open>Asks\<close>, \<open>Leave_Properties\<close>, \<open>Enforcers\<close>, \<open>Enforcer_Properties\<close> (\<open>policy/\<close>,
    \<open>verbs/serve/asks.py\<close>, \<open>render/terminal.py\<close>): scopes and grants, the owner's file, asks, the owner's
    verbs, and the launch check.

  \<^bold>\<open>Bounds and fuel.\<close> The wait for a run, and the waits of a start and a stop for the keeper, run on fuel, and an
  answer of \<open>None\<close> is a wait that still waits. With a timeout, any fuel beyond the reading of the clock
  that passes the deadline is enough for the first to end; four times the seconds a stop allows is enough
  for it, since each of its sleeps lasts a quarter of a second; where the code does not sleep, between the reading
  of the deadline, the loop and the looks after it, nothing is asked of the clock but that it does not run back. Everything else is structural recursion or has a
  termination proof (the spans of a log, the matching of a glob).

  \<^bold>\<open>Not modelled.\<close> The process that kills a stuck pass, sleeping and the endless watch loops;
  a character past Latin-1 outside the frames, which the receipts of a log hold as a stand-in of its kind; the process
  table changing while a scan of a stop or of a status walks it (in the life of a keeper any scan may miss processes);
  the ssh and provider calls themselves, with the keys, the boot and the steps that equip a machine, mirroring
  and the remote agent (their answers are parameters); the providers with a rent of their own, and the line of
  a held scheduler allocation; the keeper's own process, its signals and logs, the YAML text of the served document and
  the HTTP exchange with process-compose; the telemetry sink and the center;
  the storage engine behind the logs; the estimate and transfer sets of a batch and its TOML file with
  templates; the doctor's rows; analysis, profiling, probes, plots,
  rendering and the other tools of the repository, which carry no state of the jobs modelled here.
\<close>

end
